(* ===== verification/Prelude.thy ===== *)
theory Prelude
  imports Main "HOL-Library.Word" "HOL-Library.RBT" "HOL-Library.Product_Lexorder"
    "HOL-Library.Signed_Division"
begin

text \<open>
  Shared vocabulary of the development: the Go types the sources use (fixed-width
  integers, 32-byte hashes, byte slices), Go's truncating integer conversions, the
  big-endian integer encoding of \<^verbatim>\<open>encoding/binary\<close>, and the generic lemmas on sums over
  the domain of a finite map, on prefixes of sorted lists and on folds that may fail.
  The collections \<open>codec_simps\<close>, \<open>store_simps\<close> and \<open>inv_intros\<close> are filled by the component
  theories.
\<close>

named_theorems codec_simps \<open>lengths and round trips of serialised values\<close>
named_theorems store_simps \<open>reads of a bucket after a write to the store\<close>
named_theorems inv_intros \<open>preservation of the store invariant by one operation\<close>

unbundle bit_operations_syntax

section \<open>Go types\<close>

type_synonym byte = "8 word"
type_synonym bytes = "byte list"
type_synonym hash = "256 word"        \<comment> \<open>\<^verbatim>\<open>chainhash.Hash\<close> = [32]byte, read big-endian\<close>
type_synonym amount = "64 word"       \<comment> \<open>\<^verbatim>\<open>btcutil.Amount\<close> = int64, two's complement\<close>
type_synonym uint32 = "32 word"
type_synonym script = "bytes"

text \<open>Go's conversions \<open>int32(x)\<close> and \<open>int64(x)\<close>, and arithmetic at these widths, keep the low
  bits and read them as two's complement.\<close>

definition int32 :: "int \<Rightarrow> int" where
  "int32 x = sint (word_of_int x :: 32 word)"

definition int64 :: "int \<Rightarrow> int" where
  "int64 x = sint (word_of_int x :: 64 word)"

definition maxInt32 :: int where "maxInt32 = 2147483647"
definition minInt32 :: int where "minInt32 = - 2147483648"
definition maxInt64 :: int where "maxInt64 = 9223372036854775807"
definition minInt64 :: int where "minInt64 = - 9223372036854775808"

abbreviation in32 :: "int \<Rightarrow> bool" where "in32 x \<equiv> - 2147483648 \<le> x \<and> x \<le> 2147483647"
abbreviation in64 :: "int \<Rightarrow> bool" where
  "in64 x \<equiv> - 9223372036854775808 \<le> x \<and> x \<le> 9223372036854775807"

lemma int32_eq: "int32 x = (x + 2147483648) mod 4294967296 - 2147483648"
  by (simp add: int32_def sint_sbintrunc' signed_take_bit_eq_take_bit_shift take_bit_eq_mod)

lemma int64_eq: "int64 x = (x + 9223372036854775808) mod 18446744073709551616 - 9223372036854775808"
  by (simp add: int64_def sint_sbintrunc' signed_take_bit_eq_take_bit_shift take_bit_eq_mod)

lemma int32_id [simp]: "in32 x \<Longrightarrow> int32 x = x"
  by (simp add: int32_eq)

lemma int64_id [simp]: "in64 x \<Longrightarrow> int64 x = x"
  by (simp add: int64_eq)

lemma int32_range: "in32 (int32 x)"
proof -
  have "0 \<le> (x + 2147483648) mod 4294967296" "(x + 2147483648) mod 4294967296 < 4294967296"
    by simp_all
  then show ?thesis by (simp add: int32_eq)
qed

lemma int64_range: "in64 (int64 x)"
proof -
  have "0 \<le> (x + 9223372036854775808) mod 18446744073709551616"
    "(x + 9223372036854775808) mod 18446744073709551616 < 18446744073709551616"
    by simp_all
  then show ?thesis by (simp add: int64_eq)
qed

text \<open>Go's integer division truncates towards zero.\<close>

definition quot :: "int \<Rightarrow> int \<Rightarrow> int" where
  "quot a b = sgn a * sgn b * (\<bar>a\<bar> div \<bar>b\<bar>)"

lemma quot_nonneg [simp]: "0 \<le> a \<Longrightarrow> 0 < b \<Longrightarrow> quot a b = a div b"
  by (cases "a = 0") (simp_all add: quot_def)

text \<open>What deriving a child key gives (\<^verbatim>\<open>hdkeychain\<close>): the child, \<open>ErrInvalidChild\<close> or another error.\<close>

datatype 'k deriveResult = Derived 'k | InvalidChild | DeriveError

section \<open>Big-endian integers (\<^verbatim>\<open>encoding/binary.BigEndian\<close>)\<close>

fun be_enc :: "nat \<Rightarrow> nat \<Rightarrow> bytes" where
  "be_enc 0 x = []"
| "be_enc (Suc n) x = be_enc n (x div 256) @ [of_nat (x mod 256)]"

definition be_dec :: "bytes \<Rightarrow> nat" where
  "be_dec bs = foldl (\<lambda>a b. a * 256 + unat b) 0 bs"

lemma length_be_enc [simp, codec_simps]: "length (be_enc n x) = n"
  by (induction n arbitrary: x) auto

lemma be_dec_Nil [simp]: "be_dec [] = 0"
  by (simp add: be_dec_def)

lemma be_dec_snoc [simp]: "be_dec (bs @ [b]) = be_dec bs * 256 + unat b"
  by (simp add: be_dec_def)

lemma be_dec_be_enc: "be_dec (be_enc n x) = x mod 256 ^ n"
proof (induction n arbitrary: x)
  case (Suc n)
  have "unat (of_nat (x mod 256) :: byte) = x mod 256"
    by (simp add: unat_of_nat)
  then show ?case
    using Suc by (simp add: mod_mult2_eq mult.commute)
qed simp

lemma be_dec_less: "be_dec bs < 256 ^ length bs"
proof (induction bs rule: rev_induct)
  case (snoc b bs)
  have "unat b < 256" using unsigned_less [of b, where ?'a = nat] by simp
  with snoc show ?case by simp
qed simp

lemma be_enc_be_dec: "n = length bs \<Longrightarrow> be_enc n (be_dec bs) = bs"
proof (induction bs arbitrary: n rule: rev_induct)
  case (snoc b bs)
  have b: "unat b < 256" using unsigned_less [of b, where ?'a = nat] by simp
  have "(be_dec bs * 256 + unat b) div 256 = be_dec bs"
    "(be_dec bs * 256 + unat b) mod 256 = unat b"
    using b by simp_all
  with snoc show ?case by simp
qed simp

text \<open>\<open>PutUint32\<close>/\<open>Uint32\<close>, \<open>PutUint64\<close>/\<open>Uint64\<close> and the 32 bytes of a hash.\<close>

definition put_u16 :: "16 word \<Rightarrow> bytes" where "put_u16 w = be_enc 2 (unat w)"
definition put_u32 :: "uint32 \<Rightarrow> bytes" where "put_u32 w = be_enc 4 (unat w)"
definition put_u64 :: "64 word \<Rightarrow> bytes" where "put_u64 w = be_enc 8 (unat w)"
definition hash_bytes :: "hash \<Rightarrow> bytes" where "hash_bytes h = be_enc 32 (unat h)"

definition get_u16 :: "bytes \<Rightarrow> 16 word" where "get_u16 bs = of_nat (be_dec (take 2 bs))"
definition get_u32 :: "bytes \<Rightarrow> uint32" where "get_u32 bs = of_nat (be_dec (take 4 bs))"
definition get_u64 :: "bytes \<Rightarrow> 64 word" where "get_u64 bs = of_nat (be_dec (take 8 bs))"
definition get_hash :: "bytes \<Rightarrow> hash" where "get_hash bs = of_nat (be_dec (take 32 bs))"

lemma length_puts [simp, codec_simps]:
  "length (put_u16 w) = 2" "length (put_u32 v) = 4" "length (put_u64 u) = 8"
  "length (hash_bytes h) = 32"
  by (simp_all add: put_u16_def put_u32_def put_u64_def hash_bytes_def)

lemma of_nat_unat_mod:
  fixes w :: "'a::len word"
  assumes "2 ^ LENGTH('a) = m"
  shows "of_nat (unat w mod m) = w"
proof -
  have "unat w < m" using unsigned_less [of w, where ?'a = nat] assms by simp
  then show ?thesis by simp
qed

lemma get_put [simp, codec_simps]:
  "get_u16 (put_u16 w @ r) = w" "get_u32 (put_u32 v @ r) = v" "get_u64 (put_u64 u @ r) = u"
  "get_hash (hash_bytes h @ r) = h"
  by (simp_all add: get_u16_def get_u32_def get_u64_def get_hash_def put_u16_def put_u32_def
      put_u64_def hash_bytes_def be_dec_be_enc of_nat_unat_mod)

lemmas get_put_Nil [simp, codec_simps] = get_put [where r = "[]", simplified]

lemma put_get [codec_simps]:
  "length bs = 4 \<Longrightarrow> put_u32 (get_u32 bs) = bs"
  "length bs = 32 \<Longrightarrow> hash_bytes (get_hash bs) = bs"
  "length bs = 8 \<Longrightarrow> put_u64 (get_u64 bs) = bs"
  using be_dec_less [of bs]
  by (simp_all add: put_u32_def get_u32_def hash_bytes_def get_hash_def put_u64_def get_u64_def
      unat_of_nat be_enc_be_dec)

lemma put_inject [simp]:
  "put_u32 v = put_u32 v' \<longleftrightarrow> v = v'" "hash_bytes h = hash_bytes h' \<longleftrightarrow> h = h'"
  "put_u64 u = put_u64 u' \<longleftrightarrow> u = u'"
  by (metis get_put_Nil(2)) (metis get_put_Nil(4), metis get_put_Nil(3))

section \<open>Sums over the domain of a finite map\<close>

text \<open>A finite map is a bucket's contents; these lemmas carry every balance proof.\<close>

lemma sum_dom_insert:
  fixes f :: "'k \<Rightarrow> 'a::ab_group_add"
  assumes "finite (dom m)" "k \<notin> dom m"
  shows "sum f (dom (m(k \<mapsto> v))) = f k + sum f (dom m)"
  using assms by simp

lemma sum_dom_update:
  fixes f :: "'k \<Rightarrow> 'a::ab_group_add"
  assumes "k \<in> dom m"
  shows "sum f (dom (m(k \<mapsto> v))) = sum f (dom m)"
  using assms by (simp add: insert_absorb)

lemma sum_dom_delete:
  fixes f :: "'k \<Rightarrow> 'a::ab_group_add"
  assumes "finite (dom m)" "k \<in> dom m"
  shows "sum f (dom (m(k := None))) = sum f (dom m) - f k"
  using assms by (simp add: sum_diff1)

section \<open>Folds that may fail\<close>

text \<open>A Go loop whose body returns an error stops at the first one: the error is the loop's
  result.  \<open>'e + 's\<close> holds the error on the left.\<close>

fun fold_err :: "('a \<Rightarrow> 's \<Rightarrow> 'e + 's) \<Rightarrow> 'a list \<Rightarrow> 's \<Rightarrow> 'e + 's" where
  "fold_err f [] s = Inr s"
| "fold_err f (x # xs) s = (case f x s of Inl e \<Rightarrow> Inl e | Inr s' \<Rightarrow> fold_err f xs s')"

lemma fold_err_append:
  "fold_err f (xs @ ys) s = (case fold_err f xs s of Inl e \<Rightarrow> Inl e | Inr s' \<Rightarrow> fold_err f ys s')"
  by (induction xs arbitrary: s) (auto split: sum.splits)

lemma fold_err_inv:
  assumes "fold_err f xs s = Inr s'" and "P s"
    and "\<And>x s s'. x \<in> set xs \<Longrightarrow> P s \<Longrightarrow> f x s = Inr s' \<Longrightarrow> P s'"
  shows "P s'"
  using assms
proof (induction xs arbitrary: s)
  case (Cons x xs)
  then obtain s1 where "f x s = Inr s1" "fold_err f xs s1 = Inr s'"
    by (auto split: sum.splits)
  with Cons show ?case by (metis list.set_intros)
qed simp

lemma fold_err_total:
  assumes "P s" and "\<And>x s. x \<in> set xs \<Longrightarrow> P s \<Longrightarrow> \<exists>s'. f x s = Inr s' \<and> P s'"
  shows "\<exists>s'. fold_err f xs s = Inr s' \<and> P s'"
  using assms
proof (induction xs arbitrary: s)
  case (Cons x xs)
  then obtain s1 where "f x s = Inr s1" "P s1" by (metis list.set_intros(1))
  with Cons show ?case by fastforce
qed simp

text \<open>A loop that appends at most one element per iteration and stops at the first error.\<close>

fun collect_err :: "('a \<Rightarrow> 'e + 'b option) \<Rightarrow> 'a list \<Rightarrow> 'e + 'b list" where
  "collect_err f [] = Inr []"
| "collect_err f (x # xs) =
     (case f x of
        Inl e \<Rightarrow> Inl e
      | Inr y \<Rightarrow> (case collect_err f xs of
                   Inl e \<Rightarrow> Inl e
                 | Inr ys \<Rightarrow> Inr ((case y of None \<Rightarrow> [] | Some z \<Rightarrow> [z]) @ ys)))"

lemma collect_err_total:
  assumes "\<And>x. x \<in> set xs \<Longrightarrow> f x = Inr (g x)"
  shows "collect_err f xs = Inr (List.map_filter g xs)"
  using assms by (induction xs) (auto simp: List.map_filter_simps split: option.splits)

section \<open>Loops without errors\<close>

lemma fold_inv:
  assumes "P s" and "\<And>x s. x \<in> set xs \<Longrightarrow> P s \<Longrightarrow> P (f x s)"
  shows "P (fold f xs s)"
  using assms by (induction xs arbitrary: s) auto

end
