(* ===== verification/Walletdb.thy ===== *)
theory Walletdb
  imports Prelude
begin

text \<open>
  The bucket interface of \<^verbatim>\<open>walletdb/interface.go\<close> (\<open>ReadBucket\<close>, \<open>ReadWriteBucket\<close> and
  \<open>ReadCursor\<close>).  A bucket is a finite map whose pairs are visited in ascending key
  order; the interface's documented laws are the locale \<open>bucket_spec\<close>, and what its
  clients derive from them (a \<open>ForEach\<close> visits every pair once, a prefix scan with
  \<open>Seek\<close>/\<open>Next\<close> visits exactly the pairs with that prefix) is proved once inside it.
  The buckets of the model are the library's ordered search trees; the interpretation
  \<open>bkt\<close> discharges the laws for them.  Keys are typed: \<open>Wtx_Codec\<close> shows that the byte
  keys the code builds are order-preserving images of the typed ones.

  \<open>Put\<close> and \<open>Delete\<close> return an error only outside a writable transaction or for
  oversized keys (\<^verbatim>\<open>bbolt\<close>); the store's handlers run inside one and use keys of at
  most 72 bytes, so the model's writes succeed.
\<close>

section \<open>The contract\<close>

locale bucket_spec =
  fixes empty :: "'b"
    and get :: "'b \<Rightarrow> 'k::linorder \<Rightarrow> 'v option"
    and put :: "'b \<Rightarrow> 'k \<Rightarrow> 'v \<Rightarrow> 'b"
    and delete :: "'b \<Rightarrow> 'k \<Rightarrow> 'b"
    and forEach :: "'b \<Rightarrow> ('k \<times> 'v) list"
  assumes get_empty: "get empty = Map.empty"
    and get_put: "get (put b k v) = (get b)(k \<mapsto> v)"
    and get_delete: "get (delete b k) = (get b)(k := None)"
    and forEach_get: "map_of (forEach b) = get b"
    and forEach_sorted: "sorted_wrt (<) (map fst (forEach b))"
begin

lemma distinct_keys: "distinct (map fst (forEach b))"
  using forEach_sorted [of b] strict_sorted_iff by blast

lemma forEach_iff: "(k, v) \<in> set (forEach b) \<longleftrightarrow> get b k = Some v"
  using distinct_keys forEach_get by (metis map_of_eq_Some_iff)

lemma dom_get: "dom (get b) = fst ` set (forEach b)"
  by (metis dom_map_of_conv_image_fst forEach_get)

lemma finite_dom: "finite (dom (get b))"
  by (simp add: dom_get)

lemma sum_forEach:
  "sum_list (map (\<lambda>(k, v). f k v) (forEach b)) =
   (\<Sum>k\<in>dom (get b). f k (the (get b k)))"
proof -
  have kv: "get b k = Some v" if "(k, v) \<in> set (forEach b)" for k v
    using that forEach_iff by blast
  have "sum_list (map (\<lambda>(k, v). f k v) (forEach b)) =
      sum_list (map (\<lambda>k. f k (the (get b k))) (map fst (forEach b)))"
    by (auto simp: comp_def intro!: arg_cong [of _ _ sum_list] map_cong dest: kv)
  also have "\<dots> = (\<Sum>k\<in>set (map fst (forEach b)). f k (the (get b k)))"
    using distinct_keys by (simp only: sum_list_distinct_conv_sum_set)
  finally show ?thesis by (simp add: dom_get)
qed

text \<open>A cursor positioned by \<open>Seek k\<close> and advanced by \<open>Next\<close> while the prefix test \<open>P\<close>
  holds visits the pairs satisfying \<open>P\<close>, when \<open>P\<close> is an interval of keys starting at \<open>k\<close>.\<close>

lemma seek_filter:
  assumes low: "\<And>x. P x \<Longrightarrow> k \<le> x"
    and convex: "\<And>x y. k \<le> x \<Longrightarrow> x \<le> y \<Longrightarrow> P y \<Longrightarrow> P x"
  shows "takeWhile (\<lambda>(x, v). P x) (dropWhile (\<lambda>(x, v). x < k) (forEach b))
       = filter (\<lambda>(x, v). P x) (forEach b)"
proof -
  have "takeWhile (\<lambda>(x, v). P x) (dropWhile (\<lambda>(x, v). x < k) xs) = filter (\<lambda>(x, v). P x) xs"
    if "sorted_wrt (<) (map fst xs)" for xs :: "('k \<times> 'v) list"
    using that
  proof (induction xs)
    case (Cons p xs)
    obtain x v where p: "p = (x, v)" by force
    have gt: "\<forall>(y, w)\<in>set xs. x < y" using Cons.prems p by auto
    show ?case
    proof (cases "x < k")
      case True
      then have "\<not> P x" using low leD by blast
      with True Cons p show ?thesis by simp
    next
      case kx: False
      have drop: "dropWhile (\<lambda>(x, v). x < k) xs = xs"
        using gt kx by (cases xs) (auto dest: less_trans)
      show ?thesis
      proof (cases "P x")
        case True
        with Cons p kx drop show ?thesis by simp
      next
        case False
        have "\<not> P y" if "(y, w) \<in> set xs" for y w
          using False convex [of x y] kx gt that by fastforce
        then have "filter (\<lambda>(x, v). P x) xs = []"
          by (auto simp: filter_empty_conv)
        with False p kx show ?thesis by simp
      qed
    qed
  qed simp
  then show ?thesis using forEach_sorted .
qed

end

section \<open>The model's buckets\<close>

type_synonym ('k, 'v) bucket = "('k, 'v) RBT.rbt"

definition bempty :: "('k::linorder, 'v) bucket" where
  "bempty = RBT.empty"

definition Get :: "('k::linorder, 'v) bucket \<Rightarrow> 'k \<Rightarrow> 'v option" where
  "Get b k = RBT.lookup b k"

definition Put :: "('k::linorder, 'v) bucket \<Rightarrow> 'k \<Rightarrow> 'v \<Rightarrow> ('k, 'v) bucket" where
  "Put b k v = RBT.insert k v b"

definition Delete :: "('k::linorder, 'v) bucket \<Rightarrow> 'k \<Rightarrow> ('k, 'v) bucket" where
  "Delete b k = RBT.delete k b"

definition ForEach :: "('k::linorder, 'v) bucket \<Rightarrow> ('k \<times> 'v) list" where
  "ForEach b = RBT.entries b"

text \<open>\<open>Seek k\<close> followed by \<open>Next\<close> while the key has the prefix.\<close>

definition scan :: "('k::linorder, 'v) bucket \<Rightarrow> 'k \<Rightarrow> ('k \<Rightarrow> bool) \<Rightarrow> ('k \<times> 'v) list" where
  "scan b k P = takeWhile (\<lambda>(x, v). P x) (dropWhile (\<lambda>(x, v). x < k) (ForEach b))"

interpretation bkt: bucket_spec bempty Get Put Delete ForEach
proof
  fix b :: "('k::linorder, 'v) bucket" and k :: 'k and v :: 'v
  show "Get bempty = (Map.empty :: 'k \<Rightarrow> 'v option)"
    by (simp add: Get_def bempty_def fun_eq_iff)
  show "Get (Put b k v) = (Get b)(k \<mapsto> v)"
    by (simp add: Get_def Put_def fun_eq_iff)
  show "Get (Delete b k) = (Get b)(k := None)"
    by (simp add: Get_def Delete_def fun_eq_iff)
  show "map_of (ForEach b) = Get b"
    by (simp add: ForEach_def Get_def fun_eq_iff RBT.map_of_entries)
  show "sorted_wrt (<) (map fst (ForEach b))"
    by (simp add: ForEach_def strict_sorted_iff RBT.sorted_entries RBT.distinct_entries)
qed

lemmas bucket_simps [simp, store_simps] = bkt.get_empty bkt.get_put bkt.get_delete bkt.finite_dom

lemma scan_filter:
  assumes "\<And>x. P x \<Longrightarrow> k \<le> x" and "\<And>x y. k \<le> x \<Longrightarrow> x \<le> y \<Longrightarrow> P y \<Longrightarrow> P x"
  shows "scan b k P = filter (\<lambda>(x, v). P x) (ForEach b)"
  unfolding scan_def using assms by (rule bkt.seek_filter)

end
