(* ===== verification/Wtx_Types.thy ===== *)
theory Wtx_Types
  imports Walletdb
begin

text \<open>
  The data of the transaction store: the structs of \<^verbatim>\<open>wtxmgr/tx.go\<close>, \<^verbatim>\<open>wtxmgr/query.go\<close> and
  the error codes of \<^verbatim>\<open>wtxmgr/error.go\<close>, with the orders in which the database iterates
  over outpoints and blocks.  A 32-byte hash is a 256-bit word, an \<open>int32\<close> height is its
  32 bits (read with \<open>sint\<close> where the code compares heights), an amount its 64 bits.
\<close>

section \<open>Outpoints and blocks\<close>

datatype OutPoint = OutPoint (opHash: hash) (opIndex: uint32)

datatype Block = Block (bHeight: uint32) (bHash: hash)

instantiation OutPoint :: linorder
begin
definition less_eq_OutPoint :: "OutPoint \<Rightarrow> OutPoint \<Rightarrow> bool" where
  "less_eq_OutPoint a b \<longleftrightarrow> (opHash a, opIndex a) \<le> (opHash b, opIndex b)"
definition less_OutPoint :: "OutPoint \<Rightarrow> OutPoint \<Rightarrow> bool" where
  "less_OutPoint a b \<longleftrightarrow> (opHash a, opIndex a) < (opHash b, opIndex b)"
instance
  by standard (auto simp: less_eq_OutPoint_def less_OutPoint_def OutPoint.expand)
end

instantiation Block :: linorder
begin
definition less_eq_Block :: "Block \<Rightarrow> Block \<Rightarrow> bool" where
  "less_eq_Block a b \<longleftrightarrow> (bHeight a, bHash a) \<le> (bHeight b, bHash b)"
definition less_Block :: "Block \<Rightarrow> Block \<Rightarrow> bool" where
  "less_Block a b \<longleftrightarrow> (bHeight a, bHash a) < (bHeight b, bHash b)"
instance
  by standard (auto simp: less_eq_Block_def less_Block_def Block.expand)
end

text \<open>Keys of the transaction record, credit and debit buckets.\<close>

type_synonym TxKey = "hash \<times> Block"
type_synonym CredKey = "hash \<times> Block \<times> uint32"

definition credOut :: "CredKey \<Rightarrow> OutPoint" where
  "credOut k = OutPoint (fst k) (snd (snd k))"

lemma credOut_simp [simp]: "credOut (h, b, i) = OutPoint h i"
  by (simp add: credOut_def)

section \<open>Transactions\<close>

text \<open>Of \<^verbatim>\<open>wire.MsgTx\<close> the store reads the previous outpoint of every input and the value and
  script of every output.\<close>

record txOut =
  Value :: amount
  PkScript :: script

record MsgTx =
  TxIn :: "OutPoint list"
  TxOut :: "txOut list"

record TxRecord =
  msgTx :: MsgTx
  txHash :: hash
  received :: "64 word"         \<comment> \<open>\<open>Received.Unix()\<close>\<close>

record BlockMeta =
  block :: Block
  btime :: "64 word"            \<comment> \<open>\<open>Time.Unix()\<close>\<close>

record blockRecord =
  brHash :: hash
  brTime :: "64 word"
  transactions :: "hash list"

text \<open>A stored transaction record value: received time and transaction.\<close>

record TxVal =
  tvReceived :: "64 word"
  tvTx :: MsgTx

text \<open>A credit; \<open>credSpentBy\<close> is the debit key the value carries when its spent flag is set.\<close>

record Credit =
  credAmount :: amount
  credChange :: bool
  credSpentBy :: "CredKey option"

record Debit =
  debAmount :: amount
  debCredKey :: CredKey

record UnminedCredit =
  ucAmount :: amount
  ucChange :: bool

type_synonym LockID = hash      \<comment> \<open>[32]byte\<close>

record LockVal =
  lockID :: LockID
  lockExpiry :: "64 word"       \<comment> \<open>\<open>expiry.Unix()\<close>\<close>

section \<open>Errors\<close>

datatype store_error =
    ErrDatabase | ErrData | ErrInput | ErrAlreadyExists | ErrNoExists | ErrNeedsUpgrade
  | ErrUnknownVersion
  | ErrEmptyLabel | ErrLabelTooLong | ErrNoLabelBucket | ErrTxLabelNotFound
  | ErrUnknownOutput | ErrOutputAlreadyLocked | ErrOutputUnlockNotAllowed | ErrDuplicateTx
  | Panic | StackOverflow

text \<open>\<open>Panic\<close> is a Go run-time panic (a slice or index out of range), which no caller handles;
  \<open>StackOverflow\<close> is the end of a recursion that does not return.\<close>

section \<open>Outputs of a transaction\<close>

definition hasOut :: "MsgTx \<Rightarrow> uint32 \<Rightarrow> bool" where
  "hasOut tx i \<longleftrightarrow> unat i < length (TxOut tx)"

definition outValue :: "MsgTx \<Rightarrow> uint32 \<Rightarrow> amount" where
  "outValue tx i = (if hasOut tx i then Value (TxOut tx ! unat i) else 0)"

text \<open>The \<open>uint32(i)\<close> indexes of a loop over a slice.\<close>

definition idxs :: "'a list \<Rightarrow> uint32 list" where
  "idxs xs = map of_nat [0..<length xs]"

lemma set_idxs: "length xs \<le> 2 ^ 32 \<Longrightarrow> set (idxs xs) = {i. unat i < length xs}"
proof -
  assume l: "length xs \<le> 2 ^ 32"
  have "unat (of_nat n :: uint32) = n" if "n < length xs" for n
    using that l by (simp add: unat_of_nat)
  moreover have "\<exists>n<length xs. i = of_nat n" if "unat i < length xs" for i :: uint32
    using that by (intro exI [of _ "unat i"]) simp
  ultimately show ?thesis by (auto simp: idxs_def image_iff Bex_def)
qed

lemma idxs_Nil [simp]: "idxs [] = []"
  by (simp add: idxs_def)

lemma distinct_idxs: "length xs \<le> 2 ^ 32 \<Longrightarrow> distinct (idxs xs)"
  by (simp add: idxs_def distinct_map inj_on_def word_of_nat_eq_iff take_bit_nat_eq_self)

end
