(* ===== verification/Wtx_Codec.thy ===== *)
theory Wtx_Codec
  imports Wtx_Types "HOL-Library.List_Lexorder"
begin

text \<open>
  The serialisation layer of \<^verbatim>\<open>wtxmgr/db.go\<close>: every key and value function on byte slices,
  as the code has them.  Two kinds of facts are proved.  The key functions are
  fixed-width, decodable and preserve the order of the typed keys (locale \<open>key_codec\<close>,
  interpreted for outpoints, block heights, transaction records and credits), so a
  bucket indexed by typed keys behaves as the byte-indexed one.  The value functions
  read back what was written, and the in-place edits of a credit value (\<open>spendCredit\<close>,
  \<open>unspendRawCredit\<close>) act on the encoded value as the typed store's updates do.
\<close>

section \<open>Byte order is numeric order\<close>

lemma be_dec_append: "be_dec (xs @ ys) = be_dec xs * 256 ^ length ys + be_dec ys"
proof (induction ys rule: rev_induct)
  case (snoc y ys)
  then show ?case by (simp add: algebra_simps flip: append_assoc)
qed simp

lemma be_dec_Cons: "be_dec (b # bs) = unat b * 256 ^ length bs + be_dec bs"
  using be_dec_append [of "[b]" bs] be_dec_snoc [of "[]" b] by simp

lemma lex_be_dec:
  assumes "length xs = length ys"
  shows "xs < ys \<longleftrightarrow> be_dec xs < be_dec ys"
  using assms
proof (induction xs ys rule: list_induct2)
  case (Cons x xs y ys)
  let ?m = "256 ^ length xs :: nat"
  have bx: "be_dec xs < ?m" and bY: "be_dec ys < ?m"
    using be_dec_less [of xs] be_dec_less [of ys] Cons.hyps by simp_all
  have lt: "unat x * ?m + be_dec xs < unat y * ?m + be_dec ys" if "unat x < unat y"
  proof -
    have "unat x * ?m + be_dec xs < (unat x + 1) * ?m" using bx by (simp add: algebra_simps)
    also have "\<dots> \<le> unat y * ?m" using that by (intro mult_right_mono) auto
    finally show ?thesis by simp
  qed
  have gt: "unat y * ?m + be_dec ys < unat x * ?m + be_dec xs" if "unat y < unat x"
  proof -
    have "unat y * ?m + be_dec ys < (unat y + 1) * ?m" using bY by (simp add: algebra_simps)
    also have "\<dots> \<le> unat x * ?m" using that by (intro mult_right_mono) auto
    finally show ?thesis by simp
  qed
  show ?case
    using lt gt Cons
    by (cases "unat x" "unat y" rule: linorder_cases)
      (auto simp: be_dec_Cons word_less_nat_alt word_unat_eq_iff)
qed simp

lemma lex_append:
  fixes xs ys :: bytes
  assumes "length xs = length ys"
  shows "xs @ u < ys @ v \<longleftrightarrow> xs < ys \<or> xs = ys \<and> u < v"
  using assms by (induction xs ys rule: list_induct2) auto

lemma put_u32_less: "put_u32 a < put_u32 b \<longleftrightarrow> a < b"
proof -
  have "unat c < 256 ^ 4" for c :: uint32 using unsigned_less [of c, where ?'a = nat] by simp
  then show ?thesis
    by (simp add: lex_be_dec put_u32_def be_dec_be_enc word_less_nat_alt)
qed

lemma hash_bytes_less: "hash_bytes a < hash_bytes b \<longleftrightarrow> a < b"
proof -
  have "unat c < 256 ^ 32" for c :: hash using unsigned_less [of c, where ?'a = nat] by simp
  then show ?thesis
    by (simp add: lex_be_dec hash_bytes_def be_dec_be_enc word_less_nat_alt)
qed

section \<open>The contract of a key encoding\<close>

locale key_codec =
  fixes enc :: "'k::linorder \<Rightarrow> bytes" and dec :: "bytes \<Rightarrow> store_error + 'k" and width :: nat
  assumes width: "length (enc k) = width"
    and short: "length bs < width \<Longrightarrow> dec bs = Inl ErrData"
    and round_trip: "dec (enc k @ r) = Inr k"
    and ordered: "enc k < enc k' \<longleftrightarrow> k < k'"
begin

lemma inject: "enc k = enc k' \<longleftrightarrow> k = k'"
  by (metis round_trip sum.inject(2))

lemma ordered_le: "enc k \<le> enc k' \<longleftrightarrow> k \<le> k'"
  using ordered inject by (auto simp: le_less)

text \<open>Sorting by encoded key and sorting by typed key agree, so the two kinds of bucket
  iterate in the same order.\<close>

lemma sorted_image: "sorted_wrt (<) (map enc ks) \<longleftrightarrow> sorted_wrt (<) ks"
  by (simp add: sorted_wrt_map ordered)

end

section \<open>Canonical outpoints\<close>

definition canonicalOutPoint :: "hash \<Rightarrow> uint32 \<Rightarrow> bytes" where
  "canonicalOutPoint h i = hash_bytes h @ put_u32 i"

definition readCanonicalOutPoint :: "bytes \<Rightarrow> store_error + OutPoint" where
  "readCanonicalOutPoint k =
     (if length k < 36 then Inl ErrData
      else Inr (OutPoint (get_hash k) (get_u32 (drop 32 k))))"

definition encOutPoint :: "OutPoint \<Rightarrow> bytes" where
  "encOutPoint op = canonicalOutPoint (opHash op) (opIndex op)"

lemma drop_hash [simp, codec_simps]: "drop 32 (hash_bytes h @ r) = r" "take 32 (hash_bytes h @ r) = hash_bytes h"
  by simp_all

interpretation outpoint_key: key_codec encOutPoint readCanonicalOutPoint 36
  by unfold_locales
    (auto simp: encOutPoint_def canonicalOutPoint_def readCanonicalOutPoint_def lex_append
      put_u32_less hash_bytes_less less_OutPoint_def less_prod_def)

section \<open>Block records\<close>

definition keyBlockRecord :: "uint32 \<Rightarrow> bytes" where
  "keyBlockRecord height = put_u32 height"

definition readKeyBlockRecord :: "bytes \<Rightarrow> store_error + uint32" where
  "readKeyBlockRecord k = (if length k < 4 then Inl ErrData else Inr (get_u32 k))"

interpretation height_key: key_codec keyBlockRecord readKeyBlockRecord 4
  by unfold_locales (auto simp: keyBlockRecord_def readKeyBlockRecord_def put_u32_less)

definition valueBlockRecord :: "BlockMeta \<Rightarrow> hash \<Rightarrow> bytes" where
  "valueBlockRecord bm h =
     hash_bytes (bHash (block bm)) @ put_u64 (btime bm) @ put_u32 1 @ hash_bytes h"

text \<open>\<open>PutUint32(newv[40:44], n+1)\<close> overwrites four bytes in place.\<close>

definition overwrite :: "bytes \<Rightarrow> nat \<Rightarrow> bytes \<Rightarrow> bytes" where
  "overwrite v off bs = take off v @ bs @ drop (off + length bs) v"

definition appendRawBlockRecord :: "bytes \<Rightarrow> hash \<Rightarrow> store_error + bytes" where
  "appendRawBlockRecord v h =
     (if length v < 44 then Inl ErrData
      else let newv = v @ hash_bytes h; n = get_u32 (drop 40 newv)
           in Inr (overwrite newv 40 (put_u32 (n + 1))))"

fun readHashes :: "nat \<Rightarrow> bytes \<Rightarrow> hash list" where
  "readHashes 0 v = []"
| "readHashes (Suc n) v = get_hash v # readHashes n (drop 32 v)"

definition readRawBlockRecord :: "bytes \<Rightarrow> bytes \<Rightarrow> store_error + uint32 \<times> blockRecord" where
  "readRawBlockRecord k v =
     (if length k < 4 then Inl ErrData
      else if length v < 44 then Inl ErrData
      else let n = unat (get_u32 (drop 40 v)); expectedLen = 44 + 32 * n
           in if length v < expectedLen then Inl ErrData
              else Inr (get_u32 k,
                \<lparr>brHash = get_hash v, brTime = get_u64 (drop 32 v),
                 transactions = readHashes n (drop 44 v)\<rparr>))"

definition encBlockRecord :: "blockRecord \<Rightarrow> bytes" where
  "encBlockRecord br =
     hash_bytes (brHash br) @ put_u64 (brTime br) @
     put_u32 (of_nat (length (transactions br))) @ concat (map hash_bytes (transactions br))"

definition fetchRawBlockTime :: "bytes \<Rightarrow> store_error + 64 word" where
  "fetchRawBlockTime v = (if length v < 44 then Inl ErrData else Inr (get_u64 (drop 32 v)))"

lemma length_concat_hashes [simp, codec_simps]: "length (concat (map hash_bytes hs)) = 32 * length hs"
  by (induction hs) auto

lemma readHashes_concat [simp, codec_simps]:
  "readHashes (length hs) (concat (map hash_bytes hs) @ r) = hs"
  by (induction hs) (simp_all add: append_assoc)

lemma drop_block_prefix [simp]:
  "drop 32 (hash_bytes h @ put_u64 t @ r) = put_u64 t @ r"
  "drop 40 (hash_bytes h @ put_u64 t @ r) = r"
  "drop 44 (hash_bytes h @ put_u64 t @ put_u32 n @ r) = r"
  by simp_all

lemma valueBlockRecord_enc:
  "valueBlockRecord bm h =
   encBlockRecord \<lparr>brHash = bHash (block bm), brTime = btime bm, transactions = [h]\<rparr>"
  by (simp add: valueBlockRecord_def encBlockRecord_def)

lemma readRawBlockRecord_enc:
  assumes "length (transactions br) < 2 ^ 32"
  shows "readRawBlockRecord (keyBlockRecord ht) (encBlockRecord br @ r) = Inr (ht, br)"
proof -
  have n: "unat (of_nat (length (transactions br)) :: uint32) = length (transactions br)"
    using assms by (simp add: unat_of_nat)
  show ?thesis
    by (simp add: readRawBlockRecord_def encBlockRecord_def keyBlockRecord_def n Let_def)
qed

lemma appendRawBlockRecord_enc:
  "appendRawBlockRecord (encBlockRecord br) h =
   Inr (encBlockRecord (br\<lparr>transactions := transactions br @ [h]\<rparr>))"
  by (simp add: appendRawBlockRecord_def encBlockRecord_def overwrite_def Let_def add.commute)

lemma fetchRawBlockTime_enc: "fetchRawBlockTime (encBlockRecord br) = Inr (brTime br)"
  by (simp add: fetchRawBlockTime_def encBlockRecord_def)

section \<open>Transaction records\<close>

definition keyTxRecord :: "hash \<Rightarrow> Block \<Rightarrow> bytes" where
  "keyTxRecord h b = hash_bytes h @ put_u32 (bHeight b) @ hash_bytes (bHash b)"

definition readRawTxRecordBlock :: "bytes \<Rightarrow> store_error + Block" where
  "readRawTxRecordBlock k =
     (if length k < 68 then Inl ErrData
      else Inr (Block (get_u32 (drop 32 k)) (get_hash (drop 36 k))))"

definition encTxKey :: "TxKey \<Rightarrow> bytes" where
  "encTxKey k = keyTxRecord (fst k) (snd k)"

definition readTxKey :: "bytes \<Rightarrow> store_error + TxKey" where
  "readTxKey k = (case readRawTxRecordBlock k of Inl e \<Rightarrow> Inl e | Inr b \<Rightarrow> Inr (get_hash k, b))"

lemma drop_key_prefix [simp, codec_simps]:
  "drop 36 (hash_bytes h @ put_u32 n @ r) = r"
  "drop 68 (hash_bytes h @ put_u32 n @ hash_bytes g @ r) = r"
  "take 68 (hash_bytes h @ put_u32 n @ hash_bytes g @ r) = hash_bytes h @ put_u32 n @ hash_bytes g"
  "take 36 (hash_bytes h @ put_u32 n @ r) = hash_bytes h @ put_u32 n"
  by simp_all

interpretation txrec_key: key_codec encTxKey readTxKey 68
  by unfold_locales
    (auto simp: encTxKey_def readTxKey_def keyTxRecord_def readRawTxRecordBlock_def lex_append
      put_u32_less hash_bytes_less less_Block_def less_prod_def Block.expand)

text \<open>Serialising a transaction is \<^verbatim>\<open>wire.MsgTx.Serialize\<close> and \<open>Deserialize\<close>: the parameters
  \<open>ser\<close> and \<open>deser\<close> (\<open>None\<close> when the bytes are no transaction).\<close>

definition valueTxRecord :: "(MsgTx \<Rightarrow> bytes) \<Rightarrow> TxRecord \<Rightarrow> bytes" where
  "valueTxRecord ser rec = put_u64 (received rec) @ ser (msgTx rec)"

definition readRawTxRecord ::
  "(bytes \<Rightarrow> MsgTx option) \<Rightarrow> hash \<Rightarrow> bytes \<Rightarrow> store_error + TxRecord" where
  "readRawTxRecord deser h v =
     (if length v < 8 then Inl ErrData
      else case deser (drop 8 v) of
             None \<Rightarrow> Inl ErrData
           | Some tx \<Rightarrow> Inr \<lparr>msgTx = tx, txHash = h, received = get_u64 v\<rparr>)"

definition fetchRawTxRecordPkScript ::
  "(bytes \<Rightarrow> MsgTx option) \<Rightarrow> bytes \<Rightarrow> bytes \<Rightarrow> uint32 \<Rightarrow> store_error + script" where
  "fetchRawTxRecordPkScript deser k v index =
     (case readRawTxRecord deser (get_hash k) v of
        Inl e \<Rightarrow> Inl e
      | Inr rec \<Rightarrow>
          if unat index \<ge> length (TxOut (msgTx rec)) then Inl ErrData
          else Inr (PkScript (TxOut (msgTx rec) ! unat index)))"

lemma readRawTxRecord_value:
  assumes "deser (ser (msgTx rec)) = Some (msgTx rec)"
  shows "readRawTxRecord deser (txHash rec) (valueTxRecord ser rec) = Inr rec"
  using assms by (simp add: readRawTxRecord_def valueTxRecord_def)

section \<open>Credits\<close>

definition keyCredit :: "hash \<Rightarrow> uint32 \<Rightarrow> Block \<Rightarrow> bytes" where
  "keyCredit h index b =
     hash_bytes h @ put_u32 (bHeight b) @ hash_bytes (bHash b) @ put_u32 index"

definition encCredKey :: "CredKey \<Rightarrow> bytes" where
  "encCredKey k = keyCredit (fst k) (snd (snd k)) (fst (snd k))"

definition extractRawCreditTxRecordKey :: "bytes \<Rightarrow> bytes" where
  "extractRawCreditTxRecordKey k = take 68 k"

definition extractRawCreditIndex :: "bytes \<Rightarrow> uint32" where
  "extractRawCreditIndex k = get_u32 (drop 68 k)"

definition readCredKey :: "bytes \<Rightarrow> store_error + CredKey" where
  "readCredKey k =
     (if length k < 72 then Inl ErrData
      else case readTxKey (extractRawCreditTxRecordKey k) of
             Inl e \<Rightarrow> Inl e
           | Inr (h, b) \<Rightarrow> Inr (h, b, extractRawCreditIndex k))"

lemma length_keyCredit [simp, codec_simps]: "length (keyCredit h i b) = 72"
  by (simp add: keyCredit_def)

lemma readCredKey_enc: "readCredKey (encCredKey k @ r) = Inr k"
  by (cases k)
    (simp add: readCredKey_def readTxKey_def readRawTxRecordBlock_def encCredKey_def keyCredit_def
      extractRawCreditTxRecordKey_def extractRawCreditIndex_def)

interpretation cred_key: key_codec encCredKey readCredKey 72
proof
  fix k k' :: CredKey and r bs :: bytes
  show "length (encCredKey k) = 72" by (simp add: encCredKey_def)
  show "length bs < 72 \<Longrightarrow> readCredKey bs = Inl ErrData" by (simp add: readCredKey_def)
  show "readCredKey (encCredKey k @ r) = Inr k" by (rule readCredKey_enc)
  show "encCredKey k < encCredKey k' \<longleftrightarrow> k < k'"
    by (cases k; cases k')
      (auto simp: encCredKey_def keyCredit_def lex_append put_u32_less hash_bytes_less
        less_Block_def less_eq_Block_def less_prod_def Block.expand)
qed

definition creditFlags :: "bool \<Rightarrow> bool \<Rightarrow> byte" where
  "creditFlags spent change = (if spent then 1 else 0) OR (if change then 2 else 0)"

definition valueUnspentCredit :: "amount \<Rightarrow> bool \<Rightarrow> bytes" where
  "valueUnspentCredit amt change =
     (let v = put_u64 amt @ [0] in if change then v[8 := v ! 8 OR 2] else v)"

text \<open>The encoded form of a credit in the typed store.\<close>

definition encCredit :: "Credit \<Rightarrow> bytes" where
  "encCredit c =
     put_u64 (credAmount c) @ [creditFlags (credSpentBy c \<noteq> None) (credChange c)] @
     (case credSpentBy c of None \<Rightarrow> [] | Some dk \<Rightarrow> encCredKey dk)"

definition fetchRawCreditAmount :: "bytes \<Rightarrow> store_error + amount" where
  "fetchRawCreditAmount v = (if length v < 9 then Inl ErrData else Inr (get_u64 v))"

definition fetchRawCreditAmountSpent :: "bytes \<Rightarrow> store_error + amount \<times> bool" where
  "fetchRawCreditAmountSpent v =
     (if length v < 9 then Inl ErrData else Inr (get_u64 v, v ! 8 AND 1 \<noteq> 0))"

definition fetchRawCreditAmountChange :: "bytes \<Rightarrow> store_error + amount \<times> bool" where
  "fetchRawCreditAmountChange v =
     (if length v < 9 then Inl ErrData else Inr (get_u64 v, v ! 8 AND 2 \<noteq> 0))"

definition fetchRawCreditUnspentValue :: "bytes \<Rightarrow> store_error + bytes" where
  "fetchRawCreditUnspentValue k =
     (if length k < 72 then Inl ErrData else Inr (take 36 (drop 32 k)))"

text \<open>\<open>copy(newv, v)\<close> into a fresh slice of \<open>n\<close> zero bytes.\<close>

definition copyInto :: "nat \<Rightarrow> bytes \<Rightarrow> bytes" where
  "copyInto n v = take n v @ replicate (n - length v) 0"

text \<open>The new value \<open>spendCredit\<close> writes; \<open>v\<close> is empty when the credit does not exist.\<close>

definition spendCreditValue :: "bytes \<Rightarrow> CredKey \<Rightarrow> bytes" where
  "spendCreditValue v spender =
     (let newv = copyInto 81 v; newv = newv[8 := newv ! 8 OR 1]
      in overwrite newv 9 (encCredKey spender))"

definition unspendCreditValue :: "bytes \<Rightarrow> bytes" where
  "unspendCreditValue v = (let newv = copyInto 9 v in newv[8 := newv ! 8 AND NOT 1])"

text \<open>\<open>creditIterator.readElem\<close>: index, amount, spent and change of the current pair.\<close>

definition readCreditElem :: "bytes \<Rightarrow> bytes \<Rightarrow> store_error + uint32 \<times> amount \<times> bool \<times> bool" where
  "readCreditElem ck cv =
     (if length ck < 72 then Inl ErrData
      else if length cv < 9 then Inl ErrData
      else Inr (get_u32 (drop 68 ck), get_u64 cv, cv ! 8 AND 1 \<noteq> 0, cv ! 8 AND 2 \<noteq> 0))"

lemma creditFlags_bits [simp]:
  "(creditFlags s c AND 1 \<noteq> 0) = s" "(creditFlags s c AND 2 \<noteq> 0) = c"
  "creditFlags s c OR 1 = creditFlags True c" "creditFlags s c AND - 2 = creditFlags False c"
  by (cases s; cases c; simp add: creditFlags_def)+

lemma encCredit_parts [simp, codec_simps]:
  "length (encCredit c) \<ge> 9" "get_u64 (encCredit c) = credAmount c"
  "encCredit c ! 8 = creditFlags (credSpentBy c \<noteq> None) (credChange c)"
  by (simp_all add: encCredit_def nth_append)

lemma length_encCredit: "length (encCredit c) = (if credSpentBy c = None then 9 else 81)"
  by (auto simp: encCredit_def encCredKey_def)

lemma fetch_encCredit [codec_simps]:
  "fetchRawCreditAmount (encCredit c) = Inr (credAmount c)"
  "fetchRawCreditAmountSpent (encCredit c) = Inr (credAmount c, credSpentBy c \<noteq> None)"
  "fetchRawCreditAmountChange (encCredit c) = Inr (credAmount c, credChange c)"
  using encCredit_parts(1) [of c]
  by (simp_all add: fetchRawCreditAmount_def fetchRawCreditAmountSpent_def
      fetchRawCreditAmountChange_def del: encCredit_parts(1))

lemma readCreditElem_enc:
  "readCreditElem (encCredKey (h, b, i)) (encCredit c) =
   Inr (i, credAmount c, credSpentBy c \<noteq> None, credChange c)"
  using encCredit_parts(1) [of c]
  by (simp add: readCreditElem_def encCredKey_def keyCredit_def del: encCredit_parts(1))

lemma valueUnspentCredit_enc:
  "valueUnspentCredit amt change =
   encCredit \<lparr>credAmount = amt, credChange = change, credSpentBy = None\<rparr>"
  by (simp add: valueUnspentCredit_def encCredit_def creditFlags_def Let_def nth_append
      list_update_append)

lemma spendCreditValue_enc:
  "spendCreditValue (encCredit c) spender = encCredit (c\<lparr>credSpentBy := Some spender\<rparr>)"
proof -
  obtain h b i where s: "spender = (h, b, i)" by (cases spender)
  have l: "length (encCredKey dk) = 72" for dk by (simp add: encCredKey_def)
  show ?thesis
    by (cases "credSpentBy c")
      (simp_all add: spendCreditValue_def encCredit_def copyInto_def overwrite_def Let_def l
        nth_append list_update_append)
qed

lemma spendCreditValue_missing:
  "spendCreditValue [] spender =
   encCredit \<lparr>credAmount = 0, credChange = False, credSpentBy = Some spender\<rparr>"
proof -
  have "be_enc n 0 = replicate n 0" for n
    by (induction n) (simp_all add: replicate_append_same)
  then have z: "replicate 8 0 = put_u64 0" by (simp add: put_u64_def)
  have l: "length (encCredKey dk) = 72" for dk by (simp add: encCredKey_def)
  have "copyInto 81 [] = replicate (8 + (1 + 72)) 0" by (simp add: copyInto_def)
  also have "\<dots> = put_u64 0 @ [0] @ replicate 72 0"
    unfolding replicate_add z by simp
  finally show ?thesis
    by (simp add: spendCreditValue_def encCredit_def overwrite_def Let_def l
        nth_append list_update_append creditFlags_def)
qed

lemma unspendCreditValue_enc:
  "unspendCreditValue (encCredit c) = encCredit (c\<lparr>credSpentBy := None\<rparr>)"
  by (cases "credSpentBy c")
    (simp_all add: unspendCreditValue_def encCredit_def copyInto_def Let_def nth_append
      list_update_append)

section \<open>The unspent index\<close>

definition valueUnspent :: "Block \<Rightarrow> bytes" where
  "valueUnspent b = put_u32 (bHeight b) @ hash_bytes (bHash b)"

definition readUnspentBlock :: "bytes \<Rightarrow> store_error + Block" where
  "readUnspentBlock v =
     (if length v < 36 then Inl ErrData
      else Inr (Block (get_u32 v) (get_hash (drop 4 v))))"

text \<open>\<open>existsRawUnspent\<close> splices the outpoint key and the unspent value into a credit key;
  \<open>v\<close> is the bucket's answer.\<close>

definition rawUnspentCredKey :: "bytes \<Rightarrow> bytes option \<Rightarrow> bytes option" where
  "rawUnspentCredKey k v =
     (if length k < 36 then None
      else case v of
             None \<Rightarrow> None
           | Some v \<Rightarrow>
               if length v < 36 then None
               else Some (take 32 k @ take 36 v @ take 4 (drop 32 k)))"

lemma readUnspentBlock_value: "readUnspentBlock (valueUnspent b) = Inr b"
  by (simp add: readUnspentBlock_def valueUnspent_def)

lemma rawUnspentCredKey_value:
  "rawUnspentCredKey (canonicalOutPoint h i) (Some (valueUnspent b)) = Some (encCredKey (h, b, i))"
  by (simp add: rawUnspentCredKey_def canonicalOutPoint_def valueUnspent_def encCredKey_def
      keyCredit_def)

lemma fetchRawCreditUnspentValue_enc:
  "fetchRawCreditUnspentValue (encCredKey (h, b, i)) = Inr (valueUnspent b)"
  by (simp add: fetchRawCreditUnspentValue_def encCredKey_def keyCredit_def valueUnspent_def)

section \<open>Debits\<close>

definition keyDebit :: "hash \<Rightarrow> uint32 \<Rightarrow> Block \<Rightarrow> bytes" where
  "keyDebit h index b =
     hash_bytes h @ put_u32 (bHeight b) @ hash_bytes (bHash b) @ put_u32 index"

definition valueDebit :: "amount \<Rightarrow> bytes \<Rightarrow> bytes" where
  "valueDebit amt credKey = overwrite (copyInto 80 (put_u64 amt)) 8 (take 72 credKey)"

definition extractRawDebitCreditKey :: "bytes \<Rightarrow> bytes" where
  "extractRawDebitCreditKey v = take 72 (drop 8 v)"

text \<open>\<open>existsDebit\<close>, given the bucket's answer for the debit key.\<close>

definition rawDebitCredKey :: "bytes option \<Rightarrow> store_error + bytes option" where
  "rawDebitCredKey v =
     (case v of
        None \<Rightarrow> Inr None
      | Some v \<Rightarrow> if length v < 80 then Inl ErrData else Inr (Some (take 72 (drop 8 v))))"

definition readDebitElem :: "bytes \<Rightarrow> bytes \<Rightarrow> store_error + uint32 \<times> amount" where
  "readDebitElem ck cv =
     (if length ck < 72 then Inl ErrData
      else if length cv < 80 then Inl ErrData
      else Inr (get_u32 (drop 68 ck), get_u64 cv))"

definition encDebit :: "Debit \<Rightarrow> bytes" where
  "encDebit d = put_u64 (debAmount d) @ encCredKey (debCredKey d)"

lemma keyDebit_enc: "keyDebit h i b = encCredKey (h, b, i)"
  by (simp add: keyDebit_def encCredKey_def keyCredit_def)

lemma length_encCredKey [simp, codec_simps]: "length (encCredKey k) = 72"
  by (simp add: encCredKey_def)

lemma valueDebit_enc:
  "valueDebit amt (encCredKey ck) = encDebit \<lparr>debAmount = amt, debCredKey = ck\<rparr>"
  by (simp add: valueDebit_def encDebit_def copyInto_def overwrite_def)

lemma rawDebitCredKey_enc: "rawDebitCredKey (Some (encDebit d)) = Inr (Some (encCredKey (debCredKey d)))"
  by (simp add: rawDebitCredKey_def encDebit_def)

lemma readDebitElem_enc: "readDebitElem (keyDebit h i b) (encDebit d) = Inr (i, debAmount d)"
  by (simp add: readDebitElem_def encDebit_def keyDebit_def)

section \<open>Unmined credits and inputs\<close>

definition valueUnminedCredit :: "amount \<Rightarrow> bool \<Rightarrow> bytes" where
  "valueUnminedCredit amt change =
     (let v = put_u64 amt @ [0] in if change then v[8 := 2] else v)"

definition fetchRawUnminedCreditIndex :: "bytes \<Rightarrow> store_error + uint32" where
  "fetchRawUnminedCreditIndex k =
     (if length k < 36 then Inl ErrData else Inr (get_u32 (drop 32 k)))"

definition fetchRawUnminedCreditAmount :: "bytes \<Rightarrow> store_error + amount" where
  "fetchRawUnminedCreditAmount v = (if length v < 9 then Inl ErrData else Inr (get_u64 v))"

definition fetchRawUnminedCreditAmountChange :: "bytes \<Rightarrow> store_error + amount \<times> bool" where
  "fetchRawUnminedCreditAmountChange v =
     (if length v < 9 then Inl ErrData else Inr (get_u64 v, v ! 8 AND 2 \<noteq> 0))"

lemma fetchRawUnminedCredit_value [codec_simps]:
  "fetchRawUnminedCreditIndex (canonicalOutPoint h i) = Inr i"
  "fetchRawUnminedCreditAmount (valueUnminedCredit amt change) = Inr amt"
  "fetchRawUnminedCreditAmountChange (valueUnminedCredit amt change) = Inr (amt, change)"
  by (simp_all add: fetchRawUnminedCreditIndex_def canonicalOutPoint_def
      fetchRawUnminedCreditAmount_def fetchRawUnminedCreditAmountChange_def valueUnminedCredit_def
      Let_def list_update_append nth_append)

text \<open>The spenders of an outpoint are kept as concatenated hashes.  The reading loop slices
  32 bytes at a time and panics on a shorter rest.\<close>

function fetchSpendTxHashes :: "bytes \<Rightarrow> store_error + hash list" where
  "fetchSpendTxHashes raw =
     (if raw = [] then Inr []
      else if length raw < 32 then Inl Panic
      else case fetchSpendTxHashes (drop 32 raw) of
             Inl e \<Rightarrow> Inl e
           | Inr hs \<Rightarrow> Inr (get_hash raw # hs))"
  by pat_completeness auto
termination
  by (relation "measure length") auto

declare fetchSpendTxHashes.simps [simp del]

fun filterSpendHashes :: "nat \<Rightarrow> bytes \<Rightarrow> hash \<Rightarrow> bytes" where
  "filterSpendHashes 0 v target = []"
| "filterSpendHashes (Suc n) v target =
     (if hash_bytes target \<noteq> take 32 v then take 32 v else []) @
     filterSpendHashes n (drop 32 v) target"

text \<open>\<open>deleteRawUnminedInput\<close> on the stored bytes: what is left of the record, \<open>None\<close> when it
  is removed.\<close>

definition deleteSpendHash :: "bytes \<Rightarrow> hash \<Rightarrow> bytes option" where
  "deleteSpendHash v target =
     (let new = filterSpendHashes (length v div 32) v target
      in if new = [] then None else Some new)"

definition encHashes :: "hash list \<Rightarrow> bytes" where
  "encHashes hs = concat (map hash_bytes hs)"

lemma length_encHashes [simp, codec_simps]: "length (encHashes hs) = 32 * length hs"
  by (simp add: encHashes_def)

lemma fetchSpendTxHashes_enc: "fetchSpendTxHashes (encHashes hs) = Inr hs"
proof (induction hs)
  case (Cons h hs)
  have "hash_bytes h \<noteq> []" using length_puts(4) [of h] by fastforce
  with Cons show ?case
    by (subst fetchSpendTxHashes.simps) (simp add: encHashes_def)
qed (simp add: encHashes_def fetchSpendTxHashes.simps)

lemma appendSpendHash_enc: "encHashes hs @ hash_bytes h = encHashes (hs @ [h])"
  by (simp add: encHashes_def)

lemma filterSpendHashes_enc:
  "filterSpendHashes (length hs) (encHashes hs) target = encHashes (filter (\<lambda>h. h \<noteq> target) hs)"
  by (induction hs) (simp_all add: encHashes_def)

lemma deleteSpendHash_enc:
  "deleteSpendHash (encHashes hs) target =
   (let hs' = filter (\<lambda>h. h \<noteq> target) hs in if hs' = [] then None else Some (encHashes hs'))"
proof -
  have "encHashes xs = [] \<longleftrightarrow> xs = []" for xs
    using length_encHashes [of xs] by (metis length_0_conv mult_is_0 zero_neq_numeral)
  then show ?thesis
    by (simp add: deleteSpendHash_def filterSpendHashes_enc)
qed

section \<open>Locked outputs, labels, balance and version\<close>

definition serializeLockedOutput :: "LockID \<Rightarrow> 64 word \<Rightarrow> bytes" where
  "serializeLockedOutput lid expiry = hash_bytes lid @ put_u64 expiry"

definition deserializeLockedOutput :: "bytes \<Rightarrow> LockVal" where
  "deserializeLockedOutput v = \<lparr>lockID = get_hash v, lockExpiry = get_u64 (drop 32 v)\<rparr>"

lemma deserializeLockedOutput_ser:
  "deserializeLockedOutput (serializeLockedOutput lid e) = \<lparr>lockID = lid, lockExpiry = e\<rparr>"
  by (simp add: deserializeLockedOutput_def serializeLockedOutput_def)

text \<open>A label is written as its 16-bit length and its bytes.\<close>

definition serializeLabel :: "bytes \<Rightarrow> bytes" where
  "serializeLabel label = put_u16 (of_nat (length label)) @ label"

definition DeserializeLabel :: "bytes \<Rightarrow> store_error + bytes" where
  "DeserializeLabel v =
     (if length v < 2 then Inl Panic
      else if get_u16 v = 0 then Inl ErrEmptyLabel else Inr (drop 2 v))"

lemma DeserializeLabel_ser:
  assumes "label \<noteq> []" "length label < 2 ^ 16"
  shows "DeserializeLabel (serializeLabel label) = Inr label"
proof -
  have "(of_nat (length label) :: 16 word) \<noteq> 0"
    using assms by (simp add: word_of_nat_eq_0_iff nat_dvd_not_less)
  then show ?thesis by (simp add: DeserializeLabel_def serializeLabel_def)
qed

definition fetchRawMinedBalance :: "bytes \<Rightarrow> store_error + amount" where
  "fetchRawMinedBalance v = (if length v \<noteq> 8 then Inl ErrData else Inr (get_u64 v))"

definition fetchRawVersion :: "bytes \<Rightarrow> store_error + uint32" where
  "fetchRawVersion v = (if length v \<noteq> 4 then Inl ErrNoExists else Inr (get_u32 v))"

lemma fetchRaw_root [codec_simps]:
  "fetchRawMinedBalance (put_u64 amt) = Inr amt" "fetchRawVersion (put_u32 n) = Inr n"
  by (simp_all add: fetchRawMinedBalance_def fetchRawVersion_def)

end
