(* ===== verification/Wtx_Db.thy ===== *)
theory Wtx_Db
  imports Wtx_Types Wtx_Codec
begin

text \<open>
  The namespace of the transaction store (\<^verbatim>\<open>wtxmgr/db.go\<close>) with its buckets indexed by typed
  keys, the put/exists/fetch/delete helpers over it, and the read-only queries of
  \<^verbatim>\<open>wtxmgr/query.go\<close>.  A helper that the code runs on raw bytes reads and writes the typed
  values here; \<open>Wtx_Codec\<close> shows that the two agree on encoded values.
\<close>

section \<open>The namespace\<close>

record ns =
  blocks :: "(uint32, blockRecord) bucket"
  txRecords :: "(TxKey, TxVal) bucket"
  txLabels :: "(hash, bytes) bucket option"
  credits :: "(CredKey, Credit) bucket"
  unspent :: "(OutPoint, Block) bucket"
  debits :: "(CredKey, Debit) bucket"
  unmined :: "(hash, TxVal) bucket"
  unminedCredits :: "(OutPoint, UnminedCredit) bucket"
  unminedInputs :: "(OutPoint, hash list) bucket"
  lockedOutputs :: "(OutPoint, LockVal) bucket option"
  minedBalance :: amount

text \<open>\<open>createStore\<close>: empty buckets and a zero balance.  (The version and creation date it also
  writes are not read by the operations below.)\<close>

definition createStore :: ns where
  "createStore =
     \<lparr>blocks = bempty, txRecords = bempty, txLabels = None, credits = bempty, unspent = bempty,
      debits = bempty, unmined = bempty, unminedCredits = bempty, unminedInputs = bempty,
      lockedOutputs = Some bempty, minedBalance = 0\<rparr>"

section \<open>Block and transaction records\<close>

definition putBlockRecord :: "ns \<Rightarrow> BlockMeta \<Rightarrow> hash \<Rightarrow> ns" where
  "putBlockRecord s bm h =
     s\<lparr>blocks := Put (blocks s) (bHeight (block bm))
        \<lparr>brHash = bHash (block bm), brTime = btime bm, transactions = [h]\<rparr>\<rparr>"

definition appendBlockRecord :: "ns \<Rightarrow> uint32 \<Rightarrow> blockRecord \<Rightarrow> hash \<Rightarrow> ns" where
  "appendBlockRecord s ht br h =
     s\<lparr>blocks := Put (blocks s) ht (br\<lparr>transactions := transactions br @ [h]\<rparr>)\<rparr>"

definition fetchBlockTime :: "ns \<Rightarrow> uint32 \<Rightarrow> store_error + 64 word" where
  "fetchBlockTime s ht =
     (case Get (blocks s) ht of None \<Rightarrow> Inl ErrData | Some br \<Rightarrow> Inr (brTime br))"

definition deleteBlockRecord :: "ns \<Rightarrow> uint32 \<Rightarrow> ns" where
  "deleteBlockRecord s ht = s\<lparr>blocks := Delete (blocks s) ht\<rparr>"

definition putTxRecord :: "ns \<Rightarrow> TxRecord \<Rightarrow> Block \<Rightarrow> ns" where
  "putTxRecord s rec b =
     s\<lparr>txRecords := Put (txRecords s) (txHash rec, b)
        \<lparr>tvReceived = received rec, tvTx = msgTx rec\<rparr>\<rparr>"

definition fetchTxRecord :: "ns \<Rightarrow> hash \<Rightarrow> Block \<Rightarrow> store_error + TxRecord" where
  "fetchTxRecord s h b =
     (case Get (txRecords s) (h, b) of
        None \<Rightarrow> Inl ErrData
      | Some v \<Rightarrow> Inr \<lparr>msgTx = tvTx v, txHash = h, received = tvReceived v\<rparr>)"

definition deleteTxRecord :: "ns \<Rightarrow> hash \<Rightarrow> Block \<Rightarrow> ns" where
  "deleteTxRecord s h b = s\<lparr>txRecords := Delete (txRecords s) (h, b)\<rparr>"

text \<open>\<open>latestTxRecord\<close> seeks to the hash and keeps the last pair with that prefix.\<close>

definition latestTxRecord :: "ns \<Rightarrow> hash \<Rightarrow> (TxKey \<times> TxVal) option" where
  "latestTxRecord s h =
     (let recs = scan (txRecords s) (h, Block 0 0) (\<lambda>k. fst k = h)
      in if recs = [] then None else Some (last recs))"

section \<open>Credits, the unspent index and debits\<close>

definition putUnspentCredit :: "ns \<Rightarrow> CredKey \<Rightarrow> amount \<Rightarrow> bool \<Rightarrow> ns" where
  "putUnspentCredit s ck amt change =
     s\<lparr>credits := Put (credits s) ck
        \<lparr>credAmount = amt, credChange = change, credSpentBy = None\<rparr>\<rparr>"

text \<open>\<open>spendCredit\<close> marks a credit spent and returns its amount; a missing credit is copied
  from an empty slice, so it is written as a zero-valued spent credit.\<close>

definition spendCredit :: "ns \<Rightarrow> CredKey \<Rightarrow> CredKey \<Rightarrow> amount \<times> ns" where
  "spendCredit s ck spender =
     (let c = (case Get (credits s) ck of
                 None \<Rightarrow> \<lparr>credAmount = 0, credChange = False, credSpentBy = None\<rparr>
               | Some c \<Rightarrow> c)
      in (credAmount c, s\<lparr>credits := Put (credits s) ck (c\<lparr>credSpentBy := Some spender\<rparr>)\<rparr>))"

definition unspendRawCredit :: "ns \<Rightarrow> CredKey \<Rightarrow> amount \<times> ns" where
  "unspendRawCredit s ck =
     (case Get (credits s) ck of
        None \<Rightarrow> (0, s)
      | Some c \<Rightarrow>
          (credAmount c, s\<lparr>credits := Put (credits s) ck (c\<lparr>credSpentBy := None\<rparr>)\<rparr>))"

definition deleteRawCredit :: "ns \<Rightarrow> CredKey \<Rightarrow> ns" where
  "deleteRawCredit s ck = s\<lparr>credits := Delete (credits s) ck\<rparr>"

definition putUnspent :: "ns \<Rightarrow> OutPoint \<Rightarrow> Block \<Rightarrow> ns" where
  "putUnspent s op b = s\<lparr>unspent := Put (unspent s) op b\<rparr>"

definition existsUnspent :: "ns \<Rightarrow> OutPoint \<Rightarrow> CredKey option" where
  "existsUnspent s op = map_option (\<lambda>b. (opHash op, b, opIndex op)) (Get (unspent s) op)"

definition deleteRawUnspent :: "ns \<Rightarrow> OutPoint \<Rightarrow> ns" where
  "deleteRawUnspent s op = s\<lparr>unspent := Delete (unspent s) op\<rparr>"

definition putDebit :: "ns \<Rightarrow> CredKey \<Rightarrow> amount \<Rightarrow> CredKey \<Rightarrow> ns" where
  "putDebit s dk amt ck = s\<lparr>debits := Put (debits s) dk \<lparr>debAmount = amt, debCredKey = ck\<rparr>\<rparr>"

definition deleteRawDebit :: "ns \<Rightarrow> CredKey \<Rightarrow> ns" where
  "deleteRawDebit s dk = s\<lparr>debits := Delete (debits s) dk\<rparr>"

section \<open>The unmined buckets\<close>

definition putRawUnmined :: "ns \<Rightarrow> hash \<Rightarrow> TxVal \<Rightarrow> ns" where
  "putRawUnmined s h v = s\<lparr>unmined := Put (unmined s) h v\<rparr>"

definition deleteRawUnmined :: "ns \<Rightarrow> hash \<Rightarrow> ns" where
  "deleteRawUnmined s h = s\<lparr>unmined := Delete (unmined s) h\<rparr>"

definition putRawUnminedCredit :: "ns \<Rightarrow> OutPoint \<Rightarrow> amount \<Rightarrow> bool \<Rightarrow> ns" where
  "putRawUnminedCredit s op amt change =
     s\<lparr>unminedCredits := Put (unminedCredits s) op \<lparr>ucAmount = amt, ucChange = change\<rparr>\<rparr>"

definition deleteRawUnminedCredit :: "ns \<Rightarrow> OutPoint \<Rightarrow> ns" where
  "deleteRawUnminedCredit s op = s\<lparr>unminedCredits := Delete (unminedCredits s) op\<rparr>"

text \<open>The \<open>unminedCreditIterator\<close>: all credits of one unmined transaction, in index order.\<close>

definition unminedCreditsOf :: "ns \<Rightarrow> hash \<Rightarrow> (OutPoint \<times> UnminedCredit) list" where
  "unminedCreditsOf s h = scan (unminedCredits s) (OutPoint h 0) (\<lambda>op. opHash op = h)"

definition fetchUnminedInputSpendTxHashes :: "ns \<Rightarrow> OutPoint \<Rightarrow> hash list" where
  "fetchUnminedInputSpendTxHashes s op =
     (case Get (unminedInputs s) op of None \<Rightarrow> [] | Some hs \<Rightarrow> hs)"

definition putRawUnminedInput :: "ns \<Rightarrow> OutPoint \<Rightarrow> hash \<Rightarrow> ns" where
  "putRawUnminedInput s op h =
     s\<lparr>unminedInputs := Put (unminedInputs s) op (fetchUnminedInputSpendTxHashes s op @ [h])\<rparr>"

definition deleteRawUnminedInput :: "ns \<Rightarrow> OutPoint \<Rightarrow> hash \<Rightarrow> ns" where
  "deleteRawUnminedInput s op target =
     (case Get (unminedInputs s) op of
        None \<Rightarrow> s
      | Some hs \<Rightarrow>
          if hs = [] then s
          else let new = filter (\<lambda>h. h \<noteq> target) hs
               in if new = [] then s\<lparr>unminedInputs := Delete (unminedInputs s) op\<rparr>
                  else s\<lparr>unminedInputs := Put (unminedInputs s) op new\<rparr>)"

section \<open>Labels\<close>

definition FetchTxLabel :: "ns \<Rightarrow> hash \<Rightarrow> store_error + bytes" where
  "FetchTxLabel s h =
     (case txLabels s of
        None \<Rightarrow> Inl ErrNoLabelBucket
      | Some b \<Rightarrow> (case Get b h of None \<Rightarrow> Inl ErrTxLabelNotFound | Some v \<Rightarrow> DeserializeLabel v))"

definition TxLabel :: "ns \<Rightarrow> hash \<Rightarrow> store_error + bytes" where
  "TxLabel s h =
     (case FetchTxLabel s h of
        Inl ErrNoLabelBucket \<Rightarrow> Inr []
      | Inl ErrTxLabelNotFound \<Rightarrow> Inr []
      | Inr label \<Rightarrow> Inr label
      | Inl e \<Rightarrow> Inl e)"

definition TxLabelLimit :: nat where "TxLabelLimit = 500"

definition PutTxLabel :: "ns \<Rightarrow> hash \<Rightarrow> bytes \<Rightarrow> store_error + ns" where
  "PutTxLabel s h label =
     (if length label = 0 then Inl ErrEmptyLabel
      else if length label > TxLabelLimit then Inl ErrLabelTooLong
      else let b = (case txLabels s of None \<Rightarrow> bempty | Some b \<Rightarrow> b)
           in Inr (s\<lparr>txLabels := Some (Put b h (serializeLabel label))\<rparr>))"

section \<open>Transaction details (\<^verbatim>\<open>query.go\<close>)\<close>

record CreditRecord =
  crAmount :: amount
  crIndex :: uint32
  crSpent :: bool
  crChange :: bool

record DebitRecord =
  drAmount :: amount
  drIndex :: uint32

record TxDetails =
  tdRec :: TxRecord
  tdBlock :: "BlockMeta option"   \<comment> \<open>\<open>None\<close> is the unmined height \<open>-1\<close>\<close>
  tdCredits :: "CreditRecord list"
  tdDebits :: "DebitRecord list"
  tdLabel :: bytes

definition spentByUnmined :: "ns \<Rightarrow> OutPoint \<Rightarrow> bool" where
  "spentByUnmined s op \<longleftrightarrow> Get (unminedInputs s) op \<noteq> None"

definition minedCreditElem ::
  "ns \<Rightarrow> hash \<Rightarrow> MsgTx \<Rightarrow> CredKey \<times> Credit \<Rightarrow> store_error + CreditRecord option" where
  "minedCreditElem s h tx kc =
     (let i = snd (snd (fst kc)); c = snd kc
      in if unat i \<ge> length (TxOut tx) then Inl ErrData
         else Inr (Some
           \<lparr>crAmount = credAmount c, crIndex = i,
            crSpent = (credSpentBy c \<noteq> None \<or> spentByUnmined s (OutPoint h i)),
            crChange = credChange c\<rparr>))"

definition minedDebitElem ::
  "MsgTx \<Rightarrow> CredKey \<times> Debit \<Rightarrow> store_error + DebitRecord option" where
  "minedDebitElem tx kd =
     (let i = snd (snd (fst kd))
      in if unat i \<ge> length (TxIn tx) then Inl ErrData
         else Inr (Some \<lparr>drAmount = debAmount (snd kd), drIndex = i\<rparr>))"

definition minedTxDetails :: "ns \<Rightarrow> hash \<Rightarrow> TxKey \<Rightarrow> TxVal \<Rightarrow> store_error + TxDetails" where
  "minedTxDetails s h k v =
     (let b = snd k; sameTx = (\<lambda>ck. fst ck = h \<and> fst (snd ck) = b)
      in case fetchBlockTime s (bHeight b) of Inl e \<Rightarrow> Inl e | Inr t \<Rightarrow>
         (case collect_err (minedCreditElem s h (tvTx v)) (scan (credits s) (h, b, 0) sameTx)
            of Inl e \<Rightarrow> Inl e | Inr cs \<Rightarrow>
         (case collect_err (minedDebitElem (tvTx v)) (scan (debits s) (h, b, 0) sameTx)
            of Inl e \<Rightarrow> Inl e | Inr ds \<Rightarrow>
         (case TxLabel s h of Inl e \<Rightarrow> Inl e | Inr l \<Rightarrow>
            Inr \<lparr>tdRec = \<lparr>msgTx = tvTx v, txHash = h, received = tvReceived v\<rparr>,
                 tdBlock = Some \<lparr>block = b, btime = t\<rparr>,
                 tdCredits = cs, tdDebits = ds, tdLabel = l\<rparr>))))"

definition unminedCreditElem ::
  "ns \<Rightarrow> MsgTx \<Rightarrow> OutPoint \<times> UnminedCredit \<Rightarrow> store_error + CreditRecord option" where
  "unminedCreditElem s tx kc =
     (let i = opIndex (fst kc)
      in if unat i \<ge> length (TxOut tx) then Inl ErrData
         else Inr (Some
           \<lparr>crAmount = ucAmount (snd kc), crIndex = i, crSpent = spentByUnmined s (fst kc),
            crChange = ucChange (snd kc)\<rparr>))"

definition unminedDebitElem :: "ns \<Rightarrow> nat \<times> OutPoint \<Rightarrow> store_error + DebitRecord option" where
  "unminedDebitElem s iop =
     (case existsUnspent s (snd iop) of
        Some ck \<Rightarrow> (case Get (credits s) ck of
                      None \<Rightarrow> Inl ErrData
                    | Some c \<Rightarrow> Inr (Some \<lparr>drAmount = credAmount c, drIndex = of_nat (fst iop)\<rparr>))
      | None \<Rightarrow> (case Get (unminedCredits s) (snd iop) of
                   None \<Rightarrow> Inr None
                 | Some u \<Rightarrow> Inr (Some \<lparr>drAmount = ucAmount u, drIndex = of_nat (fst iop)\<rparr>)))"

definition unminedTxDetails :: "ns \<Rightarrow> hash \<Rightarrow> TxVal \<Rightarrow> store_error + TxDetails" where
  "unminedTxDetails s h v =
     (case collect_err (unminedCreditElem s (tvTx v)) (unminedCreditsOf s h)
        of Inl e \<Rightarrow> Inl e | Inr cs \<Rightarrow>
      (case collect_err (unminedDebitElem s) (enumerate 0 (TxIn (tvTx v)))
         of Inl e \<Rightarrow> Inl e | Inr ds \<Rightarrow>
      (case TxLabel s h of Inl e \<Rightarrow> Inl e | Inr l \<Rightarrow>
         Inr \<lparr>tdRec = \<lparr>msgTx = tvTx v, txHash = h, received = tvReceived v\<rparr>,
              tdBlock = None, tdCredits = cs, tdDebits = ds, tdLabel = l\<rparr>)))"

definition TxDetails :: "ns \<Rightarrow> hash \<Rightarrow> store_error + TxDetails option" where
  "TxDetails s h =
     (case Get (unmined s) h of
        Some v \<Rightarrow> map_sum id Some (unminedTxDetails s h v)
      | None \<Rightarrow>
          (case latestTxRecord s h of
             None \<Rightarrow> Inr None
           | Some (k, v) \<Rightarrow> map_sum id Some (minedTxDetails s h k v)))"

definition UniqueTxDetails :: "ns \<Rightarrow> hash \<Rightarrow> Block option \<Rightarrow> store_error + TxDetails option" where
  "UniqueTxDetails s h ob =
     (case ob of
        None \<Rightarrow> (case Get (unmined s) h of
                   None \<Rightarrow> Inr None
                 | Some v \<Rightarrow> map_sum id Some (unminedTxDetails s h v))
      | Some b \<Rightarrow> (case Get (txRecords s) (h, b) of
                     None \<Rightarrow> Inr None
                   | Some v \<Rightarrow> map_sum id Some (minedTxDetails s h (h, b) v)))"

end
