(* ===== verification/Wtx_Locks.thy ===== *)
theory Wtx_Locks
  imports Wtx_Db
begin

text \<open>
  Output leases: \<open>LockOutput\<close>, \<open>UnlockOutput\<close>, \<open>DeleteExpiredLockedOutputs\<close> and
  \<open>ListLockedOutputs\<close> of \<^verbatim>\<open>wtxmgr/tx.go\<close> over the locked-outputs bucket of \<^verbatim>\<open>wtxmgr/db.go\<close>.
  A \<^verbatim>\<open>time.Time\<close> is its nanoseconds since the epoch; a stored expiration keeps whole
  seconds only.  The clock is read where the code reads it, so two reads are two
  arguments.  The leases of one outpoint are a state machine (\<open>lease_step\<close>), and no
  caller other than the holder can end an unexpired lease.
\<close>

section \<open>Time\<close>

definition unixSec :: "int \<Rightarrow> int" where
  "unixSec t = t div 1000000000"

definition lockExpiryTime :: "LockVal \<Rightarrow> int" where
  "lockExpiryTime lv = sint (lockExpiry lv) * 1000000000"

lemma unixSec_bounds: "unixSec t * 1000000000 \<le> t" "t < unixSec t * 1000000000 + 1000000000"
proof -
  have "t = t div 1000000000 * 1000000000 + t mod 1000000000"
    "0 \<le> t mod 1000000000" "t mod 1000000000 < 1000000000" by simp_all
  then show "unixSec t * 1000000000 \<le> t" "t < unixSec t * 1000000000 + 1000000000"
    unfolding unixSec_def by linarith+
qed

section \<open>Operations\<close>

definition isLockedOutput :: "ns \<Rightarrow> OutPoint \<Rightarrow> int \<Rightarrow> (LockID \<times> int) option" where
  "isLockedOutput s op timeNow =
     (case lockedOutputs s of
        None \<Rightarrow> None
      | Some b \<Rightarrow>
          (case Get b op of
             None \<Rightarrow> None
           | Some lv \<Rightarrow>
               if \<not> timeNow < lockExpiryTime lv then None
               else Some (lockID lv, lockExpiryTime lv)))"

definition lockOutput :: "ns \<Rightarrow> LockID \<Rightarrow> OutPoint \<Rightarrow> int \<Rightarrow> ns" where
  "lockOutput s lid op expiry =
     (let b = (case lockedOutputs s of None \<Rightarrow> bempty | Some b \<Rightarrow> b)
      in s\<lparr>lockedOutputs := Some (Put b op
            \<lparr>lockID = lid, lockExpiry = word_of_int (unixSec expiry)\<rparr>)\<rparr>)"

definition unlockOutput :: "ns \<Rightarrow> OutPoint \<Rightarrow> ns" where
  "unlockOutput s op =
     (case lockedOutputs s of
        None \<Rightarrow> s
      | Some b \<Rightarrow> s\<lparr>lockedOutputs := Some (Delete b op)\<rparr>)"

definition forEachLockedOutput :: "ns \<Rightarrow> (OutPoint \<times> LockVal) list" where
  "forEachLockedOutput s = (case lockedOutputs s of None \<Rightarrow> [] | Some b \<Rightarrow> ForEach b)"

definition isKnownOutput :: "ns \<Rightarrow> OutPoint \<Rightarrow> bool" where
  "isKnownOutput s op \<longleftrightarrow>
     Get (unminedCredits s) op \<noteq> None \<or> existsUnspent s op \<noteq> None"

text \<open>\<open>now1\<close> and \<open>now2\<close> are the two reads of the clock, \<open>duration\<close> is in nanoseconds.\<close>

definition LockOutput ::
  "ns \<Rightarrow> int \<Rightarrow> int \<Rightarrow> LockID \<Rightarrow> OutPoint \<Rightarrow> int \<Rightarrow> store_error + int \<times> ns" where
  "LockOutput s now1 now2 lid op duration =
     (if \<not> isKnownOutput s op then Inl ErrUnknownOutput
      else if (case isLockedOutput s op now1 of None \<Rightarrow> False | Some (l, _) \<Rightarrow> l \<noteq> lid)
      then Inl ErrOutputAlreadyLocked
      else let expiry = now2 + duration in Inr (expiry, lockOutput s lid op expiry))"

definition UnlockOutput :: "ns \<Rightarrow> int \<Rightarrow> LockID \<Rightarrow> OutPoint \<Rightarrow> store_error + ns" where
  "UnlockOutput s now lid op =
     (if \<not> isKnownOutput s op then Inl ErrUnknownOutput
      else case isLockedOutput s op now of
             None \<Rightarrow> Inr s
           | Some (l, _) \<Rightarrow> if l \<noteq> lid then Inl ErrOutputUnlockNotAllowed else Inr (unlockOutput s op))"

text \<open>\<open>clk op\<close> is the time read when \<open>op\<close> is visited.\<close>

definition DeleteExpiredLockedOutputs :: "ns \<Rightarrow> (OutPoint \<Rightarrow> int) \<Rightarrow> ns" where
  "DeleteExpiredLockedOutputs s clk =
     (let expired = map fst (filter (\<lambda>(op, lv). \<not> clk op < lockExpiryTime lv) (forEachLockedOutput s))
      in fold (\<lambda>op s. unlockOutput s op) expired s)"

definition ListLockedOutputs :: "ns \<Rightarrow> (OutPoint \<Rightarrow> int) \<Rightarrow> (OutPoint \<times> LockID \<times> int) list" where
  "ListLockedOutputs s clk =
     map (\<lambda>(op, lv). (op, lockID lv, lockExpiryTime lv))
       (filter (\<lambda>(op, lv). clk op < lockExpiryTime lv) (forEachLockedOutput s))"

section \<open>What the operations leave behind\<close>

definition lockOf :: "ns \<Rightarrow> OutPoint \<Rightarrow> LockVal option" where
  "lockOf s op = (case lockedOutputs s of None \<Rightarrow> None | Some b \<Rightarrow> Get b op)"

lemma isLockedOutput_lockOf:
  "isLockedOutput s op t =
   (case lockOf s op of
      None \<Rightarrow> None
    | Some lv \<Rightarrow> if t < lockExpiryTime lv then Some (lockID lv, lockExpiryTime lv) else None)"
  by (auto simp: isLockedOutput_def lockOf_def split: option.splits)

lemma lockOf_lockOutput [simp]:
  "lockOf (lockOutput s lid op e) =
   (lockOf s)(op \<mapsto> \<lparr>lockID = lid, lockExpiry = word_of_int (unixSec e)\<rparr>)"
  by (auto simp: lockOf_def lockOutput_def Let_def fun_eq_iff split: option.splits)

lemma lockOf_unlockOutput [simp]: "lockOf (unlockOutput s op) = (lockOf s)(op := None)"
  by (auto simp: lockOf_def unlockOutput_def fun_eq_iff split: option.splits)

lemma lockOf_fold_unlock:
  "lockOf (fold (\<lambda>op s. unlockOutput s op) ops s) = (\<lambda>op. if op \<in> set ops then None else lockOf s op)"
  by (induction ops arbitrary: s) (auto simp: fun_eq_iff)

lemma forEachLockedOutput_iff: "(op, lv) \<in> set (forEachLockedOutput s) \<longleftrightarrow> lockOf s op = Some lv"
  by (auto simp: forEachLockedOutput_def lockOf_def bkt.forEach_iff split: option.splits)

text \<open>Nothing outside the locked-outputs bucket changes.\<close>

definition sameLedger :: "ns \<Rightarrow> ns \<Rightarrow> bool" where
  "sameLedger s s' \<longleftrightarrow> s'\<lparr>lockedOutputs := lockedOutputs s\<rparr> = s"

lemma sameLedger_refl [simp]: "sameLedger s s"
  by (simp add: sameLedger_def)

lemma sameLedger_trans: "sameLedger s s' \<Longrightarrow> sameLedger s' s'' \<Longrightarrow> sameLedger s s''"
  by (cases s; cases s'; cases s'') (simp add: sameLedger_def)

lemma sameLedger_lock: "sameLedger s (lockOutput s lid op e)" "sameLedger s (unlockOutput s op)"
  by (simp_all add: sameLedger_def lockOutput_def unlockOutput_def Let_def split: option.splits)

lemma sameLedger_fold_unlock: "sameLedger s (fold (\<lambda>op s. unlockOutput s op) ops s)"
  by (rule fold_inv [where P = "sameLedger s"]) (auto intro: sameLedger_trans sameLedger_lock)

lemma lockOf_DeleteExpired:
  "lockOf (DeleteExpiredLockedOutputs s clk) op =
   (case lockOf s op of
      None \<Rightarrow> None
    | Some lv \<Rightarrow> if clk op < lockExpiryTime lv then Some lv else None)"
  by (auto simp: DeleteExpiredLockedOutputs_def Let_def lockOf_fold_unlock forEachLockedOutput_iff
      image_iff split: option.splits)

section \<open>Leases as a state machine\<close>

text \<open>A step of the lease machine at time \<open>t\<close>: some caller locks or unlocks some output, or the
  expired leases are purged.  The failing calls leave the store as it was.\<close>

datatype lease_event =
    ELock LockID OutPoint int
  | EUnlock LockID OutPoint
  | EPurge

inductive lease_step :: "ns \<Rightarrow> int \<Rightarrow> lease_event \<Rightarrow> ns \<Rightarrow> bool" where
  lock: "LockOutput s t t lid op d = Inr (e, s') \<Longrightarrow> lease_step s t (ELock lid op d) s'"
| lock_refused: "LockOutput s t t lid op d = Inl err \<Longrightarrow> lease_step s t (ELock lid op d) s"
| unlock: "UnlockOutput s t lid op = Inr s' \<Longrightarrow> lease_step s t (EUnlock lid op) s'"
| unlock_refused: "UnlockOutput s t lid op = Inl err \<Longrightarrow> lease_step s t (EUnlock lid op) s"
| purge: "lease_step s t EPurge (DeleteExpiredLockedOutputs s (\<lambda>_. t))"

inductive_cases lease_lockE: "lease_step s t (ELock lid op d) s'"
inductive_cases lease_unlockE: "lease_step s t (EUnlock lid op) s'"
inductive_cases lease_purgeE: "lease_step s t EPurge s'"

lemmas lease_cases = lease_lockE lease_unlockE lease_purgeE

fun event_by :: "lease_event \<Rightarrow> LockID \<Rightarrow> OutPoint \<Rightarrow> bool" where
  "event_by (ELock lid op d) l o' \<longleftrightarrow> lid = l \<and> op = o'"
| "event_by (EUnlock lid op) l o' \<longleftrightarrow> lid = l \<and> op = o'"
| "event_by EPurge l o' \<longleftrightarrow> False"

inductive lease_run :: "ns \<Rightarrow> (int \<times> lease_event) list \<Rightarrow> ns \<Rightarrow> bool" where
  Nil: "lease_run s [] s"
| Cons: "lease_step s t ev s1 \<Longrightarrow> lease_run s1 evs s' \<Longrightarrow> lease_run s ((t, ev) # evs) s'"

inductive_cases lease_run_NilE: "lease_run s [] s'"
inductive_cases lease_run_ConsE: "lease_run s ((t, ev) # evs) s'"

text \<open>While a lease is live, a step that is not the holder's own keeps the stored lock.\<close>

lemma lease_step_keeps:
  assumes "lease_step s t ev s'" and "lockOf s op = Some lv" and "t < lockExpiryTime lv"
    and "\<not> event_by ev (lockID lv) op"
  shows "lockOf s' op = Some lv"
  using assms
proof (induction rule: lease_step.induct)
  case (lock s t lid op' d e s')
  then show ?case
    by (auto simp: LockOutput_def isLockedOutput_lockOf Let_def split: if_splits option.splits)
next
  case (unlock s t lid op' s')
  then show ?case
    by (auto simp: UnlockOutput_def isLockedOutput_lockOf split: if_splits option.splits)
next
  case (purge s t)
  then show ?case by (simp add: lockOf_DeleteExpired)
qed simp_all

lemma lease_run_keeps:
  assumes "lease_run s evs s'" and "lockOf s op = Some lv"
    and "\<forall>(t, ev) \<in> set evs. t < lockExpiryTime lv \<and> \<not> event_by ev (lockID lv) op"
  shows "lockOf s' op = Some lv"
  using assms
proof (induction rule: lease_run.induct)
  case (Cons s t ev s1 evs s')
  then show ?case using lease_step_keeps [of s t ev s1 op lv] by auto
qed simp

lemma lockOf_LockOutput:
  assumes "LockOutput s now1 now2 lid op d = Inr (e, s')"
  shows "lockOf s' op = Some \<lparr>lockID = lid, lockExpiry = word_of_int (unixSec e)\<rparr>" "e = now2 + d"
  using assms by (auto simp: LockOutput_def Let_def split: if_splits)

lemma lockExpiryTime_unix:
  assumes "in64 (unixSec e)"
  shows "lockExpiryTime \<lparr>lockID = lid, lockExpiry = word_of_int (unixSec e)\<rparr> = unixSec e * 1000000000"
proof -
  have "int64 (unixSec e) = unixSec e" using assms by (rule int64_id)
  then show ?thesis by (simp add: lockExpiryTime_def int64_def)
qed

end
