(* ===== verification/Wtx_Store.thy ===== *)
theory Wtx_Store
  imports Wtx_Locks
begin

text \<open>
  The operations that change the transaction store (\<^verbatim>\<open>wtxmgr/tx.go\<close> and
  \<^verbatim>\<open>wtxmgr/unconfirmed.go\<close>), each as the code has it: inserting mined and unmined
  transactions, moving credits and debits between the mined and unmined buckets,
  removing conflicting spend chains, marking credits and rolling back blocks.  An
  operation returns the changed namespace or the error that makes the caller's database
  transaction roll back.

  \<open>isCB\<close> stands for \<^verbatim>\<open>blockchain.IsCoinBaseTx\<close>.  The recursion of \<open>removeConflict\<close> carries
  fuel, one more than the number of unmined transactions at the outer call; running out
  of it is the error \<open>StackOverflow\<close>, which \<open>Wtx_Conflicts\<close> shows never to happen when the
  unmined spends are acyclic.
\<close>

section \<open>Conflicts (\<^verbatim>\<open>unconfirmed.go\<close>)\<close>

text \<open>\<open>removeConflict n h tx\<close> removes the unmined transaction \<open>tx\<close> with hash \<open>h\<close> and, first, every
  unmined transaction spending one of its outputs.\<close>

fun removeConflict :: "nat \<Rightarrow> hash \<Rightarrow> MsgTx \<Rightarrow> ns \<Rightarrow> store_error + ns" where
  "removeConflict 0 h tx s = Inl StackOverflow"
| "removeConflict (Suc n) h tx s =
     (case fold_err
             (\<lambda>i s. case fold_err
                        (\<lambda>spender s. case Get (unmined s) spender of
                             None \<Rightarrow> Inr s
                           | Some v \<Rightarrow> removeConflict n spender (tvTx v) s)
                        (fetchUnminedInputSpendTxHashes s (OutPoint h i)) s
                    of Inl e \<Rightarrow> Inl e
                     | Inr s \<Rightarrow> Inr (deleteRawUnminedCredit s (OutPoint h i)))
             (idxs (TxOut tx)) s
      of Inl e \<Rightarrow> Inl e
       | Inr s \<Rightarrow>
           Inr (deleteRawUnmined (fold (\<lambda>op s. deleteRawUnminedInput s op h) (TxIn tx) s) h))"

definition conflictFuel :: "ns \<Rightarrow> nat" where
  "conflictFuel s = Suc (length (ForEach (unmined s)))"

definition RemoveUnminedTx :: "ns \<Rightarrow> TxRecord \<Rightarrow> store_error + ns" where
  "RemoveUnminedTx s rec = removeConflict (conflictFuel s) (txHash rec) (msgTx rec) s"

text \<open>One entry of a spender list: the unmined transaction is removed if it is still there.\<close>

definition removeSpender :: "hash \<Rightarrow> ns \<Rightarrow> store_error + ns" where
  "removeSpender h s =
     (case Get (unmined s) h of
        None \<Rightarrow> Inr s
      | Some v \<Rightarrow> removeConflict (conflictFuel s) h (tvTx v) s)"

definition removeDoubleSpends :: "ns \<Rightarrow> TxRecord \<Rightarrow> store_error + ns" where
  "removeDoubleSpends s rec =
     fold_err
       (\<lambda>op s. fold_err (\<lambda>h s. if txHash rec = h then Inr s else removeSpender h s)
                 (fetchUnminedInputSpendTxHashes s op) s)
       (TxIn (msgTx rec)) s"

definition insertMemPoolTx :: "ns \<Rightarrow> TxRecord \<Rightarrow> store_error + ns" where
  "insertMemPoolTx s rec =
     (if (case TxDetails s (txHash rec) of Inr (Some d) \<Rightarrow> True | _ \<Rightarrow> False)
      then Inl ErrDuplicateTx
      else if \<exists>i \<in> set (idxs (TxOut (msgTx rec))). existsUnspent s (OutPoint (txHash rec) i) \<noteq> None
      then Inr s
      else let s = putRawUnmined s (txHash rec) \<lparr>tvReceived = received rec, tvTx = msgTx rec\<rparr>
           in Inr (fold (\<lambda>op s. putRawUnminedInput s op (txHash rec)) (TxIn (msgTx rec)) s))"

section \<open>Mined transactions (\<^verbatim>\<open>tx.go\<close>)\<close>

text \<open>One input of \<open>updateMinedBalance\<close>: if it spends an unspent credit, the credit is marked
  spent, a debit is recorded and the amount leaves the balance.\<close>

definition spendInput :: "hash \<Rightarrow> Block \<Rightarrow> nat \<times> OutPoint \<Rightarrow> ns \<times> amount \<Rightarrow> ns \<times> amount" where
  "spendInput h b iop sb =
     (case existsUnspent (fst sb) (snd iop) of
        None \<Rightarrow> sb
      | Some ck \<Rightarrow>
          let dk = (h, b, of_nat (fst iop));
              (amt, s) = spendCredit (fst sb) ck dk;
              s = putDebit s dk amt ck;
              s = deleteRawUnspent s (snd iop)
          in (s, snd sb - amt))"

text \<open>One unmined credit of the transaction becomes a mined, unspent one.\<close>

definition moveCredit ::
  "hash \<Rightarrow> Block \<Rightarrow> OutPoint \<times> UnminedCredit \<Rightarrow> ns \<times> amount \<Rightarrow> ns \<times> amount" where
  "moveCredit h b kc sb =
     (let i = opIndex (fst kc);
          s = putUnspentCredit (fst sb) (h, b, i) (ucAmount (snd kc)) (ucChange (snd kc));
          s = putUnspent s (OutPoint h i) b
      in (s, snd sb + ucAmount (snd kc)))"

definition updateMinedBalance :: "ns \<Rightarrow> TxRecord \<Rightarrow> BlockMeta \<Rightarrow> ns" where
  "updateMinedBalance s rec bm =
     (let h = txHash rec; b = block bm;
          (s1, bal1) = fold (spendInput h b) (enumerate 0 (TxIn (msgTx rec))) (s, minedBalance s);
          (s2, bal2) = fold (moveCredit h b) (unminedCreditsOf s1 h) (s1, bal1)
      in if bal2 \<noteq> minedBalance s then s2\<lparr>minedBalance := bal2\<rparr> else s2)"

definition deleteUnminedTx :: "ns \<Rightarrow> TxRecord \<Rightarrow> ns" where
  "deleteUnminedTx s rec =
     (let s = fold (\<lambda>op s. deleteRawUnminedInput s op (txHash rec)) (TxIn (msgTx rec)) s;
          s = fold (\<lambda>i s. deleteRawUnminedCredit s (OutPoint (txHash rec) i))
                (idxs (TxOut (msgTx rec))) s
      in deleteRawUnmined s (txHash rec))"

definition putBlockTx :: "ns \<Rightarrow> TxRecord \<Rightarrow> BlockMeta \<Rightarrow> ns" where
  "putBlockTx s rec bm =
     (case Get (blocks s) (bHeight (block bm)) of
        None \<Rightarrow> putBlockRecord s bm (txHash rec)
      | Some br \<Rightarrow> appendBlockRecord s (bHeight (block bm)) br (txHash rec))"

definition insertMinedTx :: "ns \<Rightarrow> TxRecord \<Rightarrow> BlockMeta \<Rightarrow> store_error + ns" where
  "insertMinedTx s rec bm =
     (if Get (txRecords s) (txHash rec, block bm) \<noteq> None then Inl ErrDuplicateTx
      else
        let s = putBlockTx s rec bm;
            s = putTxRecord s rec (block bm);
            s = updateMinedBalance s rec bm;
            s = (if Get (unmined s) (txHash rec) \<noteq> None then deleteUnminedTx s rec else s)
        in case removeDoubleSpends s rec of
             Inl e \<Rightarrow> Inl e
           | Inr s \<Rightarrow> Inr (fold (\<lambda>op s. unlockOutput s op) (TxIn (msgTx rec)) s))"

text \<open>\<open>InsertTxCheckIfExists\<close> also tells whether the transaction was already recorded.\<close>

definition InsertTxCheckIfExists ::
  "ns \<Rightarrow> TxRecord \<Rightarrow> BlockMeta option \<Rightarrow> store_error + bool \<times> ns" where
  "InsertTxCheckIfExists s rec obm =
     (case (case obm of None \<Rightarrow> insertMemPoolTx s rec | Some bm \<Rightarrow> insertMinedTx s rec bm) of
        Inl ErrDuplicateTx \<Rightarrow> Inr (True, s)
      | Inl e \<Rightarrow> Inl e
      | Inr s' \<Rightarrow> Inr (False, s'))"

definition InsertTx :: "ns \<Rightarrow> TxRecord \<Rightarrow> BlockMeta option \<Rightarrow> store_error + ns" where
  "InsertTx s rec obm = map_sum id snd (InsertTxCheckIfExists s rec obm)"

section \<open>Credits\<close>

definition addCredit ::
  "ns \<Rightarrow> TxRecord \<Rightarrow> BlockMeta option \<Rightarrow> uint32 \<Rightarrow> bool \<Rightarrow> bool \<times> ns" where
  "addCredit s rec obm index change =
     (let h = txHash rec; amt = Value (TxOut (msgTx rec) ! unat index); op = OutPoint h index
      in case obm of
           None \<Rightarrow>
             if Get (unminedCredits s) op \<noteq> None then (False, s)
             else if latestTxRecord s h \<noteq> None then (False, s)
             else (True, putRawUnminedCredit s op amt change)
         | Some bm \<Rightarrow>
             let b = block bm in
             if Get (credits s) (h, b, index) \<noteq> None then (False, s)
             else let s = putUnspentCredit s (h, b, index) amt change;
                      s = s\<lparr>minedBalance := minedBalance s + amt\<rparr>
                  in (True, putUnspent s op b))"

text \<open>\<open>AddCredit\<close>; the flag says whether \<open>NotifyUnspent\<close> fires.\<close>

definition AddCredit ::
  "ns \<Rightarrow> TxRecord \<Rightarrow> BlockMeta option \<Rightarrow> uint32 \<Rightarrow> bool \<Rightarrow> store_error + bool \<times> ns" where
  "AddCredit s rec obm index change =
     (if unat index \<ge> length (TxOut (msgTx rec)) then Inl ErrInput
      else Inr (addCredit s rec obm index change))"

section \<open>Rollback\<close>

text \<open>The loop state of \<open>rollback\<close>: the namespace, the running balance and the coinbase credits
  collected so far.\<close>

record rbState =
  rbNs :: ns
  rbBal :: amount
  rbCB :: "OutPoint list"

definition rollbackCoinbaseOut ::
  "hash \<Rightarrow> Block \<Rightarrow> uint32 \<times> txOut \<Rightarrow> rbState \<Rightarrow> rbState" where
  "rollbackCoinbaseOut h b io r =
     (let s = rbNs r; op = OutPoint h (fst io) in
      if Get (credits s) (h, b, fst io) = None then r
      else
        let (s, bal) = (if existsUnspent s op \<noteq> None
                        then (deleteRawUnspent s op, rbBal r - Value (snd io))
                        else (s, rbBal r))
        in \<lparr>rbNs = deleteRawCredit s (h, b, fst io), rbBal = bal, rbCB = rbCB r @ [op]\<rparr>)"

definition rollbackInput :: "hash \<Rightarrow> Block \<Rightarrow> nat \<times> OutPoint \<Rightarrow> rbState \<Rightarrow> rbState" where
  "rollbackInput h b iop r =
     (let s = putRawUnminedInput (rbNs r) (snd iop) h; dk = (h, b, of_nat (fst iop)) in
      case Get (debits s) dk of
        None \<Rightarrow> r\<lparr>rbNs := s\<rparr>
      | Some d \<Rightarrow>
          let ck = debCredKey d;
              (amt, s) = unspendRawCredit s ck;
              s = deleteRawDebit s dk
          in if amt = 0 then r\<lparr>rbNs := s\<rparr>
             else r\<lparr>rbNs := putUnspent s (snd iop) (fst (snd ck)), rbBal := rbBal r + amt\<rparr>)"

definition rollbackOutput :: "hash \<Rightarrow> Block \<Rightarrow> uint32 \<times> txOut \<Rightarrow> rbState \<Rightarrow> rbState" where
  "rollbackOutput h b io r =
     (let s = rbNs r; op = OutPoint h (fst io) in
      case Get (credits s) (h, b, fst io) of
        None \<Rightarrow> r
      | Some c \<Rightarrow>
          let s = putRawUnminedCredit s op (credAmount c) (credChange c);
              s = deleteRawCredit s (h, b, fst io)
          in if existsUnspent s op \<noteq> None
             then r\<lparr>rbNs := deleteRawUnspent s op, rbBal := rbBal r - Value (snd io)\<rparr>
             else r\<lparr>rbNs := s\<rparr>)"

definition rollbackTx ::
  "(MsgTx \<Rightarrow> bool) \<Rightarrow> Block \<Rightarrow> hash \<Rightarrow> rbState \<Rightarrow> store_error + rbState" where
  "rollbackTx isCB b h r =
     (case Get (txRecords (rbNs r)) (h, b) of
        None \<Rightarrow> Inl ErrData
      | Some v \<Rightarrow>
          let r = r\<lparr>rbNs := deleteTxRecord (rbNs r) h b\<rparr>;
              outs = zip (idxs (TxOut (tvTx v))) (TxOut (tvTx v))
          in if isCB (tvTx v) then Inr (fold (rollbackCoinbaseOut h b) outs r)
             else
               let r = r\<lparr>rbNs := putRawUnmined (rbNs r) h v\<rparr>;
                   r = fold (rollbackInput h b) (enumerate 0 (TxIn (tvTx v))) r
               in Inr (fold (rollbackOutput h b) outs r))"

definition rollbackBlock ::
  "(MsgTx \<Rightarrow> bool) \<Rightarrow> uint32 \<times> blockRecord \<Rightarrow> rbState \<Rightarrow> store_error + rbState" where
  "rollbackBlock isCB hb r =
     fold_err (rollbackTx isCB (Block (fst hb) (brHash (snd hb)))) (transactions (snd hb)) r"

text \<open>The blocks visited: from the highest key down to the first one below \<open>height\<close>.\<close>

definition rollbackBlocks :: "ns \<Rightarrow> uint32 \<Rightarrow> (uint32 \<times> blockRecord) list" where
  "rollbackBlocks s height =
     takeWhile (\<lambda>(ht, br). \<not> sint ht < sint height) (rev (ForEach (blocks s)))"

definition rollback :: "(MsgTx \<Rightarrow> bool) \<Rightarrow> ns \<Rightarrow> uint32 \<Rightarrow> store_error + ns" where
  "rollback isCB s height =
     (let bs = rollbackBlocks s height in
      case fold_err (rollbackBlock isCB) bs \<lparr>rbNs = s, rbBal = minedBalance s, rbCB = []\<rparr> of
        Inl e \<Rightarrow> Inl e
      | Inr r \<Rightarrow>
          let s = fold (\<lambda>(ht, br) s. deleteBlockRecord s ht) bs (rbNs r) in
          case fold_err
                 (\<lambda>op s. fold_err removeSpender (fetchUnminedInputSpendTxHashes s op) s)
                 (rbCB r) s of
            Inl e \<Rightarrow> Inl e
          | Inr s \<Rightarrow> Inr (s\<lparr>minedBalance := rbBal r\<rparr>))"

definition Rollback :: "(MsgTx \<Rightarrow> bool) \<Rightarrow> ns \<Rightarrow> uint32 \<Rightarrow> store_error + ns" where
  "Rollback isCB s height = rollback isCB s height"

end
