(* ===== verification/Wtx_Conflicts.thy ===== *)
theory Wtx_Conflicts
  imports Wtx_Store
begin

text \<open>
  The unmined side of the store: the invariant that ties the unmined-inputs and
  unmined-credits buckets to the unmined transactions, and what removing a conflicting
  spend chain does.  \<open>T\<close> is the transaction a hash stands for (hashes identify
  transactions) and \<open>rk\<close> a rank witnessing that a transaction only spends outputs of
  earlier ones; both are ghosts of the specification and appear in no operation.
\<close>

section \<open>The universe of transactions\<close>

text \<open>What the store relies on from the chain it follows: output and input counts fit an
  index, a transaction has no input twice, spends are acyclic (an input names the hash of
  an existing transaction), a coinbase spends nothing but the null outpoint, and no
  transaction has the null hash.\<close>

definition universe :: "(MsgTx \<Rightarrow> bool) \<Rightarrow> (hash \<Rightarrow> MsgTx) \<Rightarrow> (hash \<Rightarrow> nat) \<Rightarrow> bool" where
  "universe isCB T rk \<longleftrightarrow>
     (\<forall>h. length (TxOut (T h)) \<le> 2 ^ 32 \<and> length (TxIn (T h)) \<le> 2 ^ 32) \<and>
     (\<forall>h. \<forall>op \<in> set (TxIn (T h)). rk (opHash op) < rk h) \<and>
     (\<forall>h. isCB (T h) \<longrightarrow> (\<forall>op \<in> set (TxIn (T h)). opHash op = 0)) \<and>
     (\<forall>h. distinct (TxIn (T h))) \<and>
     TxOut (T 0) = []"

lemma universeD:
  assumes "universe isCB T rk"
  shows "length (TxOut (T h)) \<le> 2 ^ 32" "length (TxIn (T h)) \<le> 2 ^ 32"
    "op \<in> set (TxIn (T h)) \<Longrightarrow> rk (opHash op) < rk h"
    "isCB (T h) \<Longrightarrow> op \<in> set (TxIn (T h)) \<Longrightarrow> opHash op = 0"
    "TxOut (T 0) = []" "distinct (TxIn (T h))"
  using assms by (auto simp: universe_def)

abbreviation udom :: "ns \<Rightarrow> hash set" where
  "udom s \<equiv> dom (Get (unmined s))"

abbreviation spenders :: "ns \<Rightarrow> OutPoint \<Rightarrow> hash set" where
  "spenders s op \<equiv> set (fetchUnminedInputSpendTxHashes s op)"

definition spends :: "(hash \<Rightarrow> MsgTx) \<Rightarrow> hash \<Rightarrow> hash \<Rightarrow> bool" where
  "spends T h h' \<longleftrightarrow>
     (\<exists>op \<in> set (TxIn (T h')). opHash op = h \<and> hasOut (T h) (opIndex op))"

definition spendRel :: "(hash \<Rightarrow> MsgTx) \<Rightarrow> hash set \<Rightarrow> (hash \<times> hash) set" where
  "spendRel T U = {(h, h'). h' \<in> U \<and> spends T h h'}"

section \<open>The unmined invariant\<close>

definition indexExact :: "(hash \<Rightarrow> MsgTx) \<Rightarrow> ns \<Rightarrow> bool" where
  "indexExact T s \<longleftrightarrow>
     (\<forall>op. spenders s op = {h \<in> udom s. op \<in> set (TxIn (T h))}) \<and>
     (\<forall>op. Get (unminedInputs s) op \<noteq> Some [])"

definition unminedKnown :: "(hash \<Rightarrow> MsgTx) \<Rightarrow> ns \<Rightarrow> bool" where
  "unminedKnown T s \<longleftrightarrow> (\<forall>h v. Get (unmined s) h = Some v \<longrightarrow> tvTx v = T h)"

definition unminedCreditsOk :: "(hash \<Rightarrow> MsgTx) \<Rightarrow> ns \<Rightarrow> bool" where
  "unminedCreditsOk T s \<longleftrightarrow>
     (\<forall>op c. Get (unminedCredits s) op = Some c \<longrightarrow>
        opHash op \<in> udom s \<and> hasOut (T (opHash op)) (opIndex op) \<and>
        ucAmount c = outValue (T (opHash op)) (opIndex op))"

definition unminedInv :: "(hash \<Rightarrow> MsgTx) \<Rightarrow> ns \<Rightarrow> bool" where
  "unminedInv T s \<longleftrightarrow> unminedKnown T s \<and> indexExact T s \<and> unminedCreditsOk T s"

lemma spentByUnmined_iff:
  assumes "indexExact T s"
  shows "spentByUnmined s op \<longleftrightarrow> (\<exists>h \<in> udom s. op \<in> set (TxIn (T h)))"
proof -
  have "Get (unminedInputs s) op \<noteq> Some []" using assms by (simp add: indexExact_def)
  then have "spentByUnmined s op \<longleftrightarrow> spenders s op \<noteq> {}"
    by (cases "Get (unminedInputs s) op")
      (auto simp: spentByUnmined_def fetchUnminedInputSpendTxHashes_def)
  moreover have "spenders s op = {h \<in> udom s. op \<in> set (TxIn (T h))}"
    using assms unfolding indexExact_def by blast
  ultimately show ?thesis by simp blast
qed

section \<open>Deleting one unmined transaction\<close>

lemma spenders_delete [simp, store_simps]:
  "spenders (deleteRawUnminedInput s op h) op' = (if op' = op then spenders s op - {h} else spenders s op')"
  by (auto simp: deleteRawUnminedInput_def fetchUnminedInputSpendTxHashes_def Let_def
      filter_empty_conv split: option.splits if_splits)

lemma delete_input_nonempty:
  "Get (unminedInputs s) op' \<noteq> Some [] \<Longrightarrow>
   Get (unminedInputs (deleteRawUnminedInput s op h)) op' \<noteq> Some []"
  by (auto simp: deleteRawUnminedInput_def Let_def split: option.splits if_splits)

lemma delete_input_frame [simp, store_simps]:
  "unmined (deleteRawUnminedInput s op h) = unmined s"
  "unminedCredits (deleteRawUnminedInput s op h) = unminedCredits s"
  by (simp_all add: deleteRawUnminedInput_def Let_def split: option.splits)

lemma fold_delete_input [simp, store_simps]:
  "unmined (fold (\<lambda>op s. deleteRawUnminedInput s op h) ops s) = unmined s"
  "unminedCredits (fold (\<lambda>op s. deleteRawUnminedInput s op h) ops s) = unminedCredits s"
  "spenders (fold (\<lambda>op s. deleteRawUnminedInput s op h) ops s) op =
     (if op \<in> set ops then spenders s op - {h} else spenders s op)"
  by (induction ops arbitrary: s) auto

lemma fold_delete_input_nonempty:
  "Get (unminedInputs s) op' \<noteq> Some [] \<Longrightarrow>
   Get (unminedInputs (fold (\<lambda>op s. deleteRawUnminedInput s op h) ops s)) op' \<noteq> Some []"
  by (induction ops arbitrary: s) (auto simp: delete_input_nonempty)

text \<open>The last lines of \<open>removeConflict\<close> and of \<open>deleteUnminedTx\<close>.\<close>

definition dropUnmined :: "hash \<Rightarrow> MsgTx \<Rightarrow> ns \<Rightarrow> ns" where
  "dropUnmined h tx s =
     deleteRawUnmined (fold (\<lambda>op s. deleteRawUnminedInput s op h) (TxIn tx) s) h"

lemma spenders_deleteRawUnmined [simp]:
  "spenders (deleteRawUnmined s h) op = spenders s op"
  "unminedInputs (deleteRawUnmined s h) = unminedInputs s"
  "unminedCredits (deleteRawUnmined s h) = unminedCredits s"
  "Get (unmined (deleteRawUnmined s h)) = (Get (unmined s))(h := None)"
  by (simp_all add: deleteRawUnmined_def fetchUnminedInputSpendTxHashes_def)

lemma dropUnmined_simps [simp, store_simps]:
  "Get (unmined (dropUnmined h tx s)) = (Get (unmined s))(h := None)"
  "unminedCredits (dropUnmined h tx s) = unminedCredits s"
  by (simp_all add: dropUnmined_def)

lemma indexExact_dropUnmined:
  assumes "indexExact T s"
  shows "indexExact T (dropUnmined h (T h) s)"
proof -
  have "spenders (dropUnmined h (T h) s) op = {h' \<in> udom (dropUnmined h (T h) s). op \<in> set (TxIn (T h'))}"
    for op
    using assms by (auto simp: indexExact_def dropUnmined_def)
  moreover have "Get (unminedInputs (dropUnmined h (T h) s)) op \<noteq> Some []" for op
    using assms by (simp add: indexExact_def dropUnmined_def fold_delete_input_nonempty)
  ultimately show ?thesis by (simp add: indexExact_def)
qed

lemma unminedInv_dropUnmined:
  assumes "unminedInv T s" and "\<And>i. Get (unminedCredits s) (OutPoint h i) = None"
  shows "unminedInv T (dropUnmined h (T h) s)"
proof -
  have "unminedCreditsOk T (dropUnmined h (T h) s)"
    unfolding unminedCreditsOk_def
  proof (intro allI impI)
    fix op c assume "Get (unminedCredits (dropUnmined h (T h) s)) op = Some c"
    then have c: "Get (unminedCredits s) op = Some c" by simp
    then have "opHash op \<noteq> h" using assms(2) by (cases op) auto
    with c assms(1) show "opHash op \<in> udom (dropUnmined h (T h) s) \<and>
        hasOut (T (opHash op)) (opIndex op) \<and> ucAmount c = outValue (T (opHash op)) (opIndex op)"
      by (auto simp: unminedInv_def unminedCreditsOk_def)
  qed
  with assms(1) show ?thesis
    by (auto simp: unminedInv_def unminedKnown_def indexExact_dropUnmined)
qed

lemma unminedInv_deleteCredit:
  assumes "unminedInv T s"
  shows "unminedInv T (deleteRawUnminedCredit s op)"
proof -
  have "fetchUnminedInputSpendTxHashes (deleteRawUnminedCredit s op) =
      fetchUnminedInputSpendTxHashes s"
    by (simp add: deleteRawUnminedCredit_def fetchUnminedInputSpendTxHashes_def fun_eq_iff)
  with assms show ?thesis
    by (auto simp: unminedInv_def unminedKnown_def indexExact_def unminedCreditsOk_def
        deleteRawUnminedCredit_def split: if_splits)
qed

section \<open>What a conflict removal keeps\<close>

text \<open>Only the three unmined buckets change, and they only shrink.\<close>

definition sameMined :: "ns \<Rightarrow> ns \<Rightarrow> bool" where
  "sameMined s s' \<longleftrightarrow>
     s'\<lparr>unmined := unmined s, unminedCredits := unminedCredits s, unminedInputs := unminedInputs s\<rparr> = s"

lemma sameMined_refl [simp]: "sameMined s s"
  by (simp add: sameMined_def)

lemma sameMined_trans: "sameMined s s' \<Longrightarrow> sameMined s' s'' \<Longrightarrow> sameMined s s''"
  by (cases s; cases s'; cases s'') (simp add: sameMined_def)

lemma sameMinedD:
  assumes "sameMined s s'"
  shows "blocks s' = blocks s" "txRecords s' = txRecords s" "txLabels s' = txLabels s"
    "credits s' = credits s" "unspent s' = unspent s" "debits s' = debits s"
    "lockedOutputs s' = lockedOutputs s" "minedBalance s' = minedBalance s"
  using assms by (cases s; cases s'; simp add: sameMined_def)+

lemma sameMined_ops [simp, intro]:
  "sameMined s (deleteRawUnminedInput s op h)" "sameMined s (deleteRawUnminedCredit s op)"
  "sameMined s (deleteRawUnmined s h)"
  by (simp_all add: sameMined_def deleteRawUnminedInput_def deleteRawUnminedCredit_def
      deleteRawUnmined_def Let_def split: option.splits)

lemma sameMined_fold_delete: "sameMined s (fold (\<lambda>op s. deleteRawUnminedInput s op h) ops s)"
  by (rule fold_inv [where P = "sameMined s"]) (auto intro: sameMined_trans)

lemma sameMined_dropUnmined: "sameMined s (dropUnmined h tx s)"
  unfolding dropUnmined_def by (rule sameMined_trans [OF sameMined_fold_delete sameMined_ops(3)])

section \<open>Removing a spend chain\<close>

text \<open>The transactions of \<open>H\<close> and everything among \<open>U\<close> that spends them, directly or not.\<close>

definition descendants :: "(hash \<Rightarrow> MsgTx) \<Rightarrow> hash set \<Rightarrow> hash set \<Rightarrow> hash set" where
  "descendants T U H = (spendRel T U)\<^sup>* `` H"

lemma descendants_head: "H' \<subseteq> descendants T U H \<Longrightarrow> descendants T U H' \<subseteq> descendants T U H"
  unfolding descendants_def by (blast intro: rtrancl_trans)

lemma descendants_self: "H \<subseteq> descendants T U H"
  by (auto simp: descendants_def)

text \<open>\<open>removes T U H s s'\<close>: from \<open>s\<close> to \<open>s'\<close> a set of unmined transactions was removed that is
  closed under spending, contains only \<open>H\<close> and its descendants among \<open>U\<close>, and leaves
  everything else, the credits of the others included, as it was.\<close>

definition removes :: "(hash \<Rightarrow> MsgTx) \<Rightarrow> hash set \<Rightarrow> hash set \<Rightarrow> ns \<Rightarrow> ns \<Rightarrow> bool" where
  "removes T U H s s' \<longleftrightarrow>
     unminedInv T s' \<and> sameMined s s' \<and>
     (\<exists>R. Get (unmined s') = (Get (unmined s)) |` (- R) \<and> R \<subseteq> descendants T U H) \<and>
     (\<forall>x \<in> udom s - udom s'. \<forall>y \<in> udom s'. \<not> spends T x y) \<and>
     (\<forall>op. Get (unminedCredits s') op = Get (unminedCredits s) op \<or>
        Get (unminedCredits s') op = None \<and> opHash op \<in> descendants T U H)"

lemma removes_refl: "unminedInv T s \<Longrightarrow> removes T U H s s"
  by (auto simp: removes_def intro!: exI [of _ "{}"])

lemma removes_udom: "removes T U H s s' \<Longrightarrow> udom s' \<subseteq> udom s"
  by (auto simp: removes_def restrict_map_def split: if_splits)

lemma removes_trans:
  assumes "removes T U H s s1" "removes T U H s1 s2"
  shows "removes T U H s s2"
proof -
  from assms obtain R1 R2 where
    R: "Get (unmined s1) = (Get (unmined s)) |` (- R1)" "R1 \<subseteq> descendants T U H"
       "Get (unmined s2) = (Get (unmined s1)) |` (- R2)" "R2 \<subseteq> descendants T U H"
    by (auto simp: removes_def)
  have "Get (unmined s2) = (Get (unmined s)) |` (- (R1 \<union> R2))"
    unfolding R(3) R(1) by (auto simp: restrict_map_def fun_eq_iff)
  moreover have "R1 \<union> R2 \<subseteq> descendants T U H" using R by blast
  moreover have "\<not> spends T x y" if "x \<in> udom s - udom s2" "y \<in> udom s2" for x y
  proof (cases "x \<in> udom s1")
    case True
    with that assms(2) show ?thesis unfolding removes_def by blast
  next
    case False
    moreover have "y \<in> udom s1" using that(2) removes_udom [OF assms(2)] by blast
    ultimately show ?thesis using that assms(1) unfolding removes_def by blast
  qed
  moreover have "unminedInv T s2" "sameMined s s2"
    using assms sameMined_trans unfolding removes_def by blast+
  moreover have "Get (unminedCredits s2) op = Get (unminedCredits s) op \<or>
      Get (unminedCredits s2) op = None \<and> opHash op \<in> descendants T U H" for op
    using assms unfolding removes_def by metis
  ultimately show ?thesis unfolding removes_def by blast
qed

lemma removes_head:
  assumes "removes T U H' s s'" and "H' \<subseteq> descendants T U H"
  shows "removes T U H s s'"
  using assms(1) descendants_head [OF assms(2)] unfolding removes_def by blast

lemma removes_deleteCredit:
  assumes "unminedInv T s" and "opHash op \<in> H"
  shows "removes T U H s (deleteRawUnminedCredit s op)"
proof -
  have "opHash op \<in> descendants T U H" using assms(2) descendants_self by blast
  then show ?thesis
    using unminedInv_deleteCredit [OF assms(1), of op]
    by (auto simp: removes_def deleteRawUnminedCredit_def sameMined_def intro!: exI [of _ "{}"])
qed

lemma removes_inv: "removes T U H s s' \<Longrightarrow> unminedInv T s'"
  by (simp add: removes_def)

lemma removes_credits:
  "removes T U H s s' \<Longrightarrow> Get (unminedCredits s) op = None \<Longrightarrow> Get (unminedCredits s') op = None"
  by (metis removes_def)

lemma removes_dropUnmined:
  assumes inv: "unminedInv T s" and credits: "\<And>i. Get (unminedCredits s) (OutPoint h i) = None"
    and last: "\<And>y. y \<in> udom s \<Longrightarrow> \<not> spends T h y"
  shows "removes T U {h} s (dropUnmined h (T h) s)"
proof -
  have "Get (unmined (dropUnmined h (T h) s)) = (Get (unmined s)) |` (- {h})"
    by (auto simp: restrict_map_def fun_eq_iff)
  moreover have "{h} \<subseteq> descendants T U {h}" by (rule descendants_self)
  moreover have "\<not> spends T x y"
    if "x \<in> udom s - udom (dropUnmined h (T h) s)" "y \<in> udom (dropUnmined h (T h) s)" for x y
  proof -
    have "x = h" "y \<in> udom s" using that by (auto split: if_splits)
    then show ?thesis using last by blast
  qed
  ultimately show ?thesis
    unfolding removes_def using unminedInv_dropUnmined [OF inv credits] sameMined_dropUnmined
    by (metis dropUnmined_simps(2))
qed

text \<open>When the heads are gone and nothing left spends them, exactly the descendants went.\<close>

lemma removes_exact:
  assumes r: "removes T (udom s) H s s'"
    and H: "\<And>h. h \<in> H \<Longrightarrow> h \<notin> udom s' \<and> (\<forall>y \<in> udom s'. \<not> spends T h y)"
  shows "Get (unmined s') = Get (unmined s) |` (- descendants T (udom s) H)"
    and "Get (unminedCredits s') = Get (unminedCredits s) |` {op. opHash op \<notin> descendants T (udom s) H}"
proof -
  obtain R where R: "Get (unmined s') = Get (unmined s) |` (- R)" "R \<subseteq> descendants T (udom s) H"
    using r by (auto simp: removes_def)
  have "y \<notin> udom s' \<and> (\<forall>z \<in> udom s'. \<not> spends T y z)"
    if "(h, y) \<in> (spendRel T (udom s))\<^sup>*" "h \<in> H" for h y
    using that
  proof (induction rule: rtrancl_induct)
    case (step y z)
    have "z \<in> udom s" "spends T y z" using step.hyps(2) by (auto simp: spendRel_def)
    then have "z \<notin> udom s'" using step.IH step.prems by blast
    moreover have "\<forall>x \<in> udom s'. \<not> spends T z x"
      using r \<open>z \<in> udom s\<close> \<open>z \<notin> udom s'\<close> unfolding removes_def by blast
    ultimately show ?case by blast
  qed (use H in blast)
  then have D: "descendants T (udom s) H \<inter> udom s' = {}" by (auto simp: descendants_def)
  moreover have "Get (unmined s') y = Get (unmined s) y" if "y \<notin> descendants T (udom s) H" for y
    using that R by (auto simp: restrict_map_def)
  ultimately show "Get (unmined s') = Get (unmined s) |` (- descendants T (udom s) H)"
    by (auto simp: restrict_map_def fun_eq_iff domIff)
  have "Get (unminedCredits s') op = None" if "opHash op \<in> descendants T (udom s) H" for op
  proof (rule ccontr)
    assume "Get (unminedCredits s') op \<noteq> None"
    then have "opHash op \<in> udom s'"
      using removes_inv [OF r] unfolding unminedInv_def unminedCreditsOk_def by blast
    with D that show False by blast
  qed
  moreover have "Get (unminedCredits s') op = Get (unminedCredits s) op"
    if "opHash op \<notin> descendants T (udom s) H" for op
    using r that unfolding removes_def by blast
  ultimately show "Get (unminedCredits s') = Get (unminedCredits s) |` {op. opHash op \<notin> descendants T (udom s) H}"
    by (auto simp: restrict_map_def fun_eq_iff)
qed

subsection \<open>The two nested loops\<close>

lemma spender_loop:
  assumes body: "\<And>sp s s'. sp \<in> set hs \<Longrightarrow> unminedInv T s \<Longrightarrow> udom s \<subseteq> U \<Longrightarrow> f sp s = Inr s' \<Longrightarrow>
      removes T U H s s' \<and> sp \<notin> udom s'"
    and "fold_err f hs s = Inr s1" and "unminedInv T s" and "udom s \<subseteq> U"
  shows "removes T U H s s1 \<and> set hs \<inter> udom s1 = {}"
  using assms
proof (induction hs arbitrary: s)
  case Nil
  then show ?case by (auto simp: removes_refl)
next
  case (Cons sp hs)
  then obtain s2 where s2: "f sp s = Inr s2" "fold_err f hs s2 = Inr s1"
    by (auto split: sum.splits)
  have r: "removes T U H s s2" "sp \<notin> udom s2"
    using Cons.prems(1) [of sp s s2] Cons.prems(3,4) s2(1) by auto
  have "removes T U H s2 s1 \<and> set hs \<inter> udom s1 = {}"
    using Cons.IH [of s2] Cons.prems(1,4) s2(2) removes_inv [OF r(1)] removes_udom [OF r(1)]
    by (meson list.set_intros(2) order_trans)
  with r show ?case using removes_trans removes_udom by fastforce
qed

lemma index_loop:
  assumes body: "\<And>i s s'. i \<in> set js \<Longrightarrow> unminedInv T s \<Longrightarrow> udom s \<subseteq> U \<Longrightarrow> g i s = Inr s' \<Longrightarrow>
      removes T U H s s' \<and> (\<forall>y \<in> udom s'. OutPoint h i \<notin> set (TxIn (T y))) \<and>
      Get (unminedCredits s') (OutPoint h i) = None"
    and "fold_err g js s = Inr s1" and "unminedInv T s" and "udom s \<subseteq> U"
  shows "removes T U H s s1 \<and>
    (\<forall>i \<in> set js. (\<forall>y \<in> udom s1. OutPoint h i \<notin> set (TxIn (T y))) \<and>
      Get (unminedCredits s1) (OutPoint h i) = None)"
  using assms
proof (induction js arbitrary: s)
  case Nil
  then show ?case by (auto simp: removes_refl)
next
  case (Cons i js)
  then obtain s2 where s2: "g i s = Inr s2" "fold_err g js s2 = Inr s1"
    by (auto split: sum.splits)
  have r: "removes T U H s s2" "\<forall>y \<in> udom s2. OutPoint h i \<notin> set (TxIn (T y))"
    "Get (unminedCredits s2) (OutPoint h i) = None"
    using Cons.prems(1) [of i s s2] Cons.prems(3,4) s2(1) by auto
  have "removes T U H s2 s1 \<and> (\<forall>i \<in> set js. (\<forall>y \<in> udom s1. OutPoint h i \<notin> set (TxIn (T y))) \<and>
      Get (unminedCredits s1) (OutPoint h i) = None)"
  proof (rule Cons.IH [OF _ s2(2) removes_inv [OF r(1)]])
    show "udom s2 \<subseteq> U" using removes_udom [OF r(1)] Cons.prems(4) by blast
  qed (rule Cons.prems(1), simp_all)
  then have rest: "removes T U H s2 s1" "\<forall>k \<in> set js. (\<forall>y \<in> udom s1. OutPoint h k \<notin> set (TxIn (T y))) \<and>
      Get (unminedCredits s1) (OutPoint h k) = None" by blast+
  have "\<forall>y \<in> udom s1. OutPoint h i \<notin> set (TxIn (T y))"
    using r(2) removes_udom [OF rest(1)] by blast
  moreover have "Get (unminedCredits s1) (OutPoint h i) = None"
    by (rule removes_credits [OF rest(1) r(3)])
  ultimately show ?case using rest(2) removes_trans [OF r(1) rest(1)] by simp
qed

text \<open>The body of the outer loop, for one output.\<close>

definition conflictOut ::
  "(hash \<Rightarrow> ns \<Rightarrow> store_error + ns) \<Rightarrow> hash \<Rightarrow> uint32 \<Rightarrow> ns \<Rightarrow> store_error + ns" where
  "conflictOut f h i s =
     (case fold_err f (fetchUnminedInputSpendTxHashes s (OutPoint h i)) s of
        Inl e \<Rightarrow> Inl e | Inr s \<Rightarrow> Inr (deleteRawUnminedCredit s (OutPoint h i)))"

definition conflictSpender :: "nat \<Rightarrow> hash \<Rightarrow> ns \<Rightarrow> store_error + ns" where
  "conflictSpender n sp s =
     (case Get (unmined s) sp of None \<Rightarrow> Inr s | Some v \<Rightarrow> removeConflict n sp (tvTx v) s)"

lemma removeConflict_Suc:
  "removeConflict (Suc n) h tx s =
   (case fold_err (conflictOut (conflictSpender n) h) (idxs (TxOut tx)) s of
      Inl e \<Rightarrow> Inl e | Inr s \<Rightarrow> Inr (dropUnmined h tx s))"
  unfolding conflictOut_def [abs_def] conflictSpender_def [abs_def] dropUnmined_def
  by (rule removeConflict.simps(2))

declare removeConflict.simps(2) [simp del]

lemma conflictOut_removes:
  assumes univ: "universe isCB T rk" and i: "hasOut (T h) i"
    and rec: "\<And>sp s s'. unminedInv T s \<Longrightarrow> udom s \<subseteq> U \<Longrightarrow> sp \<in> udom s \<Longrightarrow>
      removeConflict n sp (T sp) s = Inr s' \<Longrightarrow> removes T U {sp} s s' \<and> sp \<notin> udom s'"
    and inv: "unminedInv T s" and Us: "udom s \<subseteq> U"
    and ok: "conflictOut (conflictSpender n) h i s = Inr s1"
  shows "removes T U {h} s s1 \<and> (\<forall>y \<in> udom s1. OutPoint h i \<notin> set (TxIn (T y))) \<and>
      Get (unminedCredits s1) (OutPoint h i) = None"
proof -
  let ?hs = "fetchUnminedInputSpendTxHashes s (OutPoint h i)"
  obtain s2 where s2: "fold_err (conflictSpender n) ?hs s = Inr s2"
    "s1 = deleteRawUnminedCredit s2 (OutPoint h i)"
    using ok by (auto simp: conflictOut_def split: sum.splits)
  have hs: "set ?hs = {y \<in> udom s. OutPoint h i \<in> set (TxIn (T y))}"
    using inv by (simp add: unminedInv_def indexExact_def)
  have body: "removes T U {h} t t' \<and> sp \<notin> udom t'"
    if "sp \<in> set ?hs" "unminedInv T t" "udom t \<subseteq> U" "conflictSpender n sp t = Inr t'" for sp t t'
  proof (cases "Get (unmined t) sp")
    case None
    with that show ?thesis by (auto simp: conflictSpender_def removes_refl)
  next
    case (Some v)
    then have "tvTx v = T sp" using that(2) by (simp add: unminedInv_def unminedKnown_def)
    with Some that have "removes T U {sp} t t' \<and> sp \<notin> udom t'"
      by (intro rec) (auto simp: conflictSpender_def)
    moreover have "{sp} \<subseteq> descendants T U {h}"
      using that(1) hs Us i by (force simp: descendants_def spendRel_def spends_def)
    ultimately show ?thesis using removes_head by blast
  qed
  have r: "removes T U {h} s s2 \<and> set ?hs \<inter> udom s2 = {}"
    by (rule spender_loop [OF body s2(1) inv Us])
  then have "removes T U {h} s s1"
    using s2(2) removes_deleteCredit [of T s2 "OutPoint h i" "{h}" U] removes_inv removes_trans
    by auto
  moreover have "udom s1 = udom s2" "Get (unminedCredits s1) (OutPoint h i) = None"
    by (simp_all add: s2(2) deleteRawUnminedCredit_def)
  ultimately show ?thesis using r hs removes_udom by blast
qed

lemma removeConflict_removes:
  assumes univ: "universe isCB T rk"
  shows "unminedInv T s \<Longrightarrow> udom s \<subseteq> U \<Longrightarrow> removeConflict n h (T h) s = Inr s' \<Longrightarrow>
    removes T U {h} s s' \<and> h \<notin> udom s' \<and> (\<forall>y \<in> udom s'. \<not> spends T h y)"
proof (induction n arbitrary: h s s')
  case (Suc n)
  obtain s1 where s1: "fold_err (conflictOut (conflictSpender n) h) (idxs (TxOut (T h))) s = Inr s1"
    "s' = dropUnmined h (T h) s1"
    using Suc.prems(3) by (auto simp: removeConflict_Suc split: sum.splits)
  have js: "set (idxs (TxOut (T h))) = {i. hasOut (T h) i}"
    using universeD(1) [OF univ] by (simp add: set_idxs hasOut_def)
  have loop: "removes T U {h} s s1 \<and>
      (\<forall>i \<in> set (idxs (TxOut (T h))). (\<forall>y \<in> udom s1. OutPoint h i \<notin> set (TxIn (T y))) \<and>
        Get (unminedCredits s1) (OutPoint h i) = None)"
  proof (rule index_loop [OF _ s1(1) Suc.prems(1,2)])
    fix i t t' assume "i \<in> set (idxs (TxOut (T h)))" "unminedInv T t" "udom t \<subseteq> U"
      "conflictOut (conflictSpender n) h i t = Inr t'"
    with js show "removes T U {h} t t' \<and> (\<forall>y \<in> udom t'. OutPoint h i \<notin> set (TxIn (T y))) \<and>
        Get (unminedCredits t') (OutPoint h i) = None"
      by (intro conflictOut_removes [OF univ]) (use Suc.IH in blast)+
  qed
  have inv1: "unminedInv T s1" using loop removes_inv by blast
  have last: "\<not> spends T h y" if "y \<in> udom s1" for y
  proof
    assume "spends T h y"
    then obtain op where "op \<in> set (TxIn (T y))" "opHash op = h" "hasOut (T h) (opIndex op)"
      by (auto simp: spends_def)
    with loop js that show False by (cases op) auto
  qed
  have nocred: "Get (unminedCredits s1) (OutPoint h i) = None" for i
  proof (cases "hasOut (T h) i")
    case True
    with loop js show ?thesis by auto
  next
    case False
    with inv1 show ?thesis
      unfolding unminedInv_def unminedCreditsOk_def by (metis OutPoint.sel not_None_eq)
  qed
  have "removes T U {h} s1 s'"
    unfolding s1(2) by (rule removes_dropUnmined [OF inv1 nocred last])
  then have "removes T U {h} s s'" using loop removes_trans by blast
  moreover have "h \<notin> udom s'" "udom s' \<subseteq> udom s1" by (auto simp: s1(2) split: if_splits)
  ultimately show ?case using last by blast
qed simp

section \<open>The recursion returns\<close>

text \<open>The unmined transactions that a removal starting at \<open>h\<close> can still visit.\<close>

definition above :: "(hash \<Rightarrow> nat) \<Rightarrow> hash \<Rightarrow> ns \<Rightarrow> hash set" where
  "above rk h s = {y \<in> udom s. rk h < rk y}"

lemma above_mono:
  assumes "udom t \<subseteq> udom s" "sp \<in> udom s" "rk h < rk sp"
  shows "card (above rk sp t) < card (above rk h s)"
proof (rule psubset_card_mono)
  show "finite (above rk h s)" by (simp add: above_def)
  have "above rk sp t \<subseteq> above rk h s" using assms by (auto simp: above_def)
  moreover have "sp \<in> above rk h s - above rk sp t" using assms by (auto simp: above_def)
  ultimately show "above rk sp t \<subset> above rk h s" by blast
qed

lemma removeConflict_fuel:
  assumes univ: "universe isCB T rk"
  shows "unminedInv T s \<Longrightarrow> card (above rk h s) < n \<Longrightarrow> \<exists>s'. removeConflict n h (T h) s = Inr s'"
proof (induction n arbitrary: h s)
  case (Suc n)
  let ?P = "\<lambda>t. unminedInv T t \<and> udom t \<subseteq> udom s"
  have spender: "\<exists>t'. conflictSpender n sp t = Inr t' \<and> ?P t'"
    if P: "?P t" and sp: "sp \<in> udom s" "rk h < rk sp" for sp t
  proof (cases "Get (unmined t) sp")
    case None
    with P show ?thesis by (simp add: conflictSpender_def)
  next
    case (Some v)
    then have v: "tvTx v = T sp" using P by (simp add: unminedInv_def unminedKnown_def)
    have "card (above rk sp t) < n"
      using above_mono [of t s sp rk h] P sp Suc.prems(2) by linarith
    then obtain t' where t': "removeConflict n sp (T sp) t = Inr t'" using Suc.IH P by blast
    then have "removes T (udom t) {sp} t t'" using removeConflict_removes [OF univ] P by blast
    with P have "?P t'" using removes_inv removes_udom by blast
    with t' Some v show ?thesis by (simp add: conflictSpender_def)
  qed
  have out: "\<exists>t'. conflictOut (conflictSpender n) h i t = Inr t' \<and> ?P t'" if P: "?P t" for i t
  proof -
    let ?hs = "fetchUnminedInputSpendTxHashes t (OutPoint h i)"
    have hs: "sp \<in> udom s \<and> rk h < rk sp" if "sp \<in> set ?hs" for sp
    proof -
      have "set ?hs = {y \<in> udom t. OutPoint h i \<in> set (TxIn (T y))}"
        using P unfolding unminedInv_def indexExact_def by blast
      then have "sp \<in> udom t" "OutPoint h i \<in> set (TxIn (T sp))" using that by blast+
      then show ?thesis using P universeD(3) [OF univ, of "OutPoint h i" sp] by auto
    qed
    obtain t' where "fold_err (conflictSpender n) ?hs t = Inr t'" "?P t'"
      using fold_err_total [of ?P t ?hs "conflictSpender n"] spender P hs by meson
    then show ?thesis
      using unminedInv_deleteCredit [of T t']
      by (auto simp: conflictOut_def deleteRawUnminedCredit_def)
  qed
  obtain s1 where "fold_err (conflictOut (conflictSpender n) h) (idxs (TxOut (T h))) s = Inr s1"
    using fold_err_total [of ?P s "idxs (TxOut (T h))" "conflictOut (conflictSpender n) h"] out Suc.prems(1)
    by auto
  then show ?case by (simp add: removeConflict_Suc)
qed simp

lemma conflictFuel_above: "card (above rk h s) < conflictFuel s"
proof -
  have "card (above rk h s) \<le> card (udom s)"
    by (intro card_mono) (auto simp: above_def)
  also have "\<dots> = length (ForEach (unmined s))"
    by (metis bkt.dom_get bkt.distinct_keys distinct_card length_map set_map)
  finally show ?thesis by (simp add: conflictFuel_def)
qed

lemma removeConflict_exact:
  assumes "universe isCB T rk" "unminedInv T s"
  shows "\<exists>s'. removeConflict (conflictFuel s) h (T h) s = Inr s' \<and>
    removes T (udom s) {h} s s' \<and> h \<notin> udom s' \<and> (\<forall>y \<in> udom s'. \<not> spends T h y)"
  using removeConflict_fuel [OF assms conflictFuel_above]
    removeConflict_removes [OF assms order_refl] by blast

section \<open>Removing the spenders of an outpoint\<close>

lemma removeSpender_removes:
  assumes "universe isCB T rk" "unminedInv T s" "udom s \<subseteq> U" "h \<in> H"
  shows "\<exists>s'. removeSpender h s = Inr s' \<and> removes T U H s s' \<and> h \<notin> udom s'"
proof (cases "Get (unmined s) h")
  case None
  with assms(2) show ?thesis by (auto simp: removeSpender_def removes_refl)
next
  case (Some v)
  then have "tvTx v = T h" using assms(2) by (simp add: unminedInv_def unminedKnown_def)
  moreover obtain s' where "removeConflict (conflictFuel s) h (T h) s = Inr s'"
    using removeConflict_exact [OF assms(1,2)] by blast
  moreover have "removes T U {h} s s' \<and> h \<notin> udom s'"
    using removeConflict_removes [OF assms(1-3) calculation(2)] by blast
  moreover have "{h} \<subseteq> descendants T U H" using assms(4) descendants_self by blast
  ultimately show ?thesis using Some removes_head by (fastforce simp: removeSpender_def)
qed

end
