(* ===== verification/Wtx_Ledger.thy ===== *)
theory Wtx_Ledger
  imports Wtx_Conflicts
begin

text \<open>
  The mined side of the store as three finite maps: credits \<open>C\<close>, the unspent index \<open>N\<close> and
  debits \<open>D\<close>, over a set \<open>M\<close> of mined transactions.  \<open>ledger\<close> is the consistency the store
  keeps between them; each lemma below is one of the elementary changes the handlers of
  \<^verbatim>\<open>wtxmgr/tx.go\<close> are made of, with what it does to the total of the unspent outputs.
\<close>

section \<open>Consistency\<close>

definition uniq :: "TxKey set \<Rightarrow> bool" where
  "uniq M \<longleftrightarrow> (\<forall>h b b'. (h, b) \<in> M \<longrightarrow> (h, b') \<in> M \<longrightarrow> b = b')"

definition creditsOk :: "(hash \<Rightarrow> MsgTx) \<Rightarrow> TxKey set \<Rightarrow> (CredKey \<rightharpoonup> Credit) \<Rightarrow> bool" where
  "creditsOk T M C \<longleftrightarrow>
     (\<forall>h b i c. C (h, b, i) = Some c \<longrightarrow>
        (h, b) \<in> M \<and> hasOut (T h) i \<and> credAmount c = outValue (T h) i)"

definition unspentOk :: "(CredKey \<rightharpoonup> Credit) \<Rightarrow> (OutPoint \<rightharpoonup> Block) \<Rightarrow> bool" where
  "unspentOk C N \<longleftrightarrow>
     (\<forall>h i b. N (OutPoint h i) = Some b \<longrightarrow> (\<exists>c. C (h, b, i) = Some c \<and> credSpentBy c = None))"

text \<open>A zero-valued credit whose spender was rolled back is unspent but not indexed as such
  (the handler skips it), so only the others are found in the index.\<close>

definition liveOk :: "(CredKey \<rightharpoonup> Credit) \<Rightarrow> (OutPoint \<rightharpoonup> Block) \<Rightarrow> bool" where
  "liveOk C N \<longleftrightarrow>
     (\<forall>h b i c. C (h, b, i) = Some c \<longrightarrow> credSpentBy c = None \<longrightarrow> credAmount c \<noteq> 0 \<longrightarrow>
        N (OutPoint h i) = Some b)"

definition spentOk :: "(CredKey \<rightharpoonup> Credit) \<Rightarrow> (CredKey \<rightharpoonup> Debit) \<Rightarrow> bool" where
  "spentOk C D \<longleftrightarrow>
     (\<forall>ck c dk. C ck = Some c \<longrightarrow> credSpentBy c = Some dk \<longrightarrow>
        (\<exists>d. D dk = Some d \<and> debCredKey d = ck))"

definition debitsOk ::
  "(MsgTx \<Rightarrow> bool) \<Rightarrow> (hash \<Rightarrow> MsgTx) \<Rightarrow> TxKey set \<Rightarrow> (CredKey \<rightharpoonup> Debit) \<Rightarrow> bool" where
  "debitsOk isCB T M D \<longleftrightarrow>
     (\<forall>h b j d. D (h, b, j) = Some d \<longrightarrow>
        (h, b) \<in> M \<and> \<not> isCB (T h) \<and> unat j < length (TxIn (T h)) \<and>
        TxIn (T h) ! unat j = credOut (debCredKey d))"

definition matchOk :: "(CredKey \<rightharpoonup> Credit) \<Rightarrow> (CredKey \<rightharpoonup> Debit) \<Rightarrow> bool" where
  "matchOk C D \<longleftrightarrow>
     (\<forall>dk d c. D dk = Some d \<longrightarrow> C (debCredKey d) = Some c \<longrightarrow>
        credSpentBy c = Some dk \<and> credAmount c = debAmount d)"

definition ledger ::
  "(MsgTx \<Rightarrow> bool) \<Rightarrow> (hash \<Rightarrow> MsgTx) \<Rightarrow> TxKey set \<Rightarrow> OutPoint set \<Rightarrow>
   (CredKey \<rightharpoonup> Credit) \<Rightarrow> (OutPoint \<rightharpoonup> Block) \<Rightarrow> (CredKey \<rightharpoonup> Debit) \<Rightarrow> bool" where
  "ledger isCB T M X C N D \<longleftrightarrow>
     creditsOk T M C \<and> unspentOk C N \<and> liveOk C N \<and> spentOk C D \<and> debitsOk isCB T M D \<and>
     matchOk C D \<and> (\<forall>op \<in> X. N op = None)"

lemma ledgerD:
  assumes "ledger isCB T M X C N D"
  shows "C (h, b, i) = Some c \<Longrightarrow> (h, b) \<in> M \<and> hasOut (T h) i \<and> credAmount c = outValue (T h) i"
    and "N (OutPoint h i) = Some b \<Longrightarrow> \<exists>c. C (h, b, i) = Some c \<and> credSpentBy c = None"
    and "C (h, b, i) = Some c \<Longrightarrow> credSpentBy c = None \<Longrightarrow> credAmount c \<noteq> 0 \<Longrightarrow>
      N (OutPoint h i) = Some b"
    and "C ck = Some c \<Longrightarrow> credSpentBy c = Some dk \<Longrightarrow> \<exists>d. D dk = Some d \<and> debCredKey d = ck"
    and "D (h, b, j) = Some d \<Longrightarrow>
      (h, b) \<in> M \<and> \<not> isCB (T h) \<and> unat j < length (TxIn (T h)) \<and>
      TxIn (T h) ! unat j = credOut (debCredKey d)"
    and "D dk = Some d \<Longrightarrow> C (debCredKey d) = Some c \<Longrightarrow>
      credSpentBy c = Some dk \<and> credAmount c = debAmount d"
    and "op \<in> X \<Longrightarrow> N op = None"
proof -
  have parts: "creditsOk T M C" "unspentOk C N" "liveOk C N" "spentOk C D" "debitsOk isCB T M D"
    "matchOk C D" "\<forall>op \<in> X. N op = None"
    using assms by (simp_all add: ledger_def)
  show "C (h, b, i) = Some c \<Longrightarrow> (h, b) \<in> M \<and> hasOut (T h) i \<and> credAmount c = outValue (T h) i"
    using parts(1) unfolding creditsOk_def by blast
  show "N (OutPoint h i) = Some b \<Longrightarrow> \<exists>c. C (h, b, i) = Some c \<and> credSpentBy c = None"
    using parts(2) unfolding unspentOk_def by blast
  show "C (h, b, i) = Some c \<Longrightarrow> credSpentBy c = None \<Longrightarrow> credAmount c \<noteq> 0 \<Longrightarrow>
      N (OutPoint h i) = Some b"
    using parts(3) unfolding liveOk_def by blast
  show "C ck = Some c \<Longrightarrow> credSpentBy c = Some dk \<Longrightarrow> \<exists>d. D dk = Some d \<and> debCredKey d = ck"
    using parts(4) unfolding spentOk_def by blast
  show "D (h, b, j) = Some d \<Longrightarrow>
      (h, b) \<in> M \<and> \<not> isCB (T h) \<and> unat j < length (TxIn (T h)) \<and>
      TxIn (T h) ! unat j = credOut (debCredKey d)"
    using parts(5) unfolding debitsOk_def by blast
  show "D dk = Some d \<Longrightarrow> C (debCredKey d) = Some c \<Longrightarrow>
      credSpentBy c = Some dk \<and> credAmount c = debAmount d"
    using parts(6) unfolding matchOk_def by blast
  show "op \<in> X \<Longrightarrow> N op = None" using parts(7) by blast
qed

lemma ledgerI:
  assumes "\<And>h b i c. C (h, b, i) = Some c \<Longrightarrow>
      (h, b) \<in> M \<and> hasOut (T h) i \<and> credAmount c = outValue (T h) i"
    and "\<And>h i b. N (OutPoint h i) = Some b \<Longrightarrow> \<exists>c. C (h, b, i) = Some c \<and> credSpentBy c = None"
    and "\<And>h b i c. C (h, b, i) = Some c \<Longrightarrow> credSpentBy c = None \<Longrightarrow> credAmount c \<noteq> 0 \<Longrightarrow>
      N (OutPoint h i) = Some b"
    and "\<And>ck c dk. C ck = Some c \<Longrightarrow> credSpentBy c = Some dk \<Longrightarrow>
      \<exists>d. D dk = Some d \<and> debCredKey d = ck"
    and "\<And>h b j d. D (h, b, j) = Some d \<Longrightarrow>
      (h, b) \<in> M \<and> \<not> isCB (T h) \<and> unat j < length (TxIn (T h)) \<and>
      TxIn (T h) ! unat j = credOut (debCredKey d)"
    and "\<And>dk d c. D dk = Some d \<Longrightarrow> C (debCredKey d) = Some c \<Longrightarrow>
      credSpentBy c = Some dk \<and> credAmount c = debAmount d"
    and "\<And>op. op \<in> X \<Longrightarrow> N op = None"
  shows "ledger isCB T M X C N D"
proof -
  have "creditsOk T M C" unfolding creditsOk_def using assms(1) by blast
  moreover have "unspentOk C N" unfolding unspentOk_def using assms(2) by blast
  moreover have "liveOk C N" unfolding liveOk_def using assms(3) by blast
  moreover have "spentOk C D" unfolding spentOk_def using assms(4) by blast
  moreover have "debitsOk isCB T M D" unfolding debitsOk_def using assms(5) by blast
  moreover have "matchOk C D" unfolding matchOk_def using assms(6) by blast
  moreover have "\<forall>op \<in> X. N op = None" using assms(7) by blast
  ultimately show ?thesis unfolding ledger_def by blast
qed

definition opValue :: "(hash \<Rightarrow> MsgTx) \<Rightarrow> OutPoint \<Rightarrow> amount" where
  "opValue T op = outValue (T (opHash op)) (opIndex op)"

definition utxoTotal :: "(hash \<Rightarrow> MsgTx) \<Rightarrow> (OutPoint \<rightharpoonup> Block) \<Rightarrow> amount" where
  "utxoTotal T N = (\<Sum>op \<in> dom N. opValue T op)"

lemma ledger_unspent_unique:
  assumes "ledger isCB T M X C N D" "uniq M" "(h, b) \<in> M" "N (OutPoint h i) = Some b'"
  shows "b' = b"
  using assms ledgerD(1,2) unfolding uniq_def by meson

section \<open>Elementary changes\<close>

text \<open>A mined input spends an unspent credit.\<close>

lemma ledger_spend:
  assumes L: "ledger isCB T M X C N D" and u: "uniq M"
    and op: "N op = Some bk" "ck = (opHash op, bk, opIndex op)" "C ck = Some c"
    and dk: "dk = (h, b, j)" "(h, b) \<in> M" "\<not> isCB (T h)" "unat j < length (TxIn (T h))"
      "TxIn (T h) ! unat j = op" "D dk = None"
  shows "ledger isCB T M (insert op X) (C(ck \<mapsto> c\<lparr>credSpentBy := Some dk\<rparr>)) (N(op := None))
      (D(dk \<mapsto> \<lparr>debAmount = credAmount c, debCredKey = ck\<rparr>))"
proof (rule ledgerI)
  have unspent: "credSpentBy c = None"
    using ledgerD(2) [OF L, of "opHash op" "opIndex op" bk] op by auto
  fix h' b' i' c'
  assume c': "(C(ck \<mapsto> c\<lparr>credSpentBy := Some dk\<rparr>)) (h', b', i') = Some c'"
  then show "(h', b') \<in> M \<and> hasOut (T h') i' \<and> credAmount c' = outValue (T h') i'"
    using op ledgerD(1) [OF L] by (auto split: if_splits)
  assume "credSpentBy c' = None" "credAmount c' \<noteq> 0"
  with c' have "N (OutPoint h' i') = Some b'" "(h', b', i') \<noteq> ck" "(h', b') \<in> M"
    using ledgerD(1,3) [OF L] by (auto split: if_splits)
  moreover have "OutPoint h' i' \<noteq> op" using calculation op by auto
  ultimately show "(N(op := None)) (OutPoint h' i') = Some b'" by simp
next
  fix h' i' b' assume "(N(op := None)) (OutPoint h' i') = Some b'"
  then have "OutPoint h' i' \<noteq> op" "N (OutPoint h' i') = Some b'" by (auto split: if_splits)
  moreover have "(h', b', i') \<noteq> ck" using calculation op by auto
  ultimately show "\<exists>c'. (C(ck \<mapsto> c\<lparr>credSpentBy := Some dk\<rparr>)) (h', b', i') = Some c' \<and>
      credSpentBy c' = None"
    using ledgerD(2) [OF L] by auto
next
  fix ck' c' dk'
  assume "(C(ck \<mapsto> c\<lparr>credSpentBy := Some dk\<rparr>)) ck' = Some c'" "credSpentBy c' = Some dk'"
  then show "\<exists>d. (D(dk \<mapsto> \<lparr>debAmount = credAmount c, debCredKey = ck\<rparr>)) dk' = Some d \<and>
      debCredKey d = ck'"
    using ledgerD(4) [OF L, of ck' c' dk'] dk(6) by (auto split: if_splits)
next
  fix h' b' j' d assume "(D(dk \<mapsto> \<lparr>debAmount = credAmount c, debCredKey = ck\<rparr>)) (h', b', j') = Some d"
  then show "(h', b') \<in> M \<and> \<not> isCB (T h') \<and> unat j' < length (TxIn (T h')) \<and>
      TxIn (T h') ! unat j' = credOut (debCredKey d)"
    using ledgerD(5) [OF L, of h' b' j' d] dk op by (auto split: if_splits)
next
  fix dk' d c'
  assume *: "(D(dk \<mapsto> \<lparr>debAmount = credAmount c, debCredKey = ck\<rparr>)) dk' = Some d"
    "(C(ck \<mapsto> c\<lparr>credSpentBy := Some dk\<rparr>)) (debCredKey d) = Some c'"
  have "credSpentBy c = None"
    using ledgerD(2) [OF L, of "opHash op" "opIndex op" bk] op by auto
  then show "credSpentBy c' = Some dk' \<and> credAmount c' = debAmount d"
    using * ledgerD(6) [OF L, of dk' d] op by (cases "dk' = dk") (auto split: if_splits)
next
  fix op' assume "op' \<in> insert op X"
  then show "(N(op := None)) op' = None" using ledgerD(7) [OF L] by auto
qed

text \<open>A new unspent credit.\<close>

lemma ledger_add:
  assumes L: "ledger isCB T M X C N D" and u: "uniq M"
    and hb: "(h, b) \<in> M" "hasOut (T h) i" "C (h, b, i) = None" "OutPoint h i \<notin> X"
    and D: "\<And>dk d. D dk = Some d \<Longrightarrow> credOut (debCredKey d) \<in> X"
    and c: "credAmount c = outValue (T h) i" "credSpentBy c = None"
  shows "ledger isCB T M X (C((h, b, i) \<mapsto> c)) (N(OutPoint h i \<mapsto> b)) D"
proof (rule ledgerI)
  have D': "debCredKey d \<noteq> (h, b, i)" if "D dk = Some d" for dk d
    using D [OF that] hb(4) by (metis credOut_simp)
  fix h' b' i' c' assume c': "(C((h, b, i) \<mapsto> c)) (h', b', i') = Some c'"
  then show "(h', b') \<in> M \<and> hasOut (T h') i' \<and> credAmount c' = outValue (T h') i'"
    using ledgerD(1) [OF L, of h' b' i' c'] hb c by (auto split: if_splits)
  then have "(h', b') \<in> M" by blast
  assume "credSpentBy c' = None" "credAmount c' \<noteq> 0"
  then show "(N(OutPoint h i \<mapsto> b)) (OutPoint h' i') = Some b'"
    using c' ledgerD(3) [OF L, of h' b' i' c'] hb u \<open>(h', b') \<in> M\<close> unfolding uniq_def
    by (auto split: if_splits)
next
  fix h' i' b' assume "(N(OutPoint h i \<mapsto> b)) (OutPoint h' i') = Some b'"
  then show "\<exists>c'. (C((h, b, i) \<mapsto> c)) (h', b', i') = Some c' \<and> credSpentBy c' = None"
    using ledgerD(2) [OF L, of h' i' b'] c hb by (auto split: if_splits)
next
  fix ck' c' dk' assume "(C((h, b, i) \<mapsto> c)) ck' = Some c'" "credSpentBy c' = Some dk'"
  then show "\<exists>d. D dk' = Some d \<and> debCredKey d = ck'"
    using ledgerD(4) [OF L, of ck' c' dk'] c by (auto split: if_splits)
next
  fix dk' d c' assume "D dk' = Some d" "(C((h, b, i) \<mapsto> c)) (debCredKey d) = Some c'"
  moreover have "debCredKey d \<noteq> (h, b, i)" using D [OF calculation(1)] hb(4) by (metis credOut_simp)
  ultimately show "credSpentBy c' = Some dk' \<and> credAmount c' = debAmount d"
    using ledgerD(6) [OF L, of dk' d c'] by simp
qed (use ledgerD(5,7) [OF L] hb(4) in auto)

text \<open>A debit is taken back; its credit, if it is still there, becomes unspent again.\<close>

lemma ledger_undebit:
  assumes L: "ledger isCB T M X C N D" and dk: "D dk = Some d" "C (debCredKey d) = None"
  shows "ledger isCB T M X C N (D(dk := None))"
proof (rule ledgerI)
  fix ck c dk' assume "C ck = Some c" "credSpentBy c = Some dk'"
  then show "\<exists>d. (D(dk := None)) dk' = Some d \<and> debCredKey d = ck"
    using ledgerD(4) [OF L, of ck c dk'] dk by auto
qed (use ledgerD(1,2,3,5,6,7) [OF L] in \<open>auto split: if_splits\<close>)

lemma ledger_unspend:
  assumes L: "ledger isCB T M X C N D" and u: "uniq M"
    and dk: "D dk = Some d" "debCredKey d = (h, b, i)" "C (h, b, i) = Some c"
    and N': "N' = (if credAmount c = 0 then N else N(OutPoint h i \<mapsto> b))"
  shows "ledger isCB T M (X - {OutPoint h i}) (C((h, b, i) \<mapsto> c\<lparr>credSpentBy := None\<rparr>)) N' (D(dk := None))"
proof (rule ledgerI)
  have s: "credSpentBy c = Some dk" using ledgerD(6) [OF L dk(1)] dk by auto
  have other: "debCredKey d' \<noteq> (h, b, i)" if "D dk' = Some d'" "dk' \<noteq> dk" for dk' d'
    using ledgerD(6) [OF L that(1)] that(2) dk s by auto
  fix h' b' i' c' assume c': "(C((h, b, i) \<mapsto> c\<lparr>credSpentBy := None\<rparr>)) (h', b', i') = Some c'"
  then show m: "(h', b') \<in> M \<and> hasOut (T h') i' \<and> credAmount c' = outValue (T h') i'"
    using ledgerD(1) [OF L] dk(3) by (auto split: if_splits)
  assume z: "credSpentBy c' = None" "credAmount c' \<noteq> 0"
  show "N' (OutPoint h' i') = Some b'"
  proof (cases "(h', b', i') = (h, b, i)")
    case True
    with c' z show ?thesis by (auto simp: N')
  next
    case False
    with c' have "C (h', b', i') = Some c'" by auto
    then have "N (OutPoint h' i') = Some b'" using z ledgerD(3) [OF L] by blast
    moreover have "OutPoint h' i' \<noteq> OutPoint h i"
      using False u m ledgerD(1) [OF L dk(3)] unfolding uniq_def by blast
    ultimately show ?thesis by (auto simp: N')
  qed
next
  fix h' i' b' assume n: "N' (OutPoint h' i') = Some b'"
  show "\<exists>c'. (C((h, b, i) \<mapsto> c\<lparr>credSpentBy := None\<rparr>)) (h', b', i') = Some c' \<and> credSpentBy c' = None"
    using n ledgerD(2) [OF L, of h' i' b'] by (auto simp: N' split: if_splits)
next
  fix ck' c' dk'
  assume "(C((h, b, i) \<mapsto> c\<lparr>credSpentBy := None\<rparr>)) ck' = Some c'" "credSpentBy c' = Some dk'"
  then have "C ck' = Some c'" "credSpentBy c' = Some dk'" "ck' \<noteq> (h, b, i)"
    by (auto split: if_splits)
  then show "\<exists>d. (D(dk := None)) dk' = Some d \<and> debCredKey d = ck'"
    using ledgerD(4) [OF L, of ck' c' dk'] dk by auto
next
  fix h' b' j' d' assume "(D(dk := None)) (h', b', j') = Some d'"
  then show "(h', b') \<in> M \<and> \<not> isCB (T h') \<and> unat j' < length (TxIn (T h')) \<and>
      TxIn (T h') ! unat j' = credOut (debCredKey d')"
    using ledgerD(5) [OF L] by (auto split: if_splits)
next
  fix dk' d' c'
  assume *: "(D(dk := None)) dk' = Some d'"
    "(C((h, b, i) \<mapsto> c\<lparr>credSpentBy := None\<rparr>)) (debCredKey d') = Some c'"
  have "credSpentBy c = Some dk" using ledgerD(6) [OF L dk(1)] dk by auto
  then have "debCredKey d' \<noteq> (h, b, i)"
    using * ledgerD(6) [OF L, of dk' d'] dk by (auto split: if_splits)
  then show "credSpentBy c' = Some dk' \<and> credAmount c' = debAmount d'"
    using * ledgerD(6) [OF L, of dk' d'] by (auto split: if_splits)
next
  fix op assume "op \<in> X - {OutPoint h i}"
  then show "N' op = None" using ledgerD(7) [OF L] by (auto simp: N')
qed

text \<open>A credit goes away with its entry in the unspent index.\<close>

lemma ledger_remove:
  assumes L: "ledger isCB T M X C N D" and u: "uniq M" and hb: "(h, b) \<in> M"
  shows "ledger isCB T M X (C((h, b, i) := None)) (N(OutPoint h i := None)) D"
proof (rule ledgerI)
  fix h' b' i' c'
  assume c': "(C((h, b, i) := None)) (h', b', i') = Some c'" "credSpentBy c' = None" "credAmount c' \<noteq> 0"
  then have "C (h', b', i') = Some c'" by (auto split: if_splits)
  then have "N (OutPoint h' i') = Some b'" "(h', b') \<in> M"
    using ledgerD(1,3) [OF L] c' by blast+
  moreover have "OutPoint h' i' \<noteq> OutPoint h i"
    using c' u hb calculation(2) unfolding uniq_def by (auto split: if_splits)
  ultimately show "(N(OutPoint h i := None)) (OutPoint h' i') = Some b'" by simp
next
  fix h' i' b' assume "(N(OutPoint h i := None)) (OutPoint h' i') = Some b'"
  then have "OutPoint h' i' \<noteq> OutPoint h i" "N (OutPoint h' i') = Some b'" by (auto split: if_splits)
  then show "\<exists>c'. (C((h, b, i) := None)) (h', b', i') = Some c' \<and> credSpentBy c' = None"
    using ledgerD(2) [OF L] by auto
qed (use ledgerD(1,4,5,6,7) [OF L] in \<open>auto split: if_splits\<close>)

text \<open>The mined set and the spent set may be adjusted where nothing refers to the difference.\<close>

lemma ledger_grow: "ledger isCB T M X C N D \<Longrightarrow> M \<subseteq> M' \<Longrightarrow> X' \<subseteq> X \<Longrightarrow> ledger isCB T M' X' C N D"
  unfolding ledger_def creditsOk_def debitsOk_def by blast

lemma ledger_shrink:
  assumes "ledger isCB T M X C N D" and "\<And>i. C (h, b, i) = None" and "\<And>j. D (h, b, j) = None"
  shows "ledger isCB T (M - {(h, b)}) X C N D"
  using assms unfolding ledger_def creditsOk_def debitsOk_def by (auto; metis option.distinct(1))

section \<open>Totals\<close>

lemma total_add: "finite (dom N) \<Longrightarrow> N op = None \<Longrightarrow> utxoTotal T (N(op \<mapsto> b)) = utxoTotal T N + opValue T op"
  by (simp add: utxoTotal_def domIff)

lemma total_remove: "finite (dom N) \<Longrightarrow> N op = Some b \<Longrightarrow> utxoTotal T (N(op := None)) = utxoTotal T N - opValue T op"
  by (simp add: utxoTotal_def domI sum_diff1)

end
