(* ===== verification/Wtx_Inv.thy ===== *)
theory Wtx_Inv
  imports Wtx_Ledger
begin

text \<open>
  The invariant of the transaction store and the loops of its handlers on the mined side.
\<close>

section \<open>The store invariant\<close>

abbreviation mdom :: "ns \<Rightarrow> TxKey set" where
  "mdom s \<equiv> dom (Get (txRecords s))"

text \<open>The outpoints that the transactions of \<open>M\<close> spend (a coinbase spends none).\<close>

definition spentBy :: "(MsgTx \<Rightarrow> bool) \<Rightarrow> (hash \<Rightarrow> MsgTx) \<Rightarrow> TxKey set \<Rightarrow> OutPoint set" where
  "spentBy isCB T M = {op. \<exists>h b. (h, b) \<in> M \<and> \<not> isCB (T h) \<and> op \<in> set (TxIn (T h))}"

definition noDouble :: "(MsgTx \<Rightarrow> bool) \<Rightarrow> (hash \<Rightarrow> MsgTx) \<Rightarrow> TxKey set \<Rightarrow> bool" where
  "noDouble isCB T M \<longleftrightarrow>
     (\<forall>h b h' b' op. (h, b) \<in> M \<longrightarrow> (h', b') \<in> M \<longrightarrow> \<not> isCB (T h) \<longrightarrow> \<not> isCB (T h') \<longrightarrow>
        op \<in> set (TxIn (T h)) \<longrightarrow> op \<in> set (TxIn (T h')) \<longrightarrow> h = h')"

abbreviation ledgerOf ::
  "(MsgTx \<Rightarrow> bool) \<Rightarrow> (hash \<Rightarrow> MsgTx) \<Rightarrow> TxKey set \<Rightarrow> OutPoint set \<Rightarrow> ns \<Rightarrow> bool" where
  "ledgerOf isCB T M X s \<equiv> ledger isCB T M X (Get (credits s)) (Get (unspent s)) (Get (debits s))"

text \<open>Every transaction listed in a block record is stored in that block, and conversely.\<close>

definition blocksOk :: "ns \<Rightarrow> bool" where
  "blocksOk s \<longleftrightarrow>
     (\<forall>ht br. Get (blocks s) ht = Some br \<longrightarrow> 0 \<le> sint ht \<and> distinct (transactions br) \<and>
        (\<forall>h \<in> set (transactions br). (h, Block ht (brHash br)) \<in> mdom s)) \<and>
     (\<forall>h b. (h, b) \<in> mdom s \<longrightarrow>
        (\<exists>br. Get (blocks s) (bHeight b) = Some br \<and> brHash br = bHash b \<and> h \<in> set (transactions br)))"

definition minedKnown :: "(hash \<Rightarrow> MsgTx) \<Rightarrow> ns \<Rightarrow> bool" where
  "minedKnown T s \<longleftrightarrow> (\<forall>h b v. Get (txRecords s) (h, b) = Some v \<longrightarrow> tvTx v = T h)"

definition labelsOk :: "ns \<Rightarrow> bool" where
  "labelsOk s \<longleftrightarrow>
     (\<forall>b h v. txLabels s = Some b \<longrightarrow> Get b h = Some v \<longrightarrow> (\<exists>l. DeserializeLabel v = Inr l))"

text \<open>No transaction is both mined and unmined.\<close>

definition disjointOk :: "ns \<Rightarrow> bool" where
  "disjointOk s \<longleftrightarrow> (\<forall>h b. (h, b) \<in> mdom s \<longrightarrow> h \<notin> udom s)"

definition storeInv :: "(MsgTx \<Rightarrow> bool) \<Rightarrow> (hash \<Rightarrow> MsgTx) \<Rightarrow> ns \<Rightarrow> bool" where
  "storeInv isCB T s \<longleftrightarrow>
     minedKnown T s \<and> uniq (mdom s) \<and> noDouble isCB T (mdom s) \<and> blocksOk s \<and>
     ledgerOf isCB T (mdom s) (spentBy isCB T (mdom s)) s \<and>
     minedBalance s = utxoTotal T (Get (unspent s)) \<and>
     disjointOk s \<and> unminedInv T s \<and> labelsOk s"

lemma storeInv_create: "storeInv isCB T createStore"
  by (simp add: storeInv_def createStore_def minedKnown_def uniq_def noDouble_def blocksOk_def
      ledger_def creditsOk_def unspentOk_def liveOk_def spentOk_def debitsOk_def matchOk_def
      utxoTotal_def disjointOk_def unminedInv_def unminedKnown_def indexExact_def
      fetchUnminedInputSpendTxHashes_def unminedCreditsOk_def labelsOk_def)

section \<open>Frames\<close>

text \<open>Only the credits, the unspent index and the debits differ.\<close>

definition sameBase :: "ns \<Rightarrow> ns \<Rightarrow> bool" where
  "sameBase s s' \<longleftrightarrow> s'\<lparr>credits := credits s, unspent := unspent s, debits := debits s\<rparr> = s"

lemma sameBase_refl [simp]: "sameBase s s"
  by (simp add: sameBase_def)

lemma sameBase_trans: "sameBase s s' \<Longrightarrow> sameBase s' s'' \<Longrightarrow> sameBase s s''"
  by (cases s; cases s'; cases s'') (simp add: sameBase_def)

lemma sameBaseD:
  assumes "sameBase s s'"
  shows "blocks s' = blocks s" "txRecords s' = txRecords s" "txLabels s' = txLabels s"
    "unmined s' = unmined s" "unminedCredits s' = unminedCredits s"
    "unminedInputs s' = unminedInputs s"
    "lockedOutputs s' = lockedOutputs s" "minedBalance s' = minedBalance s"
  using assms by (cases s; cases s'; simp add: sameBase_def)+

section \<open>Spending the inputs of a mined transaction\<close>

lemma spendInput_step:
  assumes univ: "universe isCB T rk"
    and L: "ledgerOf isCB T M X s" and u: "uniq M" and bal: "bal = utxoTotal T (Get (unspent s))"
    and hb: "(h, b) \<in> M" "\<not> isCB (T h)" "j < length (TxIn (T h))" "TxIn (T h) ! j = op"
    and fresh: "Get (debits s) (h, b, of_nat j) = None"
    and s': "spendInput h b (j, op) (s, bal) = (s', bal')"
  shows "ledgerOf isCB T M (insert op X) s' \<and> bal' = utxoTotal T (Get (unspent s')) \<and>
    dom (Get (credits s')) = dom (Get (credits s)) \<and>
    (\<forall>k. k \<noteq> (h, b, of_nat j) \<longrightarrow> Get (debits s') k = Get (debits s) k) \<and> sameBase s s'"
proof (cases "Get (unspent s) op")
  case None
  with s' have "s' = s" "bal' = bal" by (simp_all add: spendInput_def existsUnspent_def)
  with None L bal show ?thesis by (auto simp: ledger_def)
next
  case (Some bk)
  let ?ck = "(opHash op, bk, opIndex op)"
  have j: "unat (of_nat j :: uint32) = j"
    using hb(3) universeD(2) [OF univ, of h] by (simp add: unat_of_nat)
  obtain c where c: "Get (credits s) ?ck = Some c"
    using ledgerD(2) [OF L, of "opHash op" "opIndex op" bk] Some by auto
  have amt: "credAmount c = opValue T op" using ledgerD(1) [OF L c] by (simp add: opValue_def)
  have s'eq: "s' = s\<lparr>credits := Put (credits s) ?ck (c\<lparr>credSpentBy := Some (h, b, of_nat j)\<rparr>),
      debits := Put (debits s) (h, b, of_nat j) \<lparr>debAmount = credAmount c, debCredKey = ?ck\<rparr>,
      unspent := Delete (unspent s) op\<rparr>" and bal': "bal' = bal - credAmount c"
    using s' Some c by (simp_all add: spendInput_def existsUnspent_def spendCredit_def putDebit_def
        deleteRawUnspent_def Let_def)
  have "ledgerOf isCB T M (insert op X) s'"
    unfolding s'eq using ledger_spend [OF L u Some refl c refl hb(1,2) _ _ fresh] hb(3,4) j by simp
  moreover have "bal' = utxoTotal T (Get (unspent s'))"
    unfolding s'eq using total_remove [of "Get (unspent s)" op bk] Some bal bal' amt by simp
  moreover have "dom (Get (credits s')) = dom (Get (credits s))"
    unfolding s'eq using c by (auto split: if_splits)
  ultimately show ?thesis by (simp add: s'eq sameBase_def)
qed

lemma spend_loop:
  assumes univ: "universe isCB T rk" and u: "uniq M" and hb: "(h, b) \<in> M" "\<not> isCB (T h)"
  shows "ledgerOf isCB T M X s \<Longrightarrow> bal = utxoTotal T (Get (unspent s)) \<Longrightarrow>
    drop n (TxIn (T h)) = ops \<Longrightarrow>
    (\<And>k. n \<le> k \<Longrightarrow> k < length (TxIn (T h)) \<Longrightarrow> Get (debits s) (h, b, of_nat k) = None) \<Longrightarrow>
    fold (spendInput h b) (enumerate n ops) (s, bal) = (s', bal') \<Longrightarrow>
    ledgerOf isCB T M (X \<union> set ops) s' \<and> bal' = utxoTotal T (Get (unspent s')) \<and>
    dom (Get (credits s')) = dom (Get (credits s)) \<and> sameBase s s'"
proof (induction ops arbitrary: n s bal X)
  case (Cons op ops)
  obtain s1 bal1 where s1: "spendInput h b (n, op) (s, bal) = (s1, bal1)" by force
  have n: "n < length (TxIn (T h))" "TxIn (T h) ! n = op" "drop (Suc n) (TxIn (T h)) = ops"
    using Cons.prems(3) by (metis drop_eq_Nil leI list.distinct(1))
      (metis Cons.prems(3) hd_drop_conv_nth list.sel(1) drop_eq_Nil leI list.distinct(1),
       metis Cons.prems(3) drop_Suc list.sel(3) tl_drop)
  note st = spendInput_step [OF univ Cons.prems(1) u Cons.prems(2) hb n(1,2) Cons.prems(4) [OF _ n(1)] s1]
  have inj: "(of_nat k :: uint32) \<noteq> of_nat n" if "k < length (TxIn (T h))" "k \<noteq> n" for k
    using that n(1) universeD(2) [OF univ, of h]
    by (simp add: word_of_nat_eq_iff take_bit_nat_eq_self)
  have "ledgerOf isCB T M (insert op X \<union> set ops) s' \<and> bal' = utxoTotal T (Get (unspent s')) \<and>
    dom (Get (credits s')) = dom (Get (credits s1)) \<and> sameBase s1 s'"
  proof (rule Cons.IH [of _ s1 bal1 "Suc n"])
    show "fold (spendInput h b) (enumerate (Suc n) ops) (s1, bal1) = (s', bal')"
      using Cons.prems(5) s1 by simp
    show "Get (debits s1) (h, b, of_nat k) = None" if "Suc n \<le> k" "k < length (TxIn (T h))" for k
      using st that inj [of k] Cons.prems(4) [of k] by auto
  qed (use st n in auto)
  with st show ?case using sameBase_trans by auto
qed simp

lemma spend_none:
  assumes "\<And>op. op \<in> set ops \<Longrightarrow> Get (unspent s) op = None"
  shows "fold (spendInput h b) (enumerate n ops) (s, bal) = (s, bal)"
  using assms by (induction ops arbitrary: n) (auto simp: spendInput_def existsUnspent_def)

section \<open>Confirming the credits of a transaction\<close>

lemma moveCredit_step:
  assumes L: "ledgerOf isCB T M X s" and u: "uniq M" and bal: "bal = utxoTotal T (Get (unspent s))"
    and hb: "(h, b) \<in> M" "hasOut (T h) i" "Get (credits s) (h, b, i) = None" "OutPoint h i \<notin> X"
    and D: "\<And>dk d. Get (debits s) dk = Some d \<Longrightarrow> credOut (debCredKey d) \<in> X"
    and c: "ucAmount c = outValue (T h) i"
    and s': "moveCredit h b (OutPoint h i, c) (s, bal) = (s', bal')"
  shows "ledgerOf isCB T M X s' \<and> bal' = utxoTotal T (Get (unspent s')) \<and> sameBase s s' \<and>
    debits s' = debits s \<and>
    Get (credits s') = (Get (credits s))((h, b, i) \<mapsto>
      \<lparr>credAmount = ucAmount c, credChange = ucChange c, credSpentBy = None\<rparr>)"
proof -
  have s'eq: "s' = s\<lparr>credits := Put (credits s) (h, b, i)
        \<lparr>credAmount = ucAmount c, credChange = ucChange c, credSpentBy = None\<rparr>,
      unspent := Put (unspent s) (OutPoint h i) b\<rparr>" and bal': "bal' = bal + ucAmount c"
    using s' by (simp_all add: moveCredit_def putUnspentCredit_def putUnspent_def Let_def)
  have "Get (unspent s) (OutPoint h i) = None"
  proof (cases "Get (unspent s) (OutPoint h i)")
    case (Some b')
    then have "b' = b" using ledger_unspent_unique [OF L u hb(1)] by blast
    with Some ledgerD(2) [OF L] hb(3) show ?thesis by fastforce
  qed
  then have "bal' = utxoTotal T (Get (unspent s'))"
    unfolding s'eq using total_add [of "Get (unspent s)" "OutPoint h i" T b] bal bal' c
    by (simp add: opValue_def)
  moreover have "ledgerOf isCB T M X s'"
    unfolding s'eq using ledger_add [OF L u hb D] c by simp
  ultimately show ?thesis by (simp add: s'eq sameBase_def)
qed

lemma move_loop:
  assumes u: "uniq M" and hb: "(h, b) \<in> M" and X: "\<And>i. OutPoint h i \<notin> X"
  shows "ledgerOf isCB T M X s \<Longrightarrow> bal = utxoTotal T (Get (unspent s)) \<Longrightarrow>
    (\<And>dk d. Get (debits s) dk = Some d \<Longrightarrow> credOut (debCredKey d) \<in> X) \<Longrightarrow>
    distinct (map fst kcs) \<Longrightarrow>
    (\<And>op c. (op, c) \<in> set kcs \<Longrightarrow> opHash op = h \<and> hasOut (T h) (opIndex op) \<and>
       ucAmount c = outValue (T h) (opIndex op) \<and> Get (credits s) (h, b, opIndex op) = None) \<Longrightarrow>
    fold (moveCredit h b) kcs (s, bal) = (s', bal') \<Longrightarrow>
    ledgerOf isCB T M X s' \<and> bal' = utxoTotal T (Get (unspent s')) \<and> sameBase s s' \<and>
    Get (credits s') = Get (credits s) ++
      (\<lambda>(h', b', i). if h' = h \<and> b' = b then map_option
         (\<lambda>c. \<lparr>credAmount = ucAmount c, credChange = ucChange c, credSpentBy = None\<rparr>)
         (map_of kcs (OutPoint h i)) else None)"
proof (induction kcs arbitrary: s bal)
  case Nil
  then show ?case by (auto simp: fun_eq_iff map_add_def split: option.splits)
next
  case (Cons kc kcs)
  obtain op c where kc: "kc = (op, c)" by force
  have kcp: "opHash op = h \<and> hasOut (T h) (opIndex op) \<and>
       ucAmount c = outValue (T h) (opIndex op) \<and> Get (credits s) (h, b, opIndex op) = None"
    using Cons.prems(5) [of op c] by (simp add: kc)
  obtain i where i: "op = OutPoint h i" using kcp by (cases op) simp
  obtain s1 bal1 where s1: "moveCredit h b (OutPoint h i, c) (s, bal) = (s1, bal1)" by force
  have st': "ledgerOf isCB T M X s1 \<and> bal1 = utxoTotal T (Get (unspent s1)) \<and> sameBase s s1 \<and>
    debits s1 = debits s \<and> Get (credits s1) = (Get (credits s))((h, b, i) \<mapsto>
      \<lparr>credAmount = ucAmount c, credChange = ucChange c, credSpentBy = None\<rparr>)"
    by (rule moveCredit_step [OF Cons.prems(1) u Cons.prems(2) hb _ _ X _ _ s1])
      (use kcp i Cons.prems(3) in auto)
  have r: "ledgerOf isCB T M X s' \<and> bal' = utxoTotal T (Get (unspent s')) \<and> sameBase s1 s' \<and>
    Get (credits s') = Get (credits s1) ++
      (\<lambda>(h', b', i). if h' = h \<and> b' = b then map_option
         (\<lambda>c. \<lparr>credAmount = ucAmount c, credChange = ucChange c, credSpentBy = None\<rparr>)
         (map_of kcs (OutPoint h i)) else None)"
  proof (rule Cons.IH)
    show "fold (moveCredit h b) kcs (s1, bal1) = (s', bal')" using Cons.prems(6) s1 kc i by simp
    show "opHash op' = h \<and> hasOut (T h) (opIndex op') \<and>
       ucAmount c' = outValue (T h) (opIndex op') \<and> Get (credits s1) (h, b, opIndex op') = None"
      if "(op', c') \<in> set kcs" for op' c'
    proof -
      have "opHash op' = h \<and> hasOut (T h) (opIndex op') \<and>
         ucAmount c' = outValue (T h) (opIndex op') \<and> Get (credits s) (h, b, opIndex op') = None"
        by (rule Cons.prems(5)) (simp add: that)
      moreover have "op' \<noteq> op" using Cons.prems(4) that kc by force
      ultimately show ?thesis using st' i by (cases op') auto
    qed
    show "distinct (map fst kcs)" using Cons.prems(4) by simp
    show "ledgerOf isCB T M X s1" "bal1 = utxoTotal T (Get (unspent s1))" using st' by blast+
    show "credOut (debCredKey d) \<in> X" if "Get (debits s1) dk = Some d" for dk d
      using that st' Cons.prems(3) by simp
  qed
  have nth: "map_of kcs (OutPoint h i) = None"
    using Cons.prems(4) kc i by (auto simp: map_of_eq_None_iff)
  have "Get (credits s') = Get (credits s) ++
      (\<lambda>(h', b', i). if h' = h \<and> b' = b then map_option
         (\<lambda>c. \<lparr>credAmount = ucAmount c, credChange = ucChange c, credSpentBy = None\<rparr>)
         (map_of (kc # kcs) (OutPoint h i)) else None)"
    using r st' nth kc i by (auto simp: fun_eq_iff map_add_def split: option.splits)
  with r st' show ?case using sameBase_trans by blast
qed

end
