(* ===== verification/Wtx_Insert.thy ===== *)
theory Wtx_Insert
  imports Wtx_Inv
begin

text \<open>
  Inserting transactions: \<open>updateMinedBalance\<close>, \<open>deleteUnminedTx\<close>, \<open>removeDoubleSpends\<close> and
  \<open>insertMinedTx\<close>, \<open>insertMemPoolTx\<close> and \<open>AddCredit\<close> keep the store invariant.
\<close>

section \<open>The credits of one unmined transaction\<close>

lemma unminedCreditsOf_filter:
  "unminedCreditsOf s h = filter (\<lambda>(op, c). opHash op = h) (ForEach (unminedCredits s))"
  unfolding unminedCreditsOf_def
proof (rule scan_filter)
  fix x assume "opHash x = h"
  then show "OutPoint h 0 \<le> x" by (cases x) (simp add: less_eq_OutPoint_def)
next
  fix x y assume "OutPoint h 0 \<le> x" "x \<le> y" "opHash y = h"
  then show "opHash x = h" by (cases x; cases y) (auto simp: less_eq_OutPoint_def)
qed

lemma unminedCreditsOf_iff:
  "(op, c) \<in> set (unminedCreditsOf s h) \<longleftrightarrow> opHash op = h \<and> Get (unminedCredits s) op = Some c"
  by (auto simp: unminedCreditsOf_filter bkt.forEach_iff)

lemma unminedCreditsOf_distinct: "distinct (map fst (unminedCreditsOf s h))"
  unfolding unminedCreditsOf_filter by (simp add: distinct_map_filter bkt.distinct_keys)

lemma unminedCreditsOf_map: "map_of (unminedCreditsOf s h) (OutPoint h i) = Get (unminedCredits s) (OutPoint h i)"
proof (cases "Get (unminedCredits s) (OutPoint h i)")
  case None
  then show ?thesis by (auto simp: map_of_eq_None_iff unminedCreditsOf_iff)
next
  case (Some c)
  then have "(OutPoint h i, c) \<in> set (unminedCreditsOf s h)" by (simp add: unminedCreditsOf_iff)
  with Some show ?thesis using unminedCreditsOf_distinct by simp
qed

section \<open>The mined balance\<close>

text \<open>What the chain guarantees of a transaction \<open>h\<close> about to be recorded in block \<open>b\<close>: it is
  not yet mined, its spenders come after it, its inputs were not spent before, and the
  block is the one the store knows at that height, if any.\<close>

definition mineable :: "(MsgTx \<Rightarrow> bool) \<Rightarrow> (hash \<Rightarrow> MsgTx) \<Rightarrow> ns \<Rightarrow> hash \<Rightarrow> Block \<Rightarrow> bool" where
  "mineable isCB T s h b \<longleftrightarrow>
     0 \<le> sint (bHeight b) \<and>
     (\<forall>br. Get (blocks s) (bHeight b) = Some br \<longrightarrow> brHash br = bHash b) \<and>
     (\<forall>b'. (h, b') \<notin> mdom s) \<and>
     (\<forall>i. OutPoint h i \<notin> spentBy isCB T (mdom s)) \<and>
     (\<not> isCB (T h) \<longrightarrow> set (TxIn (T h)) \<inter> spentBy isCB T (mdom s) = {})"

lemma spentBy_insert:
  "spentBy isCB T (insert (h, b) M) = spentBy isCB T M \<union> (if isCB (T h) then {} else set (TxIn (T h)))"
  by (auto simp: spentBy_def)

lemma debit_spent:
  assumes "ledgerOf isCB T M X s" "Get (debits s) dk = Some d"
  shows "credOut (debCredKey d) \<in> spentBy isCB T M"
proof -
  obtain h b j where dk: "dk = (h, b, j)" by (cases dk)
  have "(h, b) \<in> M \<and> \<not> isCB (T h) \<and> unat j < length (TxIn (T h)) \<and>
      TxIn (T h) ! unat j = credOut (debCredKey d)"
    using ledgerD(5) [OF assms(1)] assms(2) dk by blast
  then show ?thesis unfolding spentBy_def by (metis (mono_tags, lifting) mem_Collect_eq nth_mem)
qed

lemma spend_inputs:
  assumes univ: "universe isCB T rk" and L: "ledgerOf isCB T M (spentBy isCB T M) s"
    and u: "uniq (insert (h, b) M)" and new: "(h, b) \<notin> M"
    and f: "fold (spendInput h b) (enumerate 0 (TxIn (T h))) (s, utxoTotal T (Get (unspent s))) = (s1, bal1)"
  shows "ledgerOf isCB T (insert (h, b) M) (spentBy isCB T (insert (h, b) M)) s1 \<and>
    bal1 = utxoTotal T (Get (unspent s1)) \<and> dom (Get (credits s1)) = dom (Get (credits s)) \<and> sameBase s s1"
proof (cases "isCB (T h)")
  case True
  have "Get (unspent s) op = None" if op: "op \<in> set (TxIn (T h))" for op
  proof (cases "Get (unspent s) op")
    case (Some b')
    have "opHash op = 0" using universeD(4) [OF univ True op] .
    then obtain c where "Get (credits s) (0, b', opIndex op) = Some c"
      using Some ledgerD(2) [OF L, of 0 "opIndex op" b'] by (cases op) auto
    then have "hasOut (T 0) (opIndex op)" using ledgerD(1) [OF L] by blast
    then show ?thesis using universeD(5) [OF univ] by (simp add: hasOut_def)
  qed
  then have "s1 = s" "bal1 = utxoTotal T (Get (unspent s))" using f spend_none by fastforce+
  moreover have "ledgerOf isCB T (insert (h, b) M) (spentBy isCB T (insert (h, b) M)) s"
    using L True by (auto simp: spentBy_insert intro: ledger_grow)
  ultimately show ?thesis by simp
next
  case False
  have L': "ledgerOf isCB T (insert (h, b) M) (spentBy isCB T M) s"
    using L by (rule ledger_grow) auto
  have "Get (debits s) (h, b, j) = None" for j
    using ledgerD(5) [OF L, of h b j] new by (cases "Get (debits s) (h, b, j)") auto
  then show ?thesis
    using spend_loop [OF univ u insertI1 False L' refl _ _ f] False by (simp add: spentBy_insert)
qed

text \<open>\<open>updateMinedBalance\<close> as a whole.\<close>

lemma updateMinedBalance_spec:
  assumes univ: "universe isCB T rk" and rec: "msgTx rec = T (txHash rec)"
    and L: "ledgerOf isCB T M (spentBy isCB T M) s"
    and u: "uniq (insert (txHash rec, block bm) M)" and new: "(txHash rec, block bm) \<notin> M"
    and order: "\<And>i. OutPoint (txHash rec) i \<notin> spentBy isCB T M"
    and bal: "minedBalance s = utxoTotal T (Get (unspent s))" and uc: "unminedCreditsOk T s"
  shows "\<exists>s2. updateMinedBalance s rec bm = s2\<lparr>minedBalance := utxoTotal T (Get (unspent s2))\<rparr> \<and>
    sameBase s s2 \<and>
    ledgerOf isCB T (insert (txHash rec, block bm) M) (spentBy isCB T (insert (txHash rec, block bm) M)) s2 \<and>
    dom (Get (credits s2)) = dom (Get (credits s)) \<union>
      {(txHash rec, block bm, i) | i. Get (unminedCredits s) (OutPoint (txHash rec) i) \<noteq> None}"
proof -
  let ?h = "txHash rec" and ?b = "block bm"
  let ?M = "insert (?h, ?b) M" and ?X = "spentBy isCB T (insert (txHash rec, block bm) M)"
  obtain s1 bal1 where f1: "fold (spendInput ?h ?b) (enumerate 0 (TxIn (T ?h))) (s, minedBalance s) = (s1, bal1)"
    by force
  note sp = spend_inputs [OF univ L u new f1 [unfolded bal]]
  obtain s2 bal2 where f2: "fold (moveCredit ?h ?b) (unminedCreditsOf s1 ?h) (s1, bal1) = (s2, bal2)"
    by force
  have self: "OutPoint ?h i \<notin> ?X" for i
    using order [of i] universeD(3) [OF univ, of "OutPoint ?h i" ?h] by (auto simp: spentBy_insert)
  have none: "Get (credits s) (?h, ?b, i) = None" for i
    using ledgerD(1) [OF L, of ?h ?b i] new by (cases "Get (credits s) (?h, ?b, i)") auto
  then have none1: "Get (credits s1) (?h, ?b, i) = None" for i using sp by (metis domIff)
  have mv: "ledgerOf isCB T ?M ?X s2 \<and> bal2 = utxoTotal T (Get (unspent s2)) \<and> sameBase s1 s2 \<and>
    Get (credits s2) = Get (credits s1) ++
      (\<lambda>(h', b', i). if h' = ?h \<and> b' = ?b then map_option
         (\<lambda>c. \<lparr>credAmount = ucAmount c, credChange = ucChange c, credSpentBy = None\<rparr>)
         (map_of (unminedCreditsOf s1 ?h) (OutPoint ?h i)) else None)"
  proof (rule move_loop [OF u insertI1 self])
    fix op c assume "(op, c) \<in> set (unminedCreditsOf s1 ?h)"
    then have "opHash op = ?h" "Get (unminedCredits s) op = Some c"
      using sp sameBaseD(5) [of s s1] by (auto simp: unminedCreditsOf_iff)
    with uc none1 show "opHash op = ?h \<and> hasOut (T ?h) (opIndex op) \<and>
        ucAmount c = outValue (T ?h) (opIndex op) \<and> Get (credits s1) (?h, ?b, opIndex op) = None"
      unfolding unminedCreditsOk_def by metis
  next
    fix dk d assume "Get (debits s1) dk = Some d"
    then show "credOut (debCredKey d) \<in> ?X" using sp debit_spent by blast
  qed (use sp f2 unminedCreditsOf_distinct in auto)
  have sb: "sameBase s s2" using sp mv sameBase_trans by blast
  have "updateMinedBalance s rec bm = s2\<lparr>minedBalance := bal2\<rparr>"
    using sameBaseD(8) [OF sb] by (auto simp: updateMinedBalance_def rec f1 f2 Let_def)
  moreover have "unminedCredits s1 = unminedCredits s" using sp sameBaseD(5) by blast
  then have "dom (Get (credits s2)) = dom (Get (credits s)) \<union>
      {(?h, ?b, i) | i. Get (unminedCredits s) (OutPoint ?h i) \<noteq> None}"
    using mv sp by (auto simp: unminedCreditsOf_map split: if_splits)
  ultimately show ?thesis using mv sb by blast
qed

section \<open>Taking a transaction out of the unmined buckets\<close>

lemma delete_credit_frame [simp]:
  "Get (unminedCredits (deleteRawUnminedCredit s op)) = (Get (unminedCredits s))(op := None)"
  "unmined (deleteRawUnminedCredit s op) = unmined s"
  "unminedInputs (deleteRawUnminedCredit s op) = unminedInputs s"
  by (simp_all add: deleteRawUnminedCredit_def)

lemma fold_delete_credit [simp]:
  "Get (unminedCredits (fold (\<lambda>i s. deleteRawUnminedCredit s (OutPoint h i)) is s)) op =
     (if opHash op = h \<and> opIndex op \<in> set is then None else Get (unminedCredits s) op)"
  "unmined (fold (\<lambda>i s. deleteRawUnminedCredit s (OutPoint h i)) is s) = unmined s"
  "unminedInputs (fold (\<lambda>i s. deleteRawUnminedCredit s (OutPoint h i)) is s) = unminedInputs s"
  by (induction "is" arbitrary: s) (auto simp: OutPoint.expand)

lemma sameMined_fold_credit:
  "sameMined s (fold (\<lambda>i s. deleteRawUnminedCredit s (OutPoint h i)) is s)"
  by (rule fold_inv [where P = "sameMined s"]) (auto intro: sameMined_trans)

lemma fetch_cong:
  "unminedInputs s = unminedInputs s' \<Longrightarrow>
   fetchUnminedInputSpendTxHashes s = fetchUnminedInputSpendTxHashes s'"
  by (simp add: fetchUnminedInputSpendTxHashes_def fun_eq_iff)

lemma deleteUnminedTx_spec:
  assumes univ: "universe isCB T rk" and rec: "msgTx rec = T (txHash rec)" and inv: "unminedInv T s"
  shows "unminedInv T (deleteUnminedTx s rec)" "sameMined s (deleteUnminedTx s rec)"
    "Get (unmined (deleteUnminedTx s rec)) = (Get (unmined s))(txHash rec := None)"
    "Get (unminedCredits (deleteUnminedTx s rec)) = Get (unminedCredits s) |` {op. opHash op \<noteq> txHash rec}"
proof -
  let ?h = "txHash rec"
  let ?s1 = "fold (\<lambda>op s. deleteRawUnminedInput s op ?h) (TxIn (T ?h)) s"
  let ?s2 = "fold (\<lambda>i s. deleteRawUnminedCredit s (OutPoint ?h i)) (idxs (TxOut (T ?h))) ?s1"
  have eq: "deleteUnminedTx s rec = deleteRawUnmined ?s2 ?h"
    by (simp add: deleteUnminedTx_def rec Let_def)
  have fetch: "fetchUnminedInputSpendTxHashes ?s2 = fetchUnminedInputSpendTxHashes ?s1"
    by (rule fetch_cong) simp
  have idx: "set (idxs (TxOut (T ?h))) = {i. hasOut (T ?h) i}"
    using universeD(1) [OF univ] by (simp add: set_idxs hasOut_def)
  show un: "Get (unmined (deleteUnminedTx s rec)) = (Get (unmined s))(?h := None)"
    unfolding eq by simp
  show cr: "Get (unminedCredits (deleteUnminedTx s rec)) = Get (unminedCredits s) |` {op. opHash op \<noteq> ?h}"
  proof
    fix op
    show "Get (unminedCredits (deleteUnminedTx s rec)) op = (Get (unminedCredits s) |` {op. opHash op \<noteq> ?h}) op"
    proof (cases "Get (unminedCredits s) op")
      case (Some c)
      then have "hasOut (T (opHash op)) (opIndex op)"
        using inv unfolding unminedInv_def unminedCreditsOk_def by blast
      then show ?thesis by (auto simp: eq restrict_map_def idx)
    qed (simp add: eq restrict_map_def)
  qed
  show "sameMined s (deleteUnminedTx s rec)"
    unfolding eq
    by (rule sameMined_trans [OF sameMined_fold_delete
        sameMined_trans [OF sameMined_fold_credit sameMined_ops(3)]])
  have "indexExact T (deleteUnminedTx s rec)"
    unfolding indexExact_def
  proof (intro conjI allI)
    fix op
    have "spenders (deleteUnminedTx s rec) op = spenders ?s1 op"
      unfolding eq by (simp add: fetch)
    moreover have "spenders s op = {h \<in> udom s. op \<in> set (TxIn (T h))}"
      using inv unfolding unminedInv_def indexExact_def by blast
    ultimately show "spenders (deleteUnminedTx s rec) op =
        {h \<in> udom (deleteUnminedTx s rec). op \<in> set (TxIn (T h))}"
      by (auto simp: un split: if_splits)
    show "Get (unminedInputs (deleteUnminedTx s rec)) op \<noteq> Some []"
      using inv unfolding eq by (simp add: unminedInv_def indexExact_def fold_delete_input_nonempty)
  qed
  with inv show "unminedInv T (deleteUnminedTx s rec)"
    unfolding unminedInv_def unminedKnown_def unminedCreditsOk_def un cr
    by (auto simp: restrict_map_def split: if_splits)
qed

section \<open>Removing double spends\<close>

text \<open>The unmined transactions that share an input with \<open>h\<close>.\<close>

definition conflicts :: "(hash \<Rightarrow> MsgTx) \<Rightarrow> hash set \<Rightarrow> hash \<Rightarrow> hash set" where
  "conflicts T U h = {y \<in> U. y \<noteq> h \<and> set (TxIn (T y)) \<inter> set (TxIn (T h)) \<noteq> {}}"

lemma removeOps_loop:
  assumes univ: "universe isCB T rk"
    and H: "\<And>op y. op \<in> set ops \<Longrightarrow> y \<in> U \<Longrightarrow> op \<in> set (TxIn (T y)) \<Longrightarrow> \<not> skip y \<Longrightarrow> y \<in> H"
    and inv: "unminedInv T s" and U: "udom s \<subseteq> U"
  shows "\<exists>s'. fold_err (\<lambda>op s. fold_err (\<lambda>h s. if skip h then Inr s else removeSpender h s)
        (fetchUnminedInputSpendTxHashes s op) s) ops s = Inr s' \<and> removes T U H s s' \<and>
      (\<forall>op \<in> set ops. \<forall>y \<in> udom s'. op \<in> set (TxIn (T y)) \<longrightarrow> skip y)"
  using H inv U
proof (induction ops arbitrary: s)
  case Nil
  then show ?case by (auto simp: removes_refl)
next
  case (Cons op ops)
  let ?f = "\<lambda>h s. if skip h then Inr s else removeSpender h s"
  let ?hs = "fetchUnminedInputSpendTxHashes s op"
  let ?hs' = "filter (\<lambda>h. \<not> skip h) ?hs"
  have hs: "set ?hs = {h \<in> udom s. op \<in> set (TxIn (T h))}"
    using Cons.prems(2) unfolding unminedInv_def indexExact_def by blast
  have drop: "fold_err ?f xs t = fold_err removeSpender (filter (\<lambda>h. \<not> skip h) xs) t" for xs t
    by (induction xs arbitrary: t) (auto split: sum.splits)
  have inH: "h \<in> H" if "h \<in> set ?hs'" for h
    by (rule Cons.prems(1) [of op]) (use that hs Cons.prems(3) in auto)
  obtain s1 where s1: "fold_err removeSpender ?hs' s = Inr s1"
    using fold_err_total [of "\<lambda>t. unminedInv T t \<and> udom t \<subseteq> U" s ?hs' removeSpender]
      removeSpender_removes [OF univ _ _ inH] removes_inv removes_udom Cons.prems(2,3)
    by (metis (no_types, lifting) order_trans)
  have r: "removes T U H s s1 \<and> set ?hs' \<inter> udom s1 = {}"
  proof (rule spender_loop [OF _ s1 Cons.prems(2,3)])
    fix sp t t' assume "sp \<in> set ?hs'" "unminedInv T t" "udom t \<subseteq> U" "removeSpender sp t = Inr t'"
    then show "removes T U H t t' \<and> sp \<notin> udom t'"
      using removeSpender_removes [OF univ, of t U sp H] inH by auto
  qed
  have U1: "udom s1 \<subseteq> udom s" using r removes_udom by blast
  have "\<exists>s'. fold_err (\<lambda>op s. fold_err ?f (fetchUnminedInputSpendTxHashes s op) s) ops s1 = Inr s' \<and>
      removes T U H s1 s' \<and> (\<forall>op \<in> set ops. \<forall>y \<in> udom s'. op \<in> set (TxIn (T y)) \<longrightarrow> skip y)"
  proof (rule Cons.IH)
    show "y \<in> H" if "op' \<in> set ops" "y \<in> U" "op' \<in> set (TxIn (T y))" "\<not> skip y" for op' y
      by (rule Cons.prems(1) [of op']) (use that in auto)
    show "unminedInv T s1" using r removes_inv by blast
    show "udom s1 \<subseteq> U" using U1 Cons.prems(3) by blast
  qed
  then obtain s' where s': "fold_err (\<lambda>op s. fold_err ?f (fetchUnminedInputSpendTxHashes s op) s) ops s1 = Inr s'"
    "removes T U H s1 s'" "\<forall>op \<in> set ops. \<forall>y \<in> udom s'. op \<in> set (TxIn (T y)) \<longrightarrow> skip y"
    by blast
  have "skip y" if y: "y \<in> udom s'" "op \<in> set (TxIn (T y))" for y
  proof (rule ccontr)
    assume "\<not> skip y"
    have "y \<in> udom s1" using y(1) removes_udom [OF s'(2)] by blast
    moreover have "y \<in> set ?hs'" using \<open>\<not> skip y\<close> hs U1 y(2) calculation by auto
    ultimately show False using r by blast
  qed
  with s' r s1 show ?case using removes_trans by (auto simp: drop)
qed

lemma removeDoubleSpends_spec:
  assumes univ: "universe isCB T rk" and rec: "msgTx rec = T (txHash rec)" and inv: "unminedInv T s"
    and gone: "txHash rec \<notin> udom s"
  shows "\<exists>s'. removeDoubleSpends s rec = Inr s' \<and> unminedInv T s' \<and> sameMined s s' \<and>
    Get (unmined s') = Get (unmined s) |` (- descendants T (udom s) (conflicts T (udom s) (txHash rec))) \<and>
    (\<forall>y \<in> udom s'. set (TxIn (T y)) \<inter> set (TxIn (T (txHash rec))) = {})"
proof -
  let ?h = "txHash rec" let ?H = "conflicts T (udom s) ?h"
  obtain s' where s': "removeDoubleSpends s rec = Inr s'" "removes T (udom s) ?H s s'"
    "\<forall>op \<in> set (TxIn (T ?h)). \<forall>y \<in> udom s'. op \<in> set (TxIn (T y)) \<longrightarrow> ?h = y"
    using removeOps_loop [OF univ _ inv order_refl, where skip = "\<lambda>y. ?h = y" and ops = "TxIn (T ?h)" and H = ?H]
    unfolding removeDoubleSpends_def rec conflicts_def by auto
  have "?h \<notin> udom s'" using gone removes_udom [OF s'(2)] by blast
  then have apart: "set (TxIn (T y)) \<inter> set (TxIn (T ?h)) = {}" if "y \<in> udom s'" for y
    using s'(3) that by blast
  have "y \<notin> udom s' \<and> (\<forall>z \<in> udom s'. \<not> spends T y z)" if "y \<in> ?H" for y
  proof -
    have "y \<in> udom s" "y \<notin> udom s'" using that apart by (auto simp: conflicts_def)
    then show ?thesis using s'(2) unfolding removes_def by blast
  qed
  then have "Get (unmined s') = Get (unmined s) |` (- descendants T (udom s) ?H)"
    by (rule removes_exact(1) [OF s'(2)])
  then show ?thesis using s' apart removes_inv by (auto simp: removes_def)
qed

end
