(* ===== verification/Wtx_Handlers.thy ===== *)
theory Wtx_Handlers
  imports Wtx_Insert
begin

text \<open>
  The exported handlers that add to the store, \<open>InsertTx\<close> (mined and unmined) and
  \<open>AddCredit\<close>, with the leases and labels: each succeeds on a consistent store and keeps
  its invariant.
\<close>

section \<open>What the invariant does not depend on\<close>

lemma sameLedgerD:
  assumes "sameLedger s s'"
  shows "blocks s' = blocks s" "txRecords s' = txRecords s" "txLabels s' = txLabels s"
    "credits s' = credits s" "unspent s' = unspent s" "debits s' = debits s"
    "unmined s' = unmined s" "unminedCredits s' = unminedCredits s"
    "unminedInputs s' = unminedInputs s" "minedBalance s' = minedBalance s"
  using assms by (cases s; cases s'; simp add: sameLedger_def)+

lemma blocksOk_cong:
  "blocks s' = blocks s \<Longrightarrow> txRecords s' = txRecords s \<Longrightarrow> blocksOk s' = blocksOk s"
  by (simp add: blocksOk_def)

lemma unminedInv_cong:
  assumes "unmined s' = unmined s" "unminedCredits s' = unminedCredits s"
    "unminedInputs s' = unminedInputs s"
  shows "unminedInv T s' = unminedInv T s"
  using assms fetch_cong [of s' s]
  by (simp add: unminedInv_def unminedKnown_def indexExact_def unminedCreditsOk_def)

lemma storeInv_sameLedger: "sameLedger s s' \<Longrightarrow> storeInv isCB T s \<Longrightarrow> storeInv isCB T s'"
  using sameLedgerD [of s s'] unminedInv_cong [of s' s T] blocksOk_cong [of s' s]
  by (simp add: storeInv_def minedKnown_def disjointOk_def labelsOk_def)

text \<open>A conflict removal keeps the invariant.\<close>

lemma storeInv_removed:
  assumes inv: "storeInv isCB T s" and r: "sameMined s s'" "unminedInv T s'" "udom s' \<subseteq> udom s"
  shows "storeInv isCB T s'"
proof -
  have "disjointOk s'" using inv r(3) sameMinedD(2) [OF r(1)] by (auto simp: storeInv_def disjointOk_def)
  with inv r(2) sameMinedD [OF r(1)] blocksOk_cong [of s' s] show ?thesis
    by (simp add: storeInv_def minedKnown_def labelsOk_def)
qed

section \<open>A mined transaction\<close>

lemma blocksOk_insert:
  assumes ok: "blocksOk s" and m: "mineable isCB T s (txHash rec) (block bm)"
  shows "blocksOk (putTxRecord (putBlockTx s rec bm) rec (block bm))"
proof -
  let ?h = "txHash rec" and ?b = "block bm"
  let ?s = "putTxRecord (putBlockTx s rec bm) rec ?b"
  have rec': "mdom ?s = insert (?h, ?b) (mdom s)"
    by (simp add: putTxRecord_def putBlockTx_def putBlockRecord_def appendBlockRecord_def
        split: option.splits)
  define br' where "br' = (case Get (blocks s) (bHeight ?b) of
      None \<Rightarrow> \<lparr>brHash = bHash ?b, brTime = btime bm, transactions = [?h]\<rparr>
    | Some br \<Rightarrow> br\<lparr>transactions := transactions br @ [?h]\<rparr>)"
  have bl: "Get (blocks ?s) = (Get (blocks s))(bHeight ?b \<mapsto> br')"
    by (simp add: br'_def putTxRecord_def putBlockTx_def putBlockRecord_def appendBlockRecord_def
        split: option.splits)
  have same: "brHash br' = bHash ?b"
    using m by (auto simp: br'_def mineable_def split: option.splits)
  have old: "h \<noteq> ?h" if "(h, b) \<in> mdom s" for h b using m that unfolding mineable_def by blast
  have br'_ok: "distinct (transactions br') \<and> (\<forall>h \<in> set (transactions br'). (h, ?b) \<in> mdom ?s)"
  proof (cases "Get (blocks s) (bHeight ?b)")
    case None
    then show ?thesis unfolding rec' by (simp add: br'_def)
  next
    case (Some br)
    have "brHash br = bHash ?b" using m Some unfolding mineable_def by blast
    then have "distinct (transactions br)" "\<forall>h \<in> set (transactions br). (h, ?b) \<in> mdom s"
      using ok Some unfolding blocksOk_def by (metis Block.collapse)+
    then show ?thesis unfolding rec' using Some old by (auto simp: br'_def)
  qed
  show ?thesis
    unfolding blocksOk_def
  proof (intro conjI allI impI)
    fix ht br assume br: "Get (blocks ?s) ht = Some br"
    have "0 \<le> sint ht \<and> distinct (transactions br) \<and>
        (\<forall>h \<in> set (transactions br). (h, Block ht (brHash br)) \<in> mdom ?s)"
    proof (cases "ht = bHeight ?b")
      case True
      then have "br = br'" "Block ht (brHash br) = ?b" using br bl same by auto
      then show ?thesis using br'_ok m True by (simp add: mineable_def)
    next
      case False
      then have "Get (blocks s) ht = Some br" using br bl by simp
      then show ?thesis using ok unfolding blocksOk_def rec' by blast
    qed
    then show "0 \<le> sint ht" "distinct (transactions br)"
      "\<forall>h \<in> set (transactions br). (h, Block ht (brHash br)) \<in> mdom ?s" by blast+
  next
    fix h b assume hb: "(h, b) \<in> mdom ?s"
    show "\<exists>br. Get (blocks ?s) (bHeight b) = Some br \<and> brHash br = bHash b \<and> h \<in> set (transactions br)"
    proof (cases "(h, b) = (?h, ?b)")
      case True
      then show ?thesis using bl same by (auto simp: br'_def split: option.splits)
    next
      case False
      then have "(h, b) \<in> mdom s" using hb rec' by blast
      then obtain br where br: "Get (blocks s) (bHeight b) = Some br" "brHash br = bHash b"
        "h \<in> set (transactions br)" using ok unfolding blocksOk_def by blast
      show ?thesis
      proof (cases "bHeight b = bHeight ?b")
        case True
        then have "bHash b = bHash ?b" using m br unfolding mineable_def by metis
        with True br show ?thesis using bl same by (auto simp: br'_def)
      next
        case False
        with br bl show ?thesis by simp
      qed
    qed
  qed
qed

lemma noDouble_insert:
  assumes "noDouble isCB T M" and "\<not> isCB (T h) \<Longrightarrow> set (TxIn (T h)) \<inter> spentBy isCB T M = {}"
  shows "noDouble isCB T (insert (h, b) M)"
proof -
  have "x = h" if "(x, y) \<in> M" "op \<in> set (TxIn (T x))" "\<not> isCB (T x)" "op \<in> set (TxIn (T h))" "\<not> isCB (T h)"
    for x y op
    using assms(2) that unfolding spentBy_def by blast
  with assms(1) show ?thesis unfolding noDouble_def by blast
qed

lemma insertMinedTx_spec:
  assumes univ: "universe isCB T rk" and inv: "storeInv isCB T s"
    and rec: "msgTx rec = T (txHash rec)" and m: "mineable isCB T s (txHash rec) (block bm)"
  shows "\<exists>s'. insertMinedTx s rec bm = Inr s' \<and> storeInv isCB T s' \<and>
    mdom s' = insert (txHash rec, block bm) (mdom s) \<and>
    dom (Get (credits s')) = dom (Get (credits s)) \<union>
      {(txHash rec, block bm, i) | i. Get (unminedCredits s) (OutPoint (txHash rec) i) \<noteq> None} \<and>
    (let U = udom s - {txHash rec} in
     Get (unmined s') = Get (unmined s) |` (U - descendants T U (conflicts T U (txHash rec)))) \<and>
    (\<forall>y \<in> udom s'. set (TxIn (T y)) \<inter> set (TxIn (T (txHash rec))) = {}) \<and>
    (\<forall>op \<in> set (TxIn (T (txHash rec))). lockOf s' op = None)"
proof -
  let ?h = "txHash rec" and ?b = "block bm"
  let ?M = "insert (?h, ?b) (mdom s)"
  define sT where "sT = putTxRecord (putBlockTx s rec bm) rec ?b"
  have sT [simp]: "credits sT = credits s" "unspent sT = unspent s" "debits sT = debits s"
    "unmined sT = unmined s" "unminedCredits sT = unminedCredits s"
    "unminedInputs sT = unminedInputs s" "minedBalance sT = minedBalance s"
    "txLabels sT = txLabels s" "lockedOutputs sT = lockedOutputs s"
    "Get (txRecords sT) = (Get (txRecords s))((?h, ?b) \<mapsto> \<lparr>tvReceived = received rec, tvTx = msgTx rec\<rparr>)"
    by (simp_all add: sT_def putTxRecord_def putBlockTx_def putBlockRecord_def appendBlockRecord_def
        split: option.splits)
  have bT: "blocksOk sT" unfolding sT_def by (rule blocksOk_insert [OF _ m]) (use inv in \<open>simp add: storeInv_def\<close>)
  have new: "(?h, b') \<notin> mdom s" for b' using m unfolding mineable_def by blast
  have u: "uniq ?M" using inv new unfolding storeInv_def uniq_def by blast
  have L: "ledgerOf isCB T (mdom s) (spentBy isCB T (mdom s)) sT" using inv by (simp add: storeInv_def)
  have ui: "unminedInv T sT" using inv unminedInv_cong [of sT s] by (simp add: storeInv_def)
  obtain s2 where s2: "updateMinedBalance sT rec bm = s2\<lparr>minedBalance := utxoTotal T (Get (unspent s2))\<rparr>"
    "sameBase sT s2" "ledgerOf isCB T ?M (spentBy isCB T ?M) s2"
    "dom (Get (credits s2)) = dom (Get (credits s)) \<union>
      {(?h, ?b, i) | i. Get (unminedCredits s) (OutPoint ?h i) \<noteq> None}"
    using updateMinedBalance_spec [OF univ rec L u new] m inv ui
    by (auto simp: mineable_def storeInv_def unminedInv_def)
  define s2' where "s2' = updateMinedBalance sT rec bm"
  have s2' [simp]: "credits s2' = credits s2" "unspent s2' = unspent s2" "debits s2' = debits s2"
    "minedBalance s2' = utxoTotal T (Get (unspent s2))" "unmined s2' = unmined s"
    "unminedCredits s2' = unminedCredits s" "unminedInputs s2' = unminedInputs s"
    "txRecords s2' = txRecords sT" "blocks s2' = blocks sT" "txLabels s2' = txLabels s"
    using sameBaseD [OF s2(2)] by (simp_all add: s2'_def s2(1))
  define s3 where "s3 = (if Get (unmined s2') ?h \<noteq> None then deleteUnminedTx s2' rec else s2')"
  have ui2: "unminedInv T s2'" using ui unminedInv_cong [of s2' sT] by simp
  note del = deleteUnminedTx_spec [OF univ rec ui2]
  have s3: "unminedInv T s3" "sameMined s2' s3" "Get (unmined s3) = (Get (unmined s))(?h := None)"
    using ui2 del by (auto simp: s3_def fun_eq_iff)
  have U: "udom s3 = udom s - {?h}" using s3(3) by auto
  then have "?h \<notin> udom s3" by blast
  then obtain s4 where s4: "removeDoubleSpends s3 rec = Inr s4" "unminedInv T s4" "sameMined s3 s4"
    "Get (unmined s4) = Get (unmined s3) |` (- descendants T (udom s3) (conflicts T (udom s3) ?h))"
    "\<forall>y \<in> udom s4. set (TxIn (T y)) \<inter> set (TxIn (T ?h)) = {}"
    using removeDoubleSpends_spec [OF univ rec s3(1)] by blast
  define s' where "s' = fold (\<lambda>op s. unlockOutput s op) (TxIn (T ?h)) s4"
  have sl: "sameLedger s4 s'" unfolding s'_def by (rule sameLedger_fold_unlock)
  have ok: "insertMinedTx s rec bm = Inr s'"
    using new [of ?b] s4(1)
    by (cases "Get (unmined s) ?h")
      (simp_all add: insertMinedTx_def Let_def domIff s'_def rec s2'_def [symmetric] s3_def
        sT_def [symmetric])
  have un: "Get (unmined s4) = Get (unmined s) |` (udom s - {?h} -
      descendants T (udom s - {?h}) (conflicts T (udom s - {?h}) ?h))"
    unfolding s4(4) s3(3) U by (auto simp: restrict_map_def fun_eq_iff domIff)
  have "storeInv isCB T s4"
  proof -
    note f = sameMinedD [OF sameMined_trans [OF s3(2) s4(3)]]
    have M: "mdom s4 = ?M" by (simp add: f)
    have "minedKnown T s4" using inv rec unfolding storeInv_def minedKnown_def f by simp
    moreover have "disjointOk s4"
    proof -
      have "udom s4 \<subseteq> udom s - {?h}" unfolding un by (simp add: dom_restrict) blast
      then show ?thesis using inv unfolding disjointOk_def M storeInv_def by blast
    qed
    moreover have "noDouble isCB T (mdom s4)"
      unfolding M using inv m by (intro noDouble_insert) (auto simp: storeInv_def mineable_def)
    moreover have "labelsOk s4" using inv by (simp add: storeInv_def labelsOk_def f)
    moreover have "blocksOk s4" using bT blocksOk_cong [of s4 sT] f by simp
    ultimately show ?thesis using u s2(3) s4(2) M by (simp add: storeInv_def f)
  qed
  then have "storeInv isCB T s'" using sl storeInv_sameLedger by blast
  moreover have "mdom s' = ?M" "Get (unmined s') = Get (unmined s4)" "credits s' = credits s2"
    using sameLedgerD [OF sl] sameMinedD [OF sameMined_trans [OF s3(2) s4(3)]] by simp_all
  moreover have "\<forall>op \<in> set (TxIn (T ?h)). lockOf s' op = None"
    by (simp add: s'_def lockOf_fold_unlock)
  ultimately show ?thesis using ok un s4(5) s2(4) by (simp add: Let_def)
qed

section \<open>Looking a transaction up\<close>

lemma latestTxRecord_filter:
  "scan (txRecords s) (h, Block 0 0) (\<lambda>k. fst k = h) = filter (\<lambda>(k, v). fst k = h) (ForEach (txRecords s))"
proof (rule scan_filter)
  fix x :: TxKey assume "fst x = h"
  then show "(h, Block 0 0) \<le> x" by (cases x) (auto simp: less_eq_Block_def)
next
  fix x y :: TxKey assume "(h, Block 0 0) \<le> x" "x \<le> y" "fst y = h"
  then show "fst x = h" by (cases x; cases y) auto
qed

lemma latestTxRecord_None: "latestTxRecord s h = None \<longleftrightarrow> (\<forall>b. (h, b) \<notin> mdom s)"
proof -
  have "latestTxRecord s h = None \<longleftrightarrow> filter (\<lambda>(k, v). fst k = h) (ForEach (txRecords s)) = []"
    by (simp add: latestTxRecord_def Let_def latestTxRecord_filter)
  also have "\<dots> \<longleftrightarrow> (\<forall>k v. Get (txRecords s) k = Some v \<longrightarrow> fst k \<noteq> h)"
    unfolding bkt.forEach_iff [symmetric] filter_empty_conv by fastforce
  also have "\<dots> \<longleftrightarrow> (\<forall>b. (h, b) \<notin> mdom s)" by auto
  finally show ?thesis .
qed

lemma latestTxRecord_Some:
  assumes "latestTxRecord s h = Some (k, v)"
  shows "fst k = h" "Get (txRecords s) k = Some v"
proof -
  let ?xs = "filter (\<lambda>(k, v). fst k = h) (ForEach (txRecords s))"
  have "?xs \<noteq> []" "last ?xs = (k, v)"
    using assms by (auto simp: latestTxRecord_def Let_def latestTxRecord_filter split: if_splits)
  then have "(k, v) \<in> set ?xs" by (metis last_in_set)
  then show "fst k = h" "Get (txRecords s) k = Some v" by (auto simp: bkt.forEach_iff)
qed

lemma collect_err_ok: "(\<And>x. x \<in> set xs \<Longrightarrow> \<exists>y. f x = Inr y) \<Longrightarrow> \<exists>ys. collect_err f xs = Inr ys"
  by (induction xs) fastforce+

lemma TxLabel_ok: "labelsOk s \<Longrightarrow> \<exists>l. TxLabel s h = Inr l"
  by (force simp: labelsOk_def TxLabel_def FetchTxLabel_def split: option.splits)

lemma set_scan: "set (scan b k P) \<subseteq> {(x, v). P x \<and> Get b x = Some v}"
  unfolding scan_def bkt.forEach_iff [symmetric]
  by (auto dest!: set_takeWhileD dest: set_dropWhileD)

lemma minedTxDetails_ok:
  assumes inv: "storeInv isCB T s" and rec: "Get (txRecords s) (h, b) = Some v"
  shows "\<exists>d. minedTxDetails s h (h, b) v = Inr d"
proof -
  have v: "tvTx v = T h" using inv rec unfolding storeInv_def minedKnown_def by blast
  have L: "ledgerOf isCB T (mdom s) (spentBy isCB T (mdom s)) s" using inv by (simp add: storeInv_def)
  obtain br where br: "Get (blocks s) (bHeight b) = Some br"
    using inv rec unfolding storeInv_def blocksOk_def by blast
  let ?P = "\<lambda>ck :: CredKey. fst ck = h \<and> fst (snd ck) = b"
  have "\<exists>y. minedCreditElem s h (tvTx v) kc = Inr y" if mem: "kc \<in> set (scan (credits s) (h, b, 0) ?P)" for kc
  proof -
    obtain i c where "kc = ((h, b, i), c)" "Get (credits s) (h, b, i) = Some c"
      using subsetD [OF set_scan mem] by (cases kc) auto
    then show ?thesis using ledgerD(1) [OF L] v by (auto simp: minedCreditElem_def hasOut_def Let_def not_le)
  qed
  then obtain cs where cs: "collect_err (minedCreditElem s h (tvTx v)) (scan (credits s) (h, b, 0) ?P) = Inr cs"
    using collect_err_ok by blast
  have "\<exists>y. minedDebitElem (tvTx v) kd = Inr y" if mem: "kd \<in> set (scan (debits s) (h, b, 0) ?P)" for kd
  proof -
    obtain j d where "kd = ((h, b, j), d)" "Get (debits s) (h, b, j) = Some d"
      using subsetD [OF set_scan mem] by (cases kd) auto
    then show ?thesis using ledgerD(5) [OF L] v by (auto simp: minedDebitElem_def Let_def not_le)
  qed
  then obtain ds where ds: "collect_err (minedDebitElem (tvTx v)) (scan (debits s) (h, b, 0) ?P) = Inr ds"
    using collect_err_ok by blast
  obtain l where "TxLabel s h = Inr l" using TxLabel_ok inv unfolding storeInv_def by blast
  with br cs ds show ?thesis by (simp add: minedTxDetails_def fetchBlockTime_def Let_def)
qed

lemma unminedTxDetails_ok:
  assumes inv: "storeInv isCB T s" and rec: "Get (unmined s) h = Some v"
  shows "\<exists>d. unminedTxDetails s h v = Inr d"
proof -
  have v: "tvTx v = T h" and uc: "unminedCreditsOk T s"
    using inv rec unfolding storeInv_def unminedInv_def unminedKnown_def by blast+
  have L: "ledgerOf isCB T (mdom s) (spentBy isCB T (mdom s)) s" using inv by (simp add: storeInv_def)
  have "\<exists>y. unminedCreditElem s (tvTx v) kc = Inr y" if mem: "kc \<in> set (unminedCreditsOf s h)" for kc
  proof -
    obtain op c where kc: "kc = (op, c)" by force
    with mem have "opHash op = h" "Get (unminedCredits s) op = Some c"
      by (simp_all add: unminedCreditsOf_iff)
    with uc kc have "kc = (op, c)" "hasOut (T h) (opIndex op)" unfolding unminedCreditsOk_def by blast+
    then show ?thesis using v by (auto simp: unminedCreditElem_def hasOut_def Let_def not_le)
  qed
  then obtain cs where cs: "collect_err (unminedCreditElem s (tvTx v)) (unminedCreditsOf s h) = Inr cs"
    using collect_err_ok by blast
  have "\<exists>y. unminedDebitElem s (j, op) = Inr y" for j op
    using ledgerD(2) [OF L, of "opHash op" "opIndex op"]
    by (force simp: unminedDebitElem_def existsUnspent_def split: option.splits)
  then obtain ds where ds: "collect_err (unminedDebitElem s) (enumerate 0 (TxIn (tvTx v))) = Inr ds"
    using collect_err_ok [of _ "unminedDebitElem s"] by (metis surj_pair)
  obtain l where "TxLabel s h = Inr l" using TxLabel_ok inv unfolding storeInv_def by blast
  with cs ds show ?thesis by (simp add: unminedTxDetails_def)
qed

lemma TxDetails_ok:
  assumes inv: "storeInv isCB T s"
  shows "\<exists>od. TxDetails s h = Inr od \<and> (od = None \<longleftrightarrow> h \<notin> udom s \<and> (\<forall>b. (h, b) \<notin> mdom s))"
proof (cases "Get (unmined s) h")
  case (Some v)
  with unminedTxDetails_ok [OF inv Some] show ?thesis by (auto simp: TxDetails_def)
next
  case un: None
  show ?thesis
  proof (cases "latestTxRecord s h")
    case None
    with un show ?thesis using latestTxRecord_None [of s h] by (auto simp: TxDetails_def)
  next
    case (Some kv)
    obtain b v where kv: "kv = ((h, b), v)" "Get (txRecords s) (h, b) = Some v"
      using latestTxRecord_Some [of s h "fst kv" "snd kv"] Some by (cases kv) auto
    then have "(h, b) \<in> mdom s" by blast
    with un Some kv minedTxDetails_ok [OF inv kv(2)] show ?thesis
      by (simp add: TxDetails_def) (metis map_sum.simps(2) option.distinct(1))
  qed
qed

section \<open>An unmined transaction\<close>

lemma put_input [simp]:
  "spenders (putRawUnminedInput s op h) op' = (if op' = op then insert h (spenders s op) else spenders s op')"
  "unmined (putRawUnminedInput s op h) = unmined s"
  "unminedCredits (putRawUnminedInput s op h) = unminedCredits s"
  by (auto simp: putRawUnminedInput_def fetchUnminedInputSpendTxHashes_def split: option.splits)

lemma put_input_nonempty:
  "Get (unminedInputs s) op' \<noteq> Some [] \<Longrightarrow> Get (unminedInputs (putRawUnminedInput s op h)) op' \<noteq> Some []"
  by (simp add: putRawUnminedInput_def)

lemma fold_put_input [simp]:
  "unmined (fold (\<lambda>op s. putRawUnminedInput s op h) ops s) = unmined s"
  "unminedCredits (fold (\<lambda>op s. putRawUnminedInput s op h) ops s) = unminedCredits s"
  "spenders (fold (\<lambda>op s. putRawUnminedInput s op h) ops s) op' =
     spenders s op' \<union> (if op' \<in> set ops then {h} else {})"
  by (induction ops arbitrary: s) auto

lemma fold_put_input_nonempty:
  "Get (unminedInputs s) op' \<noteq> Some [] \<Longrightarrow>
   Get (unminedInputs (fold (\<lambda>op s. putRawUnminedInput s op h) ops s)) op' \<noteq> Some []"
  by (induction ops arbitrary: s) (auto simp: put_input_nonempty)

lemma sameMined_put:
  "sameMined s (putRawUnmined s h v)" "sameMined s (putRawUnminedInput s op h)"
  "sameMined s (putRawUnminedCredit s op a c)"
  by (simp_all add: sameMined_def putRawUnmined_def putRawUnminedInput_def putRawUnminedCredit_def)

lemma sameMined_fold_put: "sameMined s (fold (\<lambda>op s. putRawUnminedInput s op h) ops s)"
  by (rule fold_inv [where P = "sameMined s"]) (auto intro: sameMined_trans sameMined_put)

text \<open>An unmined transaction whose inputs have just been indexed.\<close>

lemma unminedInv_add:
  assumes inv: "unminedInv T s" and v: "tvTx v = T h"
    and s': "Get (unmined s') = (Get (unmined s))(h \<mapsto> v)" "unminedCredits s' = unminedCredits s"
      "\<And>op. spenders s' op = spenders s op \<union> (if op \<in> set (TxIn (T h)) then {h} else {})"
      "\<And>op. Get (unminedInputs s') op \<noteq> Some []" and new: "h \<notin> udom s"
  shows "unminedInv T s'"
proof -
  have "spenders s' op = {y \<in> udom s'. op \<in> set (TxIn (T y))}" for op
  proof -
    have "spenders s op = {y \<in> udom s. op \<in> set (TxIn (T y))}"
      using inv unfolding unminedInv_def indexExact_def by blast
    then show ?thesis unfolding s'(3) s'(1) by auto
  qed
  then have "indexExact T s'" using s'(4) by (simp add: indexExact_def)
  moreover have "unminedKnown T s'" "unminedCreditsOk T s'"
    using inv v s'(1,2) by (auto simp: unminedInv_def unminedKnown_def unminedCreditsOk_def)
  ultimately show ?thesis by (simp add: unminedInv_def)
qed

lemma insertMemPoolTx_spec:
  assumes inv: "storeInv isCB T s" and rec: "msgTx rec = T (txHash rec)"
    and univ: "universe isCB T rk"
    and new: "txHash rec \<notin> udom s" "\<And>b. (txHash rec, b) \<notin> mdom s"
  shows "\<exists>s'. insertMemPoolTx s rec = Inr s' \<and> storeInv isCB T s' \<and> sameMined s s' \<and>
    Get (unmined s') = (Get (unmined s))(txHash rec \<mapsto> \<lparr>tvReceived = received rec, tvTx = msgTx rec\<rparr>) \<and>
    unminedCredits s' = unminedCredits s"
proof -
  let ?h = "txHash rec" and ?v = "\<lparr>tvReceived = received rec, tvTx = msgTx rec\<rparr>"
  let ?s1 = "putRawUnmined s ?h ?v"
  define s' where "s' = fold (\<lambda>op s. putRawUnminedInput s op ?h) (TxIn (T ?h)) ?s1"
  have "TxDetails s ?h = Inr None" using TxDetails_ok [OF inv, of ?h] new by auto
  moreover have "existsUnspent s (OutPoint ?h i) = None" for i
  proof (cases "Get (unspent s) (OutPoint ?h i)")
    case (Some b)
    have L: "ledgerOf isCB T (mdom s) (spentBy isCB T (mdom s)) s" using inv by (simp add: storeInv_def)
    from ledgerD(1) [OF L] ledgerD(2) [OF L Some] new(2) show ?thesis by blast
  qed (simp add: existsUnspent_def)
  ultimately have ok: "insertMemPoolTx s rec = Inr s'"
    by (simp add: insertMemPoolTx_def s'_def Let_def rec)
  have s1: "Get (unmined ?s1) = (Get (unmined s))(?h \<mapsto> ?v)" "unminedCredits ?s1 = unminedCredits s"
    "unminedInputs ?s1 = unminedInputs s"
    by (simp_all add: putRawUnmined_def)
  have un: "Get (unmined s') = (Get (unmined s))(?h \<mapsto> ?v)" "unminedCredits s' = unminedCredits s"
    by (simp_all add: s'_def s1)
  have sm: "sameMined s s'"
    unfolding s'_def by (rule sameMined_trans [OF sameMined_put(1) sameMined_fold_put])
  have inv0: "unminedInv T s" using inv by (simp add: storeInv_def)
  have "unminedInv T s'"
  proof (rule unminedInv_add [OF inv0 _ un _ _ new(1)])
    show "tvTx ?v = T ?h" by (simp add: rec)
    show "spenders s' op = spenders s op \<union> (if op \<in> set (TxIn (T ?h)) then {?h} else {})" for op
      unfolding s'_def using fetch_cong [OF s1(3)] by simp
    show "Get (unminedInputs s') op \<noteq> Some []" for op
      unfolding s'_def using inv0 s1(3)
      by (intro fold_put_input_nonempty) (simp add: unminedInv_def indexExact_def)
  qed
  moreover have "disjointOk s'"
    using inv new(2) un(1) sameMinedD(2) [OF sm] by (auto simp: storeInv_def disjointOk_def)
  ultimately have "storeInv isCB T s'"
    using inv sameMinedD [OF sm] blocksOk_cong [of s' s]
    by (simp add: storeInv_def minedKnown_def labelsOk_def)
  then show ?thesis using ok sm un by blast
qed

section \<open>Marking credits\<close>

lemma addCredit_unmined:
  assumes inv: "storeInv isCB T s" and rec: "msgTx rec = T (txHash rec)" and i: "hasOut (T (txHash rec)) i"
    and known: "txHash rec \<in> udom s \<or> (\<exists>b. (txHash rec, b) \<in> mdom s)"
  shows "storeInv isCB T (snd (addCredit s rec None i change))"
proof -
  let ?op = "OutPoint (txHash rec) i" let ?a = "Value (TxOut (T (txHash rec)) ! unat i)"
  let ?s = "putRawUnminedCredit s ?op ?a change"
  have "snd (addCredit s rec None i change) = s \<or>
      snd (addCredit s rec None i change) = ?s \<and> latestTxRecord s (txHash rec) = None"
    by (cases "latestTxRecord s (txHash rec)") (simp_all add: addCredit_def Let_def rec)
  then consider "snd (addCredit s rec None i change) = s"
    | "snd (addCredit s rec None i change) = ?s" "latestTxRecord s (txHash rec) = None"
    by metis
  then show ?thesis
  proof cases
    case 2
    then have h: "txHash rec \<in> udom s" using known latestTxRecord_None by blast
    have a: "?a = outValue (T (txHash rec)) i" using i by (simp add: outValue_def)
    have inv0: "unminedInv T s" using inv by (simp add: storeInv_def)
    have "unminedInputs ?s = unminedInputs s" "unmined ?s = unmined s"
      by (simp_all add: putRawUnminedCredit_def)
    then have "unminedInv T ?s"
      using inv0 h a i fetch_cong [of ?s s]
      by (auto simp: unminedInv_def unminedKnown_def indexExact_def unminedCreditsOk_def
          putRawUnminedCredit_def split: if_splits)
    then show ?thesis unfolding 2(1)
      by (rule storeInv_removed [OF inv sameMined_put(3)]) (simp add: putRawUnminedCredit_def)
  qed (use inv in simp)
qed

lemma addCredit_mined:
  assumes inv: "storeInv isCB T s" and rec: "msgTx rec = T (txHash rec)" and i: "hasOut (T (txHash rec)) i"
    and known: "(txHash rec, block bm) \<in> mdom s"
    and early: "Get (credits s) (txHash rec, block bm, i) = None \<Longrightarrow>
      OutPoint (txHash rec) i \<notin> spentBy isCB T (mdom s)"
  shows "storeInv isCB T (snd (addCredit s rec (Some bm) i change))"
proof (cases "Get (credits s) (txHash rec, block bm, i)")
  case None
  let ?h = "txHash rec" and ?b = "block bm" let ?a = "Value (TxOut (T (txHash rec)) ! unat i)"
  have a: "?a = outValue (T ?h) i" using i by (simp add: outValue_def)
  have L: "ledgerOf isCB T (mdom s) (spentBy isCB T (mdom s)) s" and u: "uniq (mdom s)"
    and bal: "minedBalance s = utxoTotal T (Get (unspent s))" using inv by (simp_all add: storeInv_def)
  obtain s' bal' where mv: "moveCredit ?h ?b (OutPoint ?h i, \<lparr>ucAmount = ?a, ucChange = change\<rparr>)
      (s, minedBalance s) = (s', bal')" by force
  have st: "ledgerOf isCB T (mdom s) (spentBy isCB T (mdom s)) s' \<and>
      bal' = utxoTotal T (Get (unspent s')) \<and> sameBase s s' \<and> debits s' = debits s \<and>
      Get (credits s') = (Get (credits s))((?h, ?b, i) \<mapsto>
        \<lparr>credAmount = ucAmount \<lparr>ucAmount = ?a, ucChange = change\<rparr>,
         credChange = ucChange \<lparr>ucAmount = ?a, ucChange = change\<rparr>, credSpentBy = None\<rparr>)"
    by (rule moveCredit_step [OF L u bal known i None early [OF None] _ _ mv])
      (simp_all add: a debit_spent [OF L])
  then have st': "ledgerOf isCB T (mdom s) (spentBy isCB T (mdom s)) s'"
      "bal' = utxoTotal T (Get (unspent s'))" "sameBase s s'" by blast+
  have eq: "snd (addCredit s rec (Some bm) i change) = s'\<lparr>minedBalance := bal'\<rparr>"
    using mv None by (auto simp: addCredit_def moveCredit_def rec Let_def putUnspentCredit_def putUnspent_def)
  show ?thesis
    unfolding eq using inv st'(1,2) sameBaseD [OF st'(3)] unminedInv_cong [of "s'\<lparr>minedBalance := bal'\<rparr>" s]
      blocksOk_cong [of "s'\<lparr>minedBalance := bal'\<rparr>" s]
    by (simp add: storeInv_def minedKnown_def disjointOk_def labelsOk_def)
qed (use inv in \<open>simp add: addCredit_def Let_def\<close>)

section \<open>Labels and leases\<close>

lemma storeInv_PutTxLabel:
  assumes inv: "storeInv isCB T s" and ok: "PutTxLabel s h label = Inr s'"
  shows "storeInv isCB T s'"
proof -
  define b where "b = (case txLabels s of None \<Rightarrow> bempty | Some b \<Rightarrow> b)"
  have l: "label \<noteq> []" "length label < 2 ^ 16" and s': "s' = s\<lparr>txLabels := Some (Put b h (serializeLabel label))\<rparr>"
    using ok by (auto simp: PutTxLabel_def TxLabelLimit_def b_def Let_def split: if_splits)
  have "labelsOk s'"
    using inv DeserializeLabel_ser [OF l]
    by (auto simp: s' labelsOk_def b_def storeInv_def split: option.splits if_splits)
  then show ?thesis
    using inv unminedInv_cong [of s' s] blocksOk_cong [of s' s]
    by (simp add: s' storeInv_def minedKnown_def disjointOk_def)
qed

lemma storeInv_leases:
  assumes inv: "storeInv isCB T s"
  shows "LockOutput s t1 t2 lid op d = Inr (e, s') \<Longrightarrow> storeInv isCB T s'"
    and "UnlockOutput s t lid op = Inr s' \<Longrightarrow> storeInv isCB T s'"
    and "storeInv isCB T (DeleteExpiredLockedOutputs s clk)"
proof -
  show "storeInv isCB T s'" if "LockOutput s t1 t2 lid op d = Inr (e, s')"
    using that inv
    by (auto simp: LockOutput_def Let_def split: if_splits
        intro: storeInv_sameLedger [OF sameLedger_lock(1)])
  show "storeInv isCB T s'" if "UnlockOutput s t lid op = Inr s'"
    using that inv
    by (auto simp: UnlockOutput_def split: if_splits option.splits
        intro: storeInv_sameLedger [OF sameLedger_lock(2)])
  show "storeInv isCB T (DeleteExpiredLockedOutputs s clk)"
    unfolding DeleteExpiredLockedOutputs_def Let_def
    by (rule storeInv_sameLedger [OF sameLedger_fold_unlock inv])
qed

lemma storeInv_RemoveUnminedTx:
  assumes univ: "universe isCB T rk" and inv: "storeInv isCB T s" and rec: "msgTx rec = T (txHash rec)"
  shows "\<exists>s'. RemoveUnminedTx s rec = Inr s' \<and> storeInv isCB T s' \<and> sameMined s s' \<and>
    Get (unmined s') = Get (unmined s) |` (- descendants T (udom s) {txHash rec}) \<and>
    Get (unminedCredits s') = Get (unminedCredits s) |` {op. opHash op \<notin> descendants T (udom s) {txHash rec}}"
proof -
  let ?h = "txHash rec"
  obtain s' where s': "removeConflict (conflictFuel s) ?h (T ?h) s = Inr s'"
    "removes T (udom s) {?h} s s'" "?h \<notin> udom s'" "\<forall>y \<in> udom s'. \<not> spends T ?h y"
    using removeConflict_exact [OF univ, of s ?h] inv by (auto simp: storeInv_def)
  have "storeInv isCB T s'"
    using storeInv_removed [OF inv] removes_udom [OF s'(2)] s'(2) by (auto simp: removes_def)
  moreover have "x \<notin> udom s' \<and> (\<forall>y \<in> udom s'. \<not> spends T x y)" if "x \<in> {?h}" for x
    using s'(3,4) that by blast
  ultimately show ?thesis
    using s'(1,2) removes_exact [OF s'(2)] by (simp add: RemoveUnminedTx_def rec removes_def)
qed

end
