(* ===== verification/Wtx_Rollback.thy ===== *)
theory Wtx_Rollback
  imports Wtx_Handlers
begin

text \<open>
  \<open>rollback\<close> of \<^verbatim>\<open>wtxmgr/tx.go\<close>: detaching every block from a height on succeeds on a
  consistent store, keeps its invariant, moves the detached transactions back to the
  unmined bucket and removes what spent a detached coinbase.
\<close>

section \<open>Inputs\<close>

text \<open>The buckets that undoing a transaction does not touch.\<close>

definition sameChain :: "ns \<Rightarrow> ns \<Rightarrow> bool" where
  "sameChain s s' \<longleftrightarrow>
     s'\<lparr>credits := credits s, unspent := unspent s, debits := debits s, unmined := unmined s,
        unminedCredits := unminedCredits s, unminedInputs := unminedInputs s\<rparr> = s"

lemma sameChain_refl [simp]: "sameChain s s"
  by (simp add: sameChain_def)

lemma sameChain_trans: "sameChain s s' \<Longrightarrow> sameChain s' s'' \<Longrightarrow> sameChain s s''"
  by (cases s; cases s'; cases s'') (simp add: sameChain_def)

lemma sameChainD:
  assumes "sameChain s s'"
  shows "blocks s' = blocks s" "txRecords s' = txRecords s" "txLabels s' = txLabels s"
    "lockedOutputs s' = lockedOutputs s" "minedBalance s' = minedBalance s"
  using assms by (cases s; cases s'; simp add: sameChain_def)+

lemma spenders_cong: "unminedInputs s' = unminedInputs s \<Longrightarrow> spenders s' op = spenders s op"
  using fetch_cong by metis

lemma rollbackInput_step:
  assumes univ: "universe isCB T rk" and L: "ledgerOf isCB T M X (rbNs r)" and u: "uniq M"
    and bal: "rbBal r = utxoTotal T (Get (unspent (rbNs r)))"
    and j: "j < length (TxIn (T h))" "TxIn (T h) ! j = op"
    and r': "r' = rollbackInput h b (j, op) r"
  shows "ledgerOf isCB T M (X - {op}) (rbNs r')"
    "rbBal r' = utxoTotal T (Get (unspent (rbNs r')))"
    "dom (Get (credits (rbNs r'))) = dom (Get (credits (rbNs r)))"
    "Get (debits (rbNs r')) = (Get (debits (rbNs r)))((h, b, of_nat j) := None)"
    "unminedInputs (rbNs r') = unminedInputs (putRawUnminedInput (rbNs r) op h)"
    "unmined (rbNs r') = unmined (rbNs r)" "unminedCredits (rbNs r') = unminedCredits (rbNs r)"
    "sameChain (rbNs r) (rbNs r')" "rbCB r' = rbCB r"
proof -
  let ?s = "rbNs r" let ?dk = "(h, b, of_nat j :: uint32)"
  let ?s1 = "putRawUnminedInput ?s op h"
  have jj: "unat (of_nat j :: uint32) = j"
    using j(1) universeD(2) [OF univ, of h] by (simp add: unat_of_nat)
  have s1: "credits ?s1 = credits ?s" "unspent ?s1 = unspent ?s" "debits ?s1 = debits ?s"
    by (simp_all add: putRawUnminedInput_def)
  have main: "ledgerOf isCB T M (X - {op}) (rbNs r') \<and>
    rbBal r' = utxoTotal T (Get (unspent (rbNs r'))) \<and>
    dom (Get (credits (rbNs r'))) = dom (Get (credits ?s)) \<and>
    Get (debits (rbNs r')) = (Get (debits ?s))(?dk := None) \<and>
    unminedInputs (rbNs r') = unminedInputs ?s1 \<and> unmined (rbNs r') = unmined ?s \<and>
    unminedCredits (rbNs r') = unminedCredits ?s \<and> sameChain ?s (rbNs r') \<and> rbCB r' = rbCB r"
  proof (cases "Get (debits ?s) ?dk")
    case None
    have "r' = r\<lparr>rbNs := ?s1\<rparr>" using None by (simp add: r' rollbackInput_def s1 Let_def)
    moreover have "ledgerOf isCB T M (X - {op}) ?s" using L by (rule ledger_grow) auto
    ultimately show ?thesis using None bal
      by (simp add: s1 fun_upd_idem sameChain_def putRawUnminedInput_def)
  next
    case (Some d)
    obtain h' b' i' where ck: "debCredKey d = (h', b', i')" by (cases "debCredKey d")
    have op: "op = OutPoint h' i'" using ledgerD(5) [OF L Some] j jj ck by simp
    show ?thesis
    proof (cases "Get (credits ?s) (h', b', i')")
      case None
      have "r' = r\<lparr>rbNs := deleteRawDebit ?s1 ?dk\<rparr>"
        using Some None ck by (simp add: r' rollbackInput_def s1 Let_def unspendRawCredit_def)
      moreover have "ledgerOf isCB T M (X - {op}) (deleteRawDebit ?s1 ?dk)"
        using ledger_grow [OF ledger_undebit [OF L Some], of M "X - {op}"] None ck
        by (simp add: deleteRawDebit_def s1)
      ultimately show ?thesis using bal
        by (simp add: s1 deleteRawDebit_def sameChain_def putRawUnminedInput_def)
    next
      case c: (Some c)
      define s2 where "s2 = deleteRawDebit (?s1\<lparr>credits := Put (credits ?s1) (h', b', i')
          (c\<lparr>credSpentBy := None\<rparr>)\<rparr>) ?dk"
      have r'eq: "r' = (if credAmount c = 0 then r\<lparr>rbNs := s2\<rparr>
          else r\<lparr>rbNs := putUnspent s2 op b', rbBal := rbBal r + credAmount c\<rparr>)"
        using Some c ck by (simp add: r' rollbackInput_def s1 Let_def unspendRawCredit_def s2_def)
      have s2: "credits s2 = Put (credits ?s) (h', b', i') (c\<lparr>credSpentBy := None\<rparr>)"
        "unspent s2 = unspent ?s" "debits s2 = Delete (debits ?s) ?dk"
        "unminedInputs s2 = unminedInputs ?s1" "unmined s2 = unmined ?s"
        "unminedCredits s2 = unminedCredits ?s" "sameChain ?s s2"
        by (simp_all add: s2_def deleteRawDebit_def s1 sameChain_def putRawUnminedInput_def)
      have un: "Get (unspent (rbNs r')) = (if credAmount c = 0 then Get (unspent ?s)
          else (Get (unspent ?s))(OutPoint h' i' \<mapsto> b'))"
        by (simp add: r'eq s2 putUnspent_def op)
      have "credits (rbNs r') = credits s2" "debits (rbNs r') = debits s2"
        by (simp_all add: r'eq putUnspent_def)
      then have L': "ledgerOf isCB T M (X - {op}) (rbNs r')"
        using ledger_unspend [OF L u Some ck c un] by (simp add: s2 op)
      have "credSpentBy c = Some ?dk" using ledgerD(6) [OF L Some] c ck by simp
      then have "Get (unspent ?s) op = None"
        using ledger_unspent_unique [OF L u, of h' b' i'] ledgerD(1) [OF L c] ledgerD(2) [OF L, of h' i'] c op
        by (cases "Get (unspent ?s) op") fastforce+
      moreover have "credAmount c = opValue T op" using ledgerD(1) [OF L c] by (simp add: op opValue_def)
      ultimately have "rbBal r' = utxoTotal T (Get (unspent (rbNs r')))"
        using total_add [of "Get (unspent ?s)" op T b'] bal un by (simp add: r'eq op)
      with L' s2 c show ?thesis by (auto simp: r'eq putUnspent_def sameChain_def)
    qed
  qed
  from main show "ledgerOf isCB T M (X - {op}) (rbNs r')"
    "rbBal r' = utxoTotal T (Get (unspent (rbNs r')))"
    "dom (Get (credits (rbNs r'))) = dom (Get (credits ?s))"
    "Get (debits (rbNs r')) = (Get (debits ?s))(?dk := None)"
    "unminedInputs (rbNs r') = unminedInputs ?s1"
    "unmined (rbNs r') = unmined ?s" "unminedCredits (rbNs r') = unminedCredits ?s"
    "sameChain ?s (rbNs r')" "rbCB r' = rbCB r" by blast+
qed

lemma rollbackInput_loop:
  assumes univ: "universe isCB T rk" and u: "uniq M"
  shows "ledgerOf isCB T M X (rbNs r) \<Longrightarrow> rbBal r = utxoTotal T (Get (unspent (rbNs r))) \<Longrightarrow>
    drop n (TxIn (T h)) = ops \<Longrightarrow> r' = fold (rollbackInput h b) (enumerate n ops) r \<Longrightarrow>
    ledgerOf isCB T M (X - set ops) (rbNs r') \<and> rbBal r' = utxoTotal T (Get (unspent (rbNs r'))) \<and>
    dom (Get (credits (rbNs r'))) = dom (Get (credits (rbNs r))) \<and>
    (\<forall>k. Get (debits (rbNs r')) k \<noteq> None \<longrightarrow> Get (debits (rbNs r)) k \<noteq> None) \<and>
    (\<forall>k. n \<le> k \<longrightarrow> k < length (TxIn (T h)) \<longrightarrow> Get (debits (rbNs r')) (h, b, of_nat k) = None) \<and>
    (\<forall>op. spenders (rbNs r') op = spenders (rbNs r) op \<union> (if op \<in> set ops then {h} else {})) \<and>
    (\<forall>op. Get (unminedInputs (rbNs r)) op \<noteq> Some [] \<longrightarrow> Get (unminedInputs (rbNs r')) op \<noteq> Some []) \<and>
    unmined (rbNs r') = unmined (rbNs r) \<and> unminedCredits (rbNs r') = unminedCredits (rbNs r) \<and>
    sameChain (rbNs r) (rbNs r') \<and> rbCB r' = rbCB r"
proof (induction ops arbitrary: n r X)
  case (Cons op ops)
  define r1 where "r1 = rollbackInput h b (n, op) r"
  have n: "n < length (TxIn (T h))" using Cons.prems(3) by (metis drop_eq_Nil leI list.distinct(1))
  then have n': "TxIn (T h) ! n = op" "drop (Suc n) (TxIn (T h)) = ops"
    using Cons.prems(3) by (metis hd_drop_conv_nth list.sel(1)) (metis Cons.prems(3) drop_Suc list.sel(3) tl_drop)
  note st = rollbackInput_step [OF univ Cons.prems(1) u Cons.prems(2) n n'(1) r1_def]
  have ih: "ledgerOf isCB T M (X - {op} - set ops) (rbNs r') \<and> rbBal r' = utxoTotal T (Get (unspent (rbNs r'))) \<and>
    dom (Get (credits (rbNs r'))) = dom (Get (credits (rbNs r1))) \<and>
    (\<forall>k. Get (debits (rbNs r')) k \<noteq> None \<longrightarrow> Get (debits (rbNs r1)) k \<noteq> None) \<and>
    (\<forall>k. Suc n \<le> k \<longrightarrow> k < length (TxIn (T h)) \<longrightarrow> Get (debits (rbNs r')) (h, b, of_nat k) = None) \<and>
    (\<forall>op. spenders (rbNs r') op = spenders (rbNs r1) op \<union> (if op \<in> set ops then {h} else {})) \<and>
    (\<forall>op. Get (unminedInputs (rbNs r1)) op \<noteq> Some [] \<longrightarrow> Get (unminedInputs (rbNs r')) op \<noteq> Some []) \<and>
    unmined (rbNs r') = unmined (rbNs r1) \<and> unminedCredits (rbNs r') = unminedCredits (rbNs r1) \<and>
    sameChain (rbNs r1) (rbNs r') \<and> rbCB r' = rbCB r1"
    by (rule Cons.IH [OF st(1,2) n'(2)]) (simp add: r1_def Cons.prems(4))
  have "X - {op} - set ops = X - set (op # ops)" by auto
  moreover have "Get (debits (rbNs r')) (h, b, of_nat k) = None" if "n \<le> k" "k < length (TxIn (T h))" for k
  proof (cases "k = n")
    case True
    then have "Get (debits (rbNs r1)) (h, b, of_nat k) = None" using st(4) by simp
    then show ?thesis using ih by blast
  next
    case False
    then show ?thesis using ih that by simp
  qed
  moreover have "Get (debits (rbNs r')) k \<noteq> None \<longrightarrow> Get (debits (rbNs r)) k \<noteq> None" for k
    using ih st(4) by (metis fun_upd_apply)
  moreover have "spenders (rbNs r') op' = spenders (rbNs r) op' \<union> (if op' \<in> set (op # ops) then {h} else {})" for op'
    using ih spenders_cong [OF st(5)] by simp
  moreover have "Get (unminedInputs (rbNs r')) op' \<noteq> Some []" if "Get (unminedInputs (rbNs r)) op' \<noteq> Some []" for op'
    using ih st(5) put_input_nonempty [OF that] by metis
  ultimately show ?case using ih st sameChain_trans [OF st(8)] by auto
qed (auto simp: fun_upd_idem)

section \<open>Outputs\<close>

text \<open>What taking back an output does to the mined buckets, for either kind of transaction.\<close>

lemma remove_output:
  assumes L: "ledgerOf isCB T M X s" and u: "uniq M" and bal: "bal = utxoTotal T (Get (unspent s))"
    and hb: "(h, b) \<in> M" and val: "v = outValue (T h) i"
    and s': "Get (credits s') = (Get (credits s))((h, b, i) := None)" "debits s' = debits s"
      "Get (unspent s') = (Get (unspent s))(OutPoint h i := None)"
      "bal' = (if Get (unspent s) (OutPoint h i) = None then bal else bal - v)"
  shows "ledgerOf isCB T M X s'" "bal' = utxoTotal T (Get (unspent s'))"
proof -
  show "ledgerOf isCB T M X s'"
    unfolding s'(1,3) s'(2) by (rule ledger_remove [OF L u hb])
  show "bal' = utxoTotal T (Get (unspent s'))"
    using s'(3,4) bal val total_remove [of "Get (unspent s)" "OutPoint h i" _ T]
    by (cases "Get (unspent s) (OutPoint h i)") (simp_all add: opValue_def fun_upd_idem)
qed

lemma rollbackOutput_step:
  assumes L: "ledgerOf isCB T M X (rbNs r)" and u: "uniq M"
    and bal: "rbBal r = utxoTotal T (Get (unspent (rbNs r)))"
    and hb: "(h, b) \<in> M" "hasOut (T h) i" "Value txo = outValue (T h) i"
    and ui: "unminedInv T (rbNs r)" "h \<in> udom (rbNs r)"
    and r': "r' = rollbackOutput h b (i, txo) r"
  shows "ledgerOf isCB T M X (rbNs r') \<and> rbBal r' = utxoTotal T (Get (unspent (rbNs r'))) \<and>
    dom (Get (credits (rbNs r'))) = dom (Get (credits (rbNs r))) - {(h, b, i)} \<and>
    debits (rbNs r') = debits (rbNs r) \<and> unminedInv T (rbNs r') \<and>
    unmined (rbNs r') = unmined (rbNs r) \<and> sameChain (rbNs r) (rbNs r') \<and> rbCB r' = rbCB r"
proof (cases "Get (credits (rbNs r)) (h, b, i)")
  case None
  then have "r' = r" by (simp add: r' rollbackOutput_def Let_def)
  with None L bal ui show ?thesis by auto
next
  case (Some c)
  let ?s = "rbNs r" let ?op = "OutPoint h i"
  let ?s1 = "deleteRawCredit (putRawUnminedCredit ?s ?op (credAmount c) (credChange c)) (h, b, i)"
  have r'eq: "r' = (if Get (unspent ?s) ?op = None then r\<lparr>rbNs := ?s1\<rparr>
      else r\<lparr>rbNs := deleteRawUnspent ?s1 ?op, rbBal := rbBal r - Value txo\<rparr>)"
    using Some by (simp add: r' rollbackOutput_def Let_def existsUnspent_def deleteRawCredit_def
        putRawUnminedCredit_def)
  have f: "Get (credits (rbNs r')) = (Get (credits ?s))((h, b, i) := None)"
    "debits (rbNs r') = debits ?s" "Get (unspent (rbNs r')) = (Get (unspent ?s))(?op := None)"
    "rbBal r' = (if Get (unspent ?s) ?op = None then rbBal r else rbBal r - Value txo)"
    "unmined (rbNs r') = unmined ?s" "unminedInputs (rbNs r') = unminedInputs ?s"
    "Get (unminedCredits (rbNs r')) = (Get (unminedCredits ?s))(?op \<mapsto>
       \<lparr>ucAmount = credAmount c, ucChange = credChange c\<rparr>)"
    "sameChain ?s (rbNs r')" "rbCB r' = rbCB r"
    by (auto simp: r'eq deleteRawCredit_def putRawUnminedCredit_def deleteRawUnspent_def
        sameChain_def fun_upd_idem)
  have "credAmount c = outValue (T h) i" using ledgerD(1) [OF L Some] by blast
  then have "unminedInv T (rbNs r')"
    using ui hb(2) f(5,7) fetch_cong [OF f(6)] f(6)
    by (auto simp: unminedInv_def unminedKnown_def indexExact_def unminedCreditsOk_def split: if_splits)
  with remove_output [OF L u bal hb(1,3) f(1-4)] f show ?thesis by auto
qed

lemma rollbackOutput_loop:
  assumes u: "uniq M" and hb: "(h, b) \<in> M"
  shows "ledgerOf isCB T M X (rbNs r) \<Longrightarrow> rbBal r = utxoTotal T (Get (unspent (rbNs r))) \<Longrightarrow>
    unminedInv T (rbNs r) \<Longrightarrow> h \<in> udom (rbNs r) \<Longrightarrow>
    \<forall>(i, txo) \<in> set outs. hasOut (T h) i \<and> Value txo = outValue (T h) i \<Longrightarrow>
    r' = fold (rollbackOutput h b) outs r \<Longrightarrow>
    ledgerOf isCB T M X (rbNs r') \<and> rbBal r' = utxoTotal T (Get (unspent (rbNs r'))) \<and>
    dom (Get (credits (rbNs r'))) = dom (Get (credits (rbNs r))) - {(h, b, i) | i. i \<in> fst ` set outs} \<and>
    debits (rbNs r') = debits (rbNs r) \<and> unminedInv T (rbNs r') \<and>
    unmined (rbNs r') = unmined (rbNs r) \<and> sameChain (rbNs r) (rbNs r') \<and> rbCB r' = rbCB r"
proof (induction outs arbitrary: r)
  case (Cons io outs)
  obtain i txo where io: "io = (i, txo)" by force
  define r1 where "r1 = rollbackOutput h b (i, txo) r"
  have "hasOut (T h) i" "Value txo = outValue (T h) i" using Cons.prems(5) io by auto
  note st = rollbackOutput_step [OF Cons.prems(1) u Cons.prems(2) hb this Cons.prems(3,4) r1_def]
  have "ledgerOf isCB T M X (rbNs r') \<and> rbBal r' = utxoTotal T (Get (unspent (rbNs r'))) \<and>
    dom (Get (credits (rbNs r'))) = dom (Get (credits (rbNs r1))) - {(h, b, i) | i. i \<in> fst ` set outs} \<and>
    debits (rbNs r') = debits (rbNs r1) \<and> unminedInv T (rbNs r') \<and>
    unmined (rbNs r') = unmined (rbNs r1) \<and> sameChain (rbNs r1) (rbNs r') \<and> rbCB r' = rbCB r1"
    by (rule Cons.IH) (use st Cons.prems io r1_def in auto)
  with st show ?case using io sameChain_trans by auto
qed auto

lemma rollbackCoinbaseOut_step:
  assumes L: "ledgerOf isCB T M X (rbNs r)" and u: "uniq M"
    and bal: "rbBal r = utxoTotal T (Get (unspent (rbNs r)))"
    and hb: "(h, b) \<in> M" "Value txo = outValue (T h) i"
    and r': "r' = rollbackCoinbaseOut h b (i, txo) r"
  shows "ledgerOf isCB T M X (rbNs r') \<and> rbBal r' = utxoTotal T (Get (unspent (rbNs r'))) \<and>
    dom (Get (credits (rbNs r'))) = dom (Get (credits (rbNs r))) - {(h, b, i)} \<and>
    debits (rbNs r') = debits (rbNs r) \<and> unmined (rbNs r') = unmined (rbNs r) \<and>
    unminedCredits (rbNs r') = unminedCredits (rbNs r) \<and>
    unminedInputs (rbNs r') = unminedInputs (rbNs r) \<and> sameChain (rbNs r) (rbNs r') \<and>
    set (rbCB r') = set (rbCB r) \<union> {op. op = OutPoint h i \<and> Get (credits (rbNs r)) (h, b, i) \<noteq> None}"
proof (cases "Get (credits (rbNs r)) (h, b, i)")
  case None
  then have "r' = r" by (simp add: r' rollbackCoinbaseOut_def Let_def)
  with None L bal show ?thesis by auto
next
  case (Some c)
  let ?s = "rbNs r" let ?op = "OutPoint h i"
  have f: "Get (credits (rbNs r')) = (Get (credits ?s))((h, b, i) := None)"
    "debits (rbNs r') = debits ?s" "Get (unspent (rbNs r')) = (Get (unspent ?s))(?op := None)"
    "rbBal r' = (if Get (unspent ?s) ?op = None then rbBal r else rbBal r - Value txo)"
    "unmined (rbNs r') = unmined ?s" "unminedCredits (rbNs r') = unminedCredits ?s"
    "unminedInputs (rbNs r') = unminedInputs ?s" "sameChain ?s (rbNs r')" "rbCB r' = rbCB r @ [?op]"
    using Some by (auto simp: r' rollbackCoinbaseOut_def Let_def existsUnspent_def deleteRawCredit_def
        deleteRawUnspent_def sameChain_def fun_upd_idem)
  with remove_output [OF L u bal hb f(1-4)] Some show ?thesis by auto
qed

lemma rollbackCoinbase_loop:
  assumes u: "uniq M" and hb: "(h, b) \<in> M"
  shows "ledgerOf isCB T M X (rbNs r) \<Longrightarrow> rbBal r = utxoTotal T (Get (unspent (rbNs r))) \<Longrightarrow>
    \<forall>(i, txo) \<in> set outs. Value txo = outValue (T h) i \<Longrightarrow> distinct (map fst outs) \<Longrightarrow>
    r' = fold (rollbackCoinbaseOut h b) outs r \<Longrightarrow>
    ledgerOf isCB T M X (rbNs r') \<and> rbBal r' = utxoTotal T (Get (unspent (rbNs r'))) \<and>
    dom (Get (credits (rbNs r'))) = dom (Get (credits (rbNs r))) - {(h, b, i) | i. i \<in> fst ` set outs} \<and>
    debits (rbNs r') = debits (rbNs r) \<and> unmined (rbNs r') = unmined (rbNs r) \<and>
    unminedCredits (rbNs r') = unminedCredits (rbNs r) \<and>
    unminedInputs (rbNs r') = unminedInputs (rbNs r) \<and> sameChain (rbNs r) (rbNs r') \<and>
    set (rbCB r') = set (rbCB r) \<union>
      {OutPoint h i | i. i \<in> fst ` set outs \<and> Get (credits (rbNs r)) (h, b, i) \<noteq> None}"
proof (induction outs arbitrary: r)
  case (Cons io outs)
  obtain i txo where io: "io = (i, txo)" by force
  define r1 where "r1 = rollbackCoinbaseOut h b (i, txo) r"
  have "Value txo = outValue (T h) i" using Cons.prems(3) io by auto
  note st = rollbackCoinbaseOut_step [OF Cons.prems(1) u Cons.prems(2) hb this r1_def]
  have ih: "ledgerOf isCB T M X (rbNs r') \<and> rbBal r' = utxoTotal T (Get (unspent (rbNs r'))) \<and>
    dom (Get (credits (rbNs r'))) = dom (Get (credits (rbNs r1))) - {(h, b, i) | i. i \<in> fst ` set outs} \<and>
    debits (rbNs r') = debits (rbNs r1) \<and> unmined (rbNs r') = unmined (rbNs r1) \<and>
    unminedCredits (rbNs r') = unminedCredits (rbNs r1) \<and>
    unminedInputs (rbNs r') = unminedInputs (rbNs r1) \<and> sameChain (rbNs r1) (rbNs r') \<and>
    set (rbCB r') = set (rbCB r1) \<union>
      {OutPoint h i | i. i \<in> fst ` set outs \<and> Get (credits (rbNs r1)) (h, b, i) \<noteq> None}"
    by (rule Cons.IH) (use st Cons.prems io r1_def in auto)
  have same: "Get (credits (rbNs r1)) (h, b, k) = None \<longleftrightarrow> Get (credits (rbNs r)) (h, b, k) = None"
    if "k \<in> fst ` set outs" for k
  proof -
    have "k \<noteq> i" using that Cons.prems(4) io by auto
    then have "(h, b, k) \<in> dom (Get (credits (rbNs r1))) \<longleftrightarrow> (h, b, k) \<in> dom (Get (credits (rbNs r)))"
      using st by auto
    then show ?thesis by (metis domIff)
  qed
  have eq: "k \<in> fst ` set outs \<and> Get (credits (rbNs r1)) (h, b, k) \<noteq> None \<longleftrightarrow>
      k \<in> fst ` set outs \<and> Get (credits (rbNs r)) (h, b, k) \<noteq> None" for k
    by (rule conj_cong [OF refl]) (simp only: same)
  then have "{OutPoint h k | k. k \<in> fst ` set outs \<and> Get (credits (rbNs r1)) (h, b, k) \<noteq> None} =
      {OutPoint h k | k. k \<in> fst ` set outs \<and> Get (credits (rbNs r)) (h, b, k) \<noteq> None}"
    by (simp only: eq)
  moreover have "set (rbCB r') = set (rbCB r1) \<union>
      {OutPoint h i | i. i \<in> fst ` set outs \<and> Get (credits (rbNs r1)) (h, b, i) \<noteq> None}"
    "set (rbCB r1) = set (rbCB r) \<union> {op. op = OutPoint h i \<and> Get (credits (rbNs r)) (h, b, i) \<noteq> None}"
    by (simp_all only: ih st)
  ultimately have "set (rbCB r') = set (rbCB r) \<union>
      {op. op = OutPoint h i \<and> Get (credits (rbNs r)) (h, b, i) \<noteq> None} \<union>
      {OutPoint h k | k. k \<in> fst ` set outs \<and> Get (credits (rbNs r)) (h, b, k) \<noteq> None}"
    by simp
  moreover have "\<dots> = set (rbCB r) \<union>
      {OutPoint h k | k. k \<in> fst ` set (io # outs) \<and> Get (credits (rbNs r)) (h, b, k) \<noteq> None}"
    unfolding io by (simp only: list.set image_insert fst_conv insert_iff) blast
  ultimately have "set (rbCB r') = set (rbCB r) \<union>
      {OutPoint h k | k. k \<in> fst ` set (io # outs) \<and> Get (credits (rbNs r)) (h, b, k) \<noteq> None}"
    by simp
  moreover have "dom (Get (credits (rbNs r'))) =
      dom (Get (credits (rbNs r))) - {(h, b, k) | k. k \<in> fst ` set (io # outs)}"
  proof -
    have "dom (Get (credits (rbNs r'))) =
        dom (Get (credits (rbNs r1))) - {(h, b, k) | k. k \<in> fst ` set outs}"
      "dom (Get (credits (rbNs r1))) = dom (Get (credits (rbNs r))) - {(h, b, i)}"
      by (simp_all only: ih st)
    then show ?thesis unfolding io by (simp only: list.set image_insert fst_conv) blast
  qed
  moreover have "sameChain (rbNs r) (rbNs r')" using ih st sameChain_trans by metis
  moreover have "ledgerOf isCB T M X (rbNs r') \<and> rbBal r' = utxoTotal T (Get (unspent (rbNs r'))) \<and>
    debits (rbNs r') = debits (rbNs r) \<and> unmined (rbNs r') = unmined (rbNs r) \<and>
    unminedCredits (rbNs r') = unminedCredits (rbNs r) \<and> unminedInputs (rbNs r') = unminedInputs (rbNs r)"
    using ih st by metis
  ultimately show ?case by metis
qed auto

section \<open>One transaction\<close>

text \<open>What holds between two transactions of the loop: the store invariant without the block
  records, the running balance in place of the stored one.\<close>

definition rbInv :: "(MsgTx \<Rightarrow> bool) \<Rightarrow> (hash \<Rightarrow> MsgTx) \<Rightarrow> rbState \<Rightarrow> bool" where
  "rbInv isCB T r \<longleftrightarrow>
     minedKnown T (rbNs r) \<and> uniq (mdom (rbNs r)) \<and> noDouble isCB T (mdom (rbNs r)) \<and>
     ledgerOf isCB T (mdom (rbNs r)) (spentBy isCB T (mdom (rbNs r))) (rbNs r) \<and>
     rbBal r = utxoTotal T (Get (unspent (rbNs r))) \<and>
     disjointOk (rbNs r) \<and> unminedInv T (rbNs r) \<and> labelsOk (rbNs r)"

text \<open>What undoing the mined transactions of \<open>K\<close> amounts to.\<close>

definition undone :: "(MsgTx \<Rightarrow> bool) \<Rightarrow> (hash \<Rightarrow> MsgTx) \<Rightarrow> TxKey set \<Rightarrow> rbState \<Rightarrow> rbState \<Rightarrow> bool" where
  "undone isCB T K r r' \<longleftrightarrow>
     mdom (rbNs r') = mdom (rbNs r) - K \<and>
     udom (rbNs r') = udom (rbNs r) \<union> {h. \<exists>b. (h, b) \<in> K \<and> \<not> isCB (T h)} \<and>
     dom (Get (credits (rbNs r'))) = dom (Get (credits (rbNs r))) - {(h, b, i) | h b i. (h, b) \<in> K} \<and>
     set (rbCB r') = set (rbCB r) \<union>
       {OutPoint h i | h i. isCB (T h) \<and> (\<exists>b. (h, b) \<in> K \<and> (h, b, i) \<in> dom (Get (credits (rbNs r))))} \<and>
     blocks (rbNs r') = blocks (rbNs r) \<and> txLabels (rbNs r') = txLabels (rbNs r) \<and>
     lockedOutputs (rbNs r') = lockedOutputs (rbNs r)"

lemma undoneD:
  assumes "undone isCB T K r r'"
  shows "mdom (rbNs r') = mdom (rbNs r) - K"
    "udom (rbNs r') = udom (rbNs r) \<union> {h. \<exists>b. (h, b) \<in> K \<and> \<not> isCB (T h)}"
    "dom (Get (credits (rbNs r'))) = dom (Get (credits (rbNs r))) - {(h, b, i) | h b i. (h, b) \<in> K}"
    "set (rbCB r') = set (rbCB r) \<union>
       {OutPoint h i | h i. isCB (T h) \<and> (\<exists>b. (h, b) \<in> K \<and> (h, b, i) \<in> dom (Get (credits (rbNs r))))}"
    "blocks (rbNs r') = blocks (rbNs r)" "txLabels (rbNs r') = txLabels (rbNs r)"
    "lockedOutputs (rbNs r') = lockedOutputs (rbNs r)"
  by (simp_all only: assms [unfolded undone_def])

lemma undone_refl: "undone isCB T {} r r"
  by (simp add: undone_def)

lemma undone_trans:
  assumes "undone isCB T K1 r r1" "undone isCB T K2 r1 r2" "K1 \<inter> K2 = {}"
  shows "undone isCB T (K1 \<union> K2) r r2"
proof -
  note u1 = assms(1) [unfolded undone_def] and u2 = assms(2) [unfolded undone_def]
  have md: "mdom (rbNs r2) = mdom (rbNs r) - (K1 \<union> K2)" using u1 u2 by auto
  have ud: "udom (rbNs r2) = udom (rbNs r) \<union> {h. \<exists>b. (h, b) \<in> K1 \<union> K2 \<and> \<not> isCB (T h)}"
    using u1 u2 by auto
  have cd: "dom (Get (credits (rbNs r2))) =
      dom (Get (credits (rbNs r))) - {(h, b, i) | h b i. (h, b) \<in> K1 \<union> K2}"
    using u1 u2 by auto
  have same: "(h, b, i) \<in> dom (Get (credits (rbNs r1))) \<longleftrightarrow> (h, b, i) \<in> dom (Get (credits (rbNs r)))"
    if "(h, b) \<in> K2" for h b i
  proof -
    have "(h, b) \<notin> K1" using that assms(3) by blast
    then show ?thesis using u1 by simp
  qed
  have eq: "(h, b) \<in> K2 \<and> (h, b, i) \<in> dom (Get (credits (rbNs r1))) \<longleftrightarrow>
      (h, b) \<in> K2 \<and> (h, b, i) \<in> dom (Get (credits (rbNs r)))" for h b i
    by (rule conj_cong [OF refl same])
  have "{OutPoint h i | h i. isCB (T h) \<and> (\<exists>b. (h, b) \<in> K2 \<and> (h, b, i) \<in> dom (Get (credits (rbNs r1))))} =
      {OutPoint h i | h i. isCB (T h) \<and> (\<exists>b. (h, b) \<in> K2 \<and> (h, b, i) \<in> dom (Get (credits (rbNs r))))}"
    by (simp only: eq)
  moreover have "set (rbCB r2) = set (rbCB r1) \<union> {OutPoint h i | h i. isCB (T h) \<and>
      (\<exists>b. (h, b) \<in> K2 \<and> (h, b, i) \<in> dom (Get (credits (rbNs r1))))}"
    "set (rbCB r1) = set (rbCB r) \<union> {OutPoint h i | h i. isCB (T h) \<and>
      (\<exists>b. (h, b) \<in> K1 \<and> (h, b, i) \<in> dom (Get (credits (rbNs r))))}"
    by (simp_all only: u1 u2)
  ultimately have "set (rbCB r2) = set (rbCB r) \<union> {OutPoint h i | h i. isCB (T h) \<and>
      (\<exists>b. (h, b) \<in> K1 \<and> (h, b, i) \<in> dom (Get (credits (rbNs r))))} \<union>
    {OutPoint h i | h i. isCB (T h) \<and> (\<exists>b. (h, b) \<in> K2 \<and> (h, b, i) \<in> dom (Get (credits (rbNs r))))}"
    by (simp only:)
  moreover have "\<dots> = set (rbCB r) \<union> {OutPoint h i | h i. isCB (T h) \<and>
      (\<exists>b. (h, b) \<in> K1 \<union> K2 \<and> (h, b, i) \<in> dom (Get (credits (rbNs r))))}" by blast
  ultimately have cb: "set (rbCB r2) = set (rbCB r) \<union> {OutPoint h i | h i. isCB (T h) \<and>
      (\<exists>b. (h, b) \<in> K1 \<union> K2 \<and> (h, b, i) \<in> dom (Get (credits (rbNs r))))}"
    by (simp only:)
  have "blocks (rbNs r2) = blocks (rbNs r) \<and> txLabels (rbNs r2) = txLabels (rbNs r) \<and>
      lockedOutputs (rbNs r2) = lockedOutputs (rbNs r)" using u1 u2 by simp
  with md ud cd cb show ?thesis unfolding undone_def by (intro conjI) blast+
qed

lemma outs_zip:
  assumes "universe isCB T rk"
  shows "\<forall>(i, txo) \<in> set (zip (idxs (TxOut (T h))) (TxOut (T h))). hasOut (T h) i \<and> Value txo = outValue (T h) i"
    and "fst ` set (zip (idxs (TxOut (T h))) (TxOut (T h))) = {i. hasOut (T h) i}"
    and "distinct (map fst (zip (idxs (TxOut (T h))) (TxOut (T h))))"
proof -
  have len: "length (idxs (TxOut (T h))) = length (TxOut (T h))" by (simp add: idxs_def)
  then have m: "map fst (zip (idxs (TxOut (T h))) (TxOut (T h))) = idxs (TxOut (T h))" by simp
  then show "distinct (map fst (zip (idxs (TxOut (T h))) (TxOut (T h))))"
    using distinct_idxs universeD(1) [OF assms] by metis
  show "fst ` set (zip (idxs (TxOut (T h))) (TxOut (T h))) = {i. hasOut (T h) i}"
    using m set_idxs [OF universeD(1) [OF assms]] by (metis (no_types, lifting) Collect_cong hasOut_def image_set)
  have "unat (of_nat n :: uint32) = n" if "n < length (TxOut (T h))" for n
    using that universeD(1) [OF assms, of h] by (simp add: unat_of_nat)
  then show "\<forall>(i, txo) \<in> set (zip (idxs (TxOut (T h))) (TxOut (T h))). hasOut (T h) i \<and> Value txo = outValue (T h) i"
    by (auto simp: set_zip idxs_def hasOut_def outValue_def)
qed

lemma spentBy_minus:
  assumes "noDouble isCB T M" "(h, b) \<in> M" "\<not> isCB (T h)" "uniq M"
  shows "spentBy isCB T (M - {(h, b)}) \<subseteq> spentBy isCB T M - set (TxIn (T h))"
proof
  fix op assume "op \<in> spentBy isCB T (M - {(h, b)})"
  then obtain h' b' where o: "(h', b') \<in> M" "(h', b') \<noteq> (h, b)" "\<not> isCB (T h')" "op \<in> set (TxIn (T h'))"
    by (auto simp: spentBy_def)
  have "h' \<noteq> h" using o assms(2,4) unfolding uniq_def by blast
  then have "op \<notin> set (TxIn (T h))" using o assms unfolding noDouble_def by blast
  with o show "op \<in> spentBy isCB T M - set (TxIn (T h))" unfolding spentBy_def by blast
qed

lemma rollbackTx_coinbase:
  assumes univ: "universe isCB T rk" and inv: "rbInv isCB T r" and hb: "(h, b) \<in> mdom (rbNs r)"
    and cb: "isCB (T h)"
  shows "\<exists>r'. rollbackTx isCB b h r = Inr r' \<and> rbInv isCB T r' \<and> undone isCB T {(h, b)} r r'"
proof -
  let ?M = "mdom (rbNs r)" let ?outs = "zip (idxs (TxOut (T h))) (TxOut (T h))"
  obtain v where v: "Get (txRecords (rbNs r)) (h, b) = Some v" using hb by blast
  then have T: "tvTx v = T h" using inv unfolding rbInv_def minedKnown_def by blast
  define r0 where "r0 = r\<lparr>rbNs := deleteTxRecord (rbNs r) h b\<rparr>"
  define r' where "r' = fold (rollbackCoinbaseOut h b) ?outs r0"
  have ok: "rollbackTx isCB b h r = Inr r'"
    using v T cb by (simp add: rollbackTx_def r'_def r0_def Let_def)
  have r0 [simp]: "credits (rbNs r0) = credits (rbNs r)" "unspent (rbNs r0) = unspent (rbNs r)"
    "debits (rbNs r0) = debits (rbNs r)" "unmined (rbNs r0) = unmined (rbNs r)"
    "unminedCredits (rbNs r0) = unminedCredits (rbNs r)" "unminedInputs (rbNs r0) = unminedInputs (rbNs r)"
    "blocks (rbNs r0) = blocks (rbNs r)" "txLabels (rbNs r0) = txLabels (rbNs r)"
    "lockedOutputs (rbNs r0) = lockedOutputs (rbNs r)" "rbBal r0 = rbBal r" "rbCB r0 = rbCB r"
    "Get (txRecords (rbNs r0)) = (Get (txRecords (rbNs r)))((h, b) := None)"
    by (simp_all add: r0_def deleteTxRecord_def)
  have u: "uniq ?M" and L: "ledgerOf isCB T ?M (spentBy isCB T ?M) (rbNs r0)"
    and bal: "rbBal r0 = utxoTotal T (Get (unspent (rbNs r0)))"
    using inv by (simp_all add: rbInv_def)
  have vals: "\<forall>(i, txo) \<in> set ?outs. Value txo = outValue (T h) i" using outs_zip(1) [OF univ] by blast
  note lp = rollbackCoinbase_loop [OF u hb L bal vals outs_zip(3) [OF univ] r'_def]
  note f = sameChainD [of "rbNs r0" "rbNs r'"]
  have nocred: "Get (credits (rbNs r')) (h, b, i) = None" for i
  proof (rule ccontr)
    assume "Get (credits (rbNs r')) (h, b, i) \<noteq> None"
    then have "(h, b, i) \<in> dom (Get (credits (rbNs r')))" by blast
    then have "\<not> hasOut (T h) i" "(h, b, i) \<in> dom (Get (credits (rbNs r)))"
      using lp outs_zip(2) [OF univ, of h] by auto
    then show False using ledgerD(1) [OF L, of h b i] by auto
  qed
  have nodeb: "Get (debits (rbNs r')) (h, b, j) = None" for j
    using ledgerD(5) [OF L, of h b j] cb lp by (cases "Get (debits (rbNs r)) (h, b, j)") auto
  have M: "mdom (rbNs r') = ?M - {(h, b)}" using lp f(2) by auto
  have "spentBy isCB T (?M - {(h, b)}) \<subseteq> spentBy isCB T ?M" by (auto simp: spentBy_def)
  moreover have "ledgerOf isCB T (?M - {(h, b)}) (spentBy isCB T ?M) (rbNs r')"
    by (rule ledger_shrink) (use lp nocred nodeb in auto)
  ultimately have L': "ledgerOf isCB T (?M - {(h, b)}) (spentBy isCB T (?M - {(h, b)})) (rbNs r')"
    using ledger_grow by blast
  have "rbInv isCB T r'"
    unfolding rbInv_def M
  proof (intro conjI)
    show "minedKnown T (rbNs r')"
      using inv lp f(2) by (auto simp: rbInv_def minedKnown_def split: if_splits)
    show "uniq (?M - {(h, b)})" using u unfolding uniq_def by blast
    show "noDouble isCB T (?M - {(h, b)})" using inv unfolding rbInv_def noDouble_def by blast
    show "unminedInv T (rbNs r')" using inv lp unminedInv_cong [of "rbNs r'" "rbNs r"] by (simp add: rbInv_def)
    show "labelsOk (rbNs r')" using inv lp f(3) by (simp add: rbInv_def labelsOk_def)
    have "udom (rbNs r') = udom (rbNs r)" using lp by simp
    then show "disjointOk (rbNs r')" using inv unfolding rbInv_def disjointOk_def M by blast
  qed (use L' lp in blast)+
  moreover have "undone isCB T {(h, b)} r r'"
  proof -
    have "dom (Get (credits (rbNs r'))) = dom (Get (credits (rbNs r))) - {(h', b', i) | h' b' i. (h', b') \<in> {(h, b)}}"
      using lp nocred by auto
    moreover have "set (rbCB r') = set (rbCB r) \<union> {OutPoint h' i | h' i. isCB (T h') \<and>
        (\<exists>b'. (h', b') \<in> {(h, b)} \<and> (h', b', i) \<in> dom (Get (credits (rbNs r))))}"
      using lp cb outs_zip(2) [OF univ, of h] ledgerD(1) [OF L, of h b] by (auto simp: domIff)
    moreover have "udom (rbNs r') = udom (rbNs r) \<union> {h'. \<exists>b'. (h', b') \<in> {(h, b)} \<and> \<not> isCB (T h')}"
      using lp cb by auto
    moreover have "blocks (rbNs r') = blocks (rbNs r) \<and> txLabels (rbNs r') = txLabels (rbNs r) \<and>
        lockedOutputs (rbNs r') = lockedOutputs (rbNs r)" using lp f by simp
    ultimately show ?thesis using M unfolding undone_def by (intro conjI) blast+
  qed
  ultimately show ?thesis using ok by blast
qed

lemma rollbackTx_regular:
  assumes univ: "universe isCB T rk" and inv: "rbInv isCB T r" and hb: "(h, b) \<in> mdom (rbNs r)"
    and cb: "\<not> isCB (T h)"
  shows "\<exists>r'. rollbackTx isCB b h r = Inr r' \<and> rbInv isCB T r' \<and> undone isCB T {(h, b)} r r'"
proof -
  let ?M = "mdom (rbNs r)" let ?X = "spentBy isCB T (mdom (rbNs r))"
  let ?outs = "zip (idxs (TxOut (T h))) (TxOut (T h))"
  obtain v where v: "Get (txRecords (rbNs r)) (h, b) = Some v" using hb by blast
  then have T: "tvTx v = T h" using inv unfolding rbInv_def minedKnown_def by blast
  have new: "h \<notin> udom (rbNs r)" using inv hb unfolding rbInv_def disjointOk_def by blast
  define r1 where "r1 = r\<lparr>rbNs := putRawUnmined (deleteTxRecord (rbNs r) h b) h v\<rparr>"
  define r2 where "r2 = fold (rollbackInput h b) (enumerate 0 (TxIn (T h))) r1"
  define r' where "r' = fold (rollbackOutput h b) ?outs r2"
  have ok: "rollbackTx isCB b h r = Inr r'"
    using v T cb by (simp add: rollbackTx_def r'_def r2_def r1_def Let_def)
  have r1 [simp]: "credits (rbNs r1) = credits (rbNs r)" "unspent (rbNs r1) = unspent (rbNs r)"
    "debits (rbNs r1) = debits (rbNs r)" "Get (unmined (rbNs r1)) = (Get (unmined (rbNs r)))(h \<mapsto> v)"
    "unminedCredits (rbNs r1) = unminedCredits (rbNs r)" "unminedInputs (rbNs r1) = unminedInputs (rbNs r)"
    "blocks (rbNs r1) = blocks (rbNs r)" "txLabels (rbNs r1) = txLabels (rbNs r)"
    "lockedOutputs (rbNs r1) = lockedOutputs (rbNs r)" "rbBal r1 = rbBal r" "rbCB r1 = rbCB r"
    "Get (txRecords (rbNs r1)) = (Get (txRecords (rbNs r)))((h, b) := None)"
    by (simp_all add: r1_def deleteTxRecord_def putRawUnmined_def)
  have u: "uniq ?M" and L: "ledgerOf isCB T ?M ?X (rbNs r1)"
    and bal: "rbBal r1 = utxoTotal T (Get (unspent (rbNs r1)))" and ui: "unminedInv T (rbNs r)"
    using inv by (simp_all add: rbInv_def)
  have "drop 0 (TxIn (T h)) = TxIn (T h)" by simp
  note ins = rollbackInput_loop [OF univ u L bal this r2_def]
  have ui2: "unminedInv T (rbNs r2)"
  proof (rule unminedInv_add [OF ui T _ _ _ _ new])
    show "spenders (rbNs r2) op = spenders (rbNs r) op \<union> (if op \<in> set (TxIn (T h)) then {h} else {})" for op
      using ins spenders_cong [OF r1(6)] by simp
    show "Get (unminedInputs (rbNs r2)) op \<noteq> Some []" for op
      using ins ui r1(6) unfolding unminedInv_def indexExact_def by metis
  qed (use ins in simp_all)
  have "h \<in> udom (rbNs r2)" using ins by simp
  moreover have L2: "ledgerOf isCB T ?M (?X - set (TxIn (T h))) (rbNs r2)"
    "rbBal r2 = utxoTotal T (Get (unspent (rbNs r2)))" using ins by blast+
  ultimately have outs: "ledgerOf isCB T ?M (?X - set (TxIn (T h))) (rbNs r') \<and>
    rbBal r' = utxoTotal T (Get (unspent (rbNs r'))) \<and>
    dom (Get (credits (rbNs r'))) = dom (Get (credits (rbNs r2))) - {(h, b, i) | i. i \<in> fst ` set ?outs} \<and>
    debits (rbNs r') = debits (rbNs r2) \<and> unminedInv T (rbNs r') \<and>
    unmined (rbNs r') = unmined (rbNs r2) \<and> sameChain (rbNs r2) (rbNs r') \<and> rbCB r' = rbCB r2"
    using rollbackOutput_loop [OF u hb _ _ ui2 _ outs_zip(1) [OF univ] r'_def] by blast
  have "sameChain (rbNs r1) (rbNs r2)" "sameChain (rbNs r2) (rbNs r')" by (simp_all only: ins outs)
  then have ch: "sameChain (rbNs r1) (rbNs r')" by (rule sameChain_trans)
  note f = sameChainD [OF ch]
  have cd: "dom (Get (credits (rbNs r'))) = dom (Get (credits (rbNs r))) - {(h, b, i) | i. i \<in> fst ` set ?outs}"
    using ins outs by simp
  have nocred: "Get (credits (rbNs r')) (h, b, i) = None" for i
  proof (rule ccontr)
    assume "Get (credits (rbNs r')) (h, b, i) \<noteq> None"
    then have "(h, b, i) \<in> dom (Get (credits (rbNs r')))" by blast
    then have "\<not> hasOut (T h) i" "(h, b, i) \<in> dom (Get (credits (rbNs r)))"
      using cd outs_zip(2) [OF univ, of h] by auto
    then show False using ledgerD(1) [OF L, of h b i] by auto
  qed
  have sub: "\<forall>k. Get (debits (rbNs r2)) k \<noteq> None \<longrightarrow> Get (debits (rbNs r1)) k \<noteq> None"
    using ins by (elim conjE) assumption
  have gone: "\<forall>k\<ge>0. k < length (TxIn (T h)) \<longrightarrow> Get (debits (rbNs r2)) (h, b, of_nat k) = None"
    using ins by (elim conjE) assumption
  have nodeb: "Get (debits (rbNs r')) (h, b, j) = None" for j
  proof (rule ccontr)
    assume "Get (debits (rbNs r')) (h, b, j) \<noteq> None"
    then have d: "Get (debits (rbNs r2)) (h, b, j) \<noteq> None" using outs by simp
    then have "Get (debits (rbNs r1)) (h, b, j) \<noteq> None" using sub by blast
    then have "unat j < length (TxIn (T h))" using ledgerD(5) [OF L, of h b j] by auto
    then have "Get (debits (rbNs r2)) (h, b, of_nat (unat j)) = None" using gone by blast
    with d show False by simp
  qed
  have M: "mdom (rbNs r') = ?M - {(h, b)}" using f(2) by auto
  have "ledgerOf isCB T (?M - {(h, b)}) (?X - set (TxIn (T h))) (rbNs r')"
    by (rule ledger_shrink) (use outs nocred nodeb in auto)
  moreover have "spentBy isCB T (?M - {(h, b)}) \<subseteq> ?X - set (TxIn (T h))"
    by (rule spentBy_minus) (use inv hb cb u in \<open>auto simp: rbInv_def\<close>)
  ultimately have L': "ledgerOf isCB T (?M - {(h, b)}) (spentBy isCB T (?M - {(h, b)})) (rbNs r')"
    using ledger_grow by blast
  have ud: "udom (rbNs r') = udom (rbNs r) \<union> {h'. \<exists>b'. (h', b') \<in> {(h, b)} \<and> \<not> isCB (T h')}"
    using ins outs cb by auto
  have "rbInv isCB T r'"
    unfolding rbInv_def M
  proof (intro conjI)
    show "minedKnown T (rbNs r')"
      using inv f(2) by (auto simp: rbInv_def minedKnown_def split: if_splits)
    show "uniq (?M - {(h, b)})" using u unfolding uniq_def by blast
    show "noDouble isCB T (?M - {(h, b)})" using inv unfolding rbInv_def noDouble_def by blast
    show "labelsOk (rbNs r')" using inv f(3) by (simp add: rbInv_def labelsOk_def)
    show "disjointOk (rbNs r')"
      using inv hb u unfolding rbInv_def disjointOk_def M ud uniq_def by blast
  qed (use L' outs in blast)+
  moreover have "undone isCB T {(h, b)} r r'"
  proof -
    have "dom (Get (credits (rbNs r'))) = dom (Get (credits (rbNs r))) - {(h', b', i) | h' b' i. (h', b') \<in> {(h, b)}}"
    proof -
      have "(h, b, i) \<notin> dom (Get (credits (rbNs r')))" for i using nocred by (simp add: domIff)
      then show ?thesis using cd by blast
    qed
    moreover have "rbCB r' = rbCB r" using ins outs r1(11) by metis
    then have "set (rbCB r') = set (rbCB r) \<union> {OutPoint h' i | h' i. isCB (T h') \<and>
        (\<exists>b'. (h', b') \<in> {(h, b)} \<and> (h', b', i) \<in> dom (Get (credits (rbNs r))))}"
      using cb by auto
    moreover have "blocks (rbNs r') = blocks (rbNs r) \<and> txLabels (rbNs r') = txLabels (rbNs r) \<and>
        lockedOutputs (rbNs r') = lockedOutputs (rbNs r)" using f by simp
    ultimately show ?thesis using M ud unfolding undone_def by (intro conjI) blast+
  qed
  ultimately show ?thesis using ok by blast
qed

lemma rollbackTx_spec:
  assumes "universe isCB T rk" "rbInv isCB T r" "(h, b) \<in> mdom (rbNs r)"
  shows "\<exists>r'. rollbackTx isCB b h r = Inr r' \<and> rbInv isCB T r' \<and> undone isCB T {(h, b)} r r'"
  using rollbackTx_coinbase [OF assms] rollbackTx_regular [OF assms] by blast

section \<open>Blocks\<close>

text \<open>Two nested loops of the same shape: undo a list of disjoint sets of transactions.\<close>

lemma undo_loop:
  assumes step: "\<And>x r. x \<in> set xs \<Longrightarrow> rbInv isCB T r \<Longrightarrow> K x \<subseteq> mdom (rbNs r) \<Longrightarrow>
      \<exists>r'. f x r = Inr r' \<and> rbInv isCB T r' \<and> undone isCB T (K x) r r'"
    and "rbInv isCB T r" and "(\<Union>x \<in> set xs. K x) \<subseteq> mdom (rbNs r)"
    and "distinct xs" and "\<And>x y. x \<in> set xs \<Longrightarrow> y \<in> set xs \<Longrightarrow> x \<noteq> y \<Longrightarrow> K x \<inter> K y = {}"
  shows "\<exists>r'. fold_err f xs r = Inr r' \<and> rbInv isCB T r' \<and> undone isCB T (\<Union>x \<in> set xs. K x) r r'"
  using assms
proof (induction xs arbitrary: r)
  case Nil
  then show ?case by (simp add: undone_refl)
next
  case (Cons x xs)
  obtain r1 where r1: "f x r = Inr r1" "rbInv isCB T r1" "undone isCB T (K x) r r1"
    using Cons.prems(1) [of x r] Cons.prems(2,3) by auto
  have dis: "K x \<inter> (\<Union>y \<in> set xs. K y) = {}"
  proof -
    have "K x \<inter> K y = {}" if "y \<in> set xs" for y
      by (rule Cons.prems(5)) (use that Cons.prems(4) in auto)
    then show ?thesis by blast
  qed
  have "\<exists>r'. fold_err f xs r1 = Inr r' \<and> rbInv isCB T r' \<and> undone isCB T (\<Union>x \<in> set xs. K x) r1 r'"
  proof (rule Cons.IH)
    show "\<exists>r'. f y t = Inr r' \<and> rbInv isCB T r' \<and> undone isCB T (K y) t r'"
      if "y \<in> set xs" "rbInv isCB T t" "K y \<subseteq> mdom (rbNs t)" for y t
      by (rule Cons.prems(1)) (use that in auto)
    show "K y \<inter> K z = {}" if "y \<in> set xs" "z \<in> set xs" "y \<noteq> z" for y z
      by (rule Cons.prems(5)) (use that in auto)
    have "mdom (rbNs r1) = mdom (rbNs r) - K x" by (rule undoneD(1) [OF r1(3)])
    then show "(\<Union>x \<in> set xs. K x) \<subseteq> mdom (rbNs r1)" using Cons.prems(3) dis by auto
  qed (use r1 Cons.prems(4) in auto)
  then obtain r' where r': "fold_err f xs r1 = Inr r'" "rbInv isCB T r'"
    "undone isCB T (\<Union>x \<in> set xs. K x) r1 r'" by blast
  have "undone isCB T (\<Union>y \<in> set (x # xs). K y) r r'"
    using undone_trans [OF r1(3) r'(3) dis] by simp
  then show ?case using r1(1) r'(1,2) by simp
qed

definition blockKeys :: "uint32 \<times> blockRecord \<Rightarrow> TxKey set" where
  "blockKeys hb = {(h, Block (fst hb) (brHash (snd hb))) | h. h \<in> set (transactions (snd hb))}"

lemma rollbackBlock_spec:
  assumes univ: "universe isCB T rk" and "rbInv isCB T r" and "blockKeys hb \<subseteq> mdom (rbNs r)"
    and "distinct (transactions (snd hb))"
  shows "\<exists>r'. rollbackBlock isCB hb r = Inr r' \<and> rbInv isCB T r' \<and> undone isCB T (blockKeys hb) r r'"
proof -
  let ?b = "Block (fst hb) (brHash (snd hb))"
  have eq: "blockKeys hb = (\<Union>h \<in> set (transactions (snd hb)). {(h, ?b)})" by (auto simp: blockKeys_def)
  show ?thesis
    unfolding rollbackBlock_def eq
    by (rule undo_loop [where K = "\<lambda>h. {(h, ?b)}"])
      (use assms rollbackTx_spec [OF univ] eq in auto)
qed

section \<open>The blocks visited\<close>

lemma takeWhile_filter:
  "sorted_wrt (\<lambda>x y. P y \<longrightarrow> P x) xs \<Longrightarrow> takeWhile P xs = filter P xs"
proof (induction xs)
  case (Cons x xs)
  show ?case
  proof (cases "P x")
    case False
    then have "filter P xs = []" using Cons.prems by (auto simp: filter_empty_conv)
    with False show ?thesis by simp
  qed (use Cons in simp)
qed simp

lemma word_less_sint_nonneg:
  fixes a b :: "32 word"
  assumes "0 \<le> sint a" "0 \<le> sint b"
  shows "a < b \<longleftrightarrow> sint a < sint b"
proof -
  have "sint w = uint w" if "0 \<le> sint w" for w :: "32 word"
  proof -
    have "even (uint w div 2 ^ 31)"
      using that by (simp add: sint_uint bit_iff_odd)
    moreover have "uint w < 2 ^ 32" "0 \<le> uint w" using uint_lt2p [of w] by simp_all
    moreover have "uint w div 2 ^ 31 = 1" if "2 ^ 31 \<le> uint w"
      by (rule int_div_pos_eq [of _ _ _ "uint w - 2 ^ 31"]) (use that calculation(2) in simp_all)
    ultimately have "uint w < 2 ^ 31" by fastforce
    then show ?thesis using \<open>0 \<le> uint w\<close>
      by (simp add: sint_uint signed_take_bit_eq_if_positive bit_iff_odd take_bit_int_eq_self)
  qed
  then show ?thesis using assms by (simp add: word_less_def)
qed

lemma rollbackBlocks_filter:
  assumes "blocksOk s"
  shows "rollbackBlocks s height = filter (\<lambda>(ht, br). \<not> sint ht < sint height) (rev (ForEach (blocks s)))"
  unfolding rollbackBlocks_def
proof (rule takeWhile_filter)
  have nn: "0 \<le> sint ht" if "(ht, br) \<in> set (ForEach (blocks s))" for ht br
    using assms that unfolding blocksOk_def bkt.forEach_iff by blast
  have "sorted_wrt (\<lambda>x y. fst y < fst x) (rev (ForEach (blocks s)))"
    using bkt.forEach_sorted [of "blocks s"] by (simp add: sorted_wrt_rev sorted_wrt_map)
  then show "sorted_wrt (\<lambda>x y. (case y of (ht, br) \<Rightarrow> \<not> sint ht < sint height) \<longrightarrow>
      (case x of (ht, br) \<Rightarrow> \<not> sint ht < sint height)) (rev (ForEach (blocks s)))"
  proof (rule sorted_wrt_mono_rel [rotated])
    fix x y assume "x \<in> set (rev (ForEach (blocks s)))" "y \<in> set (rev (ForEach (blocks s)))" "fst y < fst x"
    then have "sint (fst y) < sint (fst x)"
      using nn [of "fst x" "snd x"] nn [of "fst y" "snd y"]
      by (auto simp: word_less_sint_nonneg)
    then show "(case y of (ht, br) \<Rightarrow> \<not> sint ht < sint height) \<longrightarrow>
        (case x of (ht, br) \<Rightarrow> \<not> sint ht < sint height)" by auto
  qed
qed

lemma rollbackBlocks_set:
  assumes "blocksOk s"
  shows "(ht, br) \<in> set (rollbackBlocks s height) \<longleftrightarrow> Get (blocks s) ht = Some br \<and> \<not> sint ht < sint height"
    and "distinct (rollbackBlocks s height)"
proof -
  show "(ht, br) \<in> set (rollbackBlocks s height) \<longleftrightarrow> Get (blocks s) ht = Some br \<and> \<not> sint ht < sint height"
    by (auto simp: rollbackBlocks_filter [OF assms] bkt.forEach_iff)
  have "distinct (ForEach (blocks s))" using bkt.distinct_keys [of "blocks s"] by (simp add: distinct_map)
  then show "distinct (rollbackBlocks s height)" by (simp add: rollbackBlocks_filter [OF assms])
qed

text \<open>The transactions recorded at \<open>height\<close> or above.\<close>

definition detached :: "ns \<Rightarrow> uint32 \<Rightarrow> TxKey set" where
  "detached s height = {(h, b) \<in> mdom s. \<not> sint (bHeight b) < sint height}"

lemma blockKeys_detached:
  assumes ok: "blocksOk s"
  shows "(\<Union>hb \<in> set (rollbackBlocks s height). blockKeys hb) = detached s height"
proof (rule set_eqI)
  fix hb :: TxKey
  obtain h b where hb: "hb = (h, b)" by force
  have "hb \<in> (\<Union>hb \<in> set (rollbackBlocks s height). blockKeys hb) \<longleftrightarrow>
      (\<exists>br. Get (blocks s) (bHeight b) = Some br \<and> \<not> sint (bHeight b) < sint height \<and>
        bHash b = brHash br \<and> h \<in> set (transactions br))"
  proof -
    have "hb \<in> (\<Union>hb \<in> set (rollbackBlocks s height). blockKeys hb) \<longleftrightarrow>
        (\<exists>ht br. (ht, br) \<in> set (rollbackBlocks s height) \<and> b = Block ht (brHash br) \<and> h \<in> set (transactions br))"
      unfolding hb blockKeys_def by force
    also have "\<dots> \<longleftrightarrow> (\<exists>br. (bHeight b, br) \<in> set (rollbackBlocks s height) \<and> bHash b = brHash br \<and>
        h \<in> set (transactions br))" by (cases b) auto
    finally show ?thesis unfolding rollbackBlocks_set(1) [OF ok] by blast
  qed
  also have "\<dots> \<longleftrightarrow> hb \<in> detached s height"
  proof
    assume "\<exists>br. Get (blocks s) (bHeight b) = Some br \<and> \<not> sint (bHeight b) < sint height \<and>
        bHash b = brHash br \<and> h \<in> set (transactions br)"
    then obtain br where br: "Get (blocks s) (bHeight b) = Some br" "\<not> sint (bHeight b) < sint height"
      "bHash b = brHash br" "h \<in> set (transactions br)" by blast
    have "(h, Block (bHeight b) (brHash br)) \<in> mdom s" using ok br(1,4) unfolding blocksOk_def by blast
    moreover have "Block (bHeight b) (brHash br) = b" using br(3) by (metis Block.collapse)
    ultimately show "hb \<in> detached s height" using br(2) by (simp add: detached_def hb)
  next
    assume "hb \<in> detached s height"
    then have "(h, b) \<in> mdom s" "\<not> sint (bHeight b) < sint height" by (auto simp: detached_def hb)
    then show "\<exists>br. Get (blocks s) (bHeight b) = Some br \<and> \<not> sint (bHeight b) < sint height \<and>
        bHash b = brHash br \<and> h \<in> set (transactions br)"
      using ok unfolding blocksOk_def by metis
  qed
  finally show "hb \<in> (\<Union>hb \<in> set (rollbackBlocks s height). blockKeys hb) \<longleftrightarrow> hb \<in> detached s height" .
qed

lemma undo_blocks:
  assumes univ: "universe isCB T rk" and inv: "storeInv isCB T s"
  shows "\<exists>r. fold_err (rollbackBlock isCB) (rollbackBlocks s height)
        \<lparr>rbNs = s, rbBal = minedBalance s, rbCB = []\<rparr> = Inr r \<and> rbInv isCB T r \<and>
      undone isCB T (detached s height) \<lparr>rbNs = s, rbBal = minedBalance s, rbCB = []\<rparr> r"
proof -
  let ?r = "\<lparr>rbNs = s, rbBal = minedBalance s, rbCB = []\<rparr>" let ?bs = "rollbackBlocks s height"
  have ok: "blocksOk s" using inv by (simp add: storeInv_def)
  note K = blockKeys_detached [OF ok, of height]
  have "\<exists>r'. fold_err (rollbackBlock isCB) ?bs ?r = Inr r' \<and> rbInv isCB T r' \<and>
      undone isCB T (\<Union>hb \<in> set ?bs. blockKeys hb) ?r r'"
  proof (rule undo_loop)
    fix hb r assume hb: "hb \<in> set ?bs" and r: "rbInv isCB T r" "blockKeys hb \<subseteq> mdom (rbNs r)"
    have "Get (blocks s) (fst hb) = Some (snd hb)"
      using hb rollbackBlocks_set(1) [OF ok, of "fst hb" "snd hb"] by simp
    then have "distinct (transactions (snd hb))" using ok unfolding blocksOk_def by blast
    then show "\<exists>r'. rollbackBlock isCB hb r = Inr r' \<and> rbInv isCB T r' \<and> undone isCB T (blockKeys hb) r r'"
      by (rule rollbackBlock_spec [OF univ r])
  next
    show "rbInv isCB T ?r" using inv by (simp add: storeInv_def rbInv_def)
    show "(\<Union>hb \<in> set ?bs. blockKeys hb) \<subseteq> mdom (rbNs ?r)" unfolding K by (auto simp: detached_def)
    show "distinct ?bs" by (rule rollbackBlocks_set(2) [OF ok])
  next
    fix x y assume xy: "x \<in> set ?bs" "y \<in> set ?bs" "x \<noteq> y"
    then have "Get (blocks s) (fst x) = Some (snd x)" "Get (blocks s) (fst y) = Some (snd y)"
      using rollbackBlocks_set(1) [OF ok, of "fst x" "snd x"] rollbackBlocks_set(1) [OF ok, of "fst y" "snd y"]
      by simp_all
    then have "fst x \<noteq> fst y" using xy(3) by (metis option.inject prod_eqI)
    then show "blockKeys x \<inter> blockKeys y = {}" by (auto simp: blockKeys_def)
  qed
  then show ?thesis unfolding K .
qed

lemma fold_deleteBlock:
  "Get (blocks (fold (\<lambda>(ht, br) s. deleteBlockRecord s ht) bs s)) ht =
     (if ht \<in> fst ` set bs then None else Get (blocks s) ht)"
  by (induction bs arbitrary: s) (auto simp: deleteBlockRecord_def)

definition sameButBlocks :: "ns \<Rightarrow> ns \<Rightarrow> bool" where
  "sameButBlocks s s' \<longleftrightarrow> s'\<lparr>blocks := blocks s\<rparr> = s"

lemma sameButBlocks_fold: "sameButBlocks s (fold (\<lambda>(ht, br) s. deleteBlockRecord s ht) bs s)"
proof (rule fold_inv [where P = "sameButBlocks s"])
  show "sameButBlocks s ((case x of (ht, br) \<Rightarrow> \<lambda>s. deleteBlockRecord s ht) t)" if "sameButBlocks s t" for x t
    using that by (cases s; cases t; cases x) (simp add: sameButBlocks_def deleteBlockRecord_def)
qed (simp add: sameButBlocks_def)

lemma sameButBlocksD:
  assumes "sameButBlocks s s'"
  shows "txRecords s' = txRecords s" "txLabels s' = txLabels s" "credits s' = credits s"
    "unspent s' = unspent s" "debits s' = debits s" "unmined s' = unmined s"
    "unminedCredits s' = unminedCredits s" "unminedInputs s' = unminedInputs s"
    "lockedOutputs s' = lockedOutputs s"
  using assms by (cases s; cases s'; simp add: sameButBlocks_def)+

section \<open>The whole operation\<close>

text \<open>The outputs of detached coinbases that were credits, and the unmined transactions that
  spend one of them.\<close>

definition lostOutputs :: "(MsgTx \<Rightarrow> bool) \<Rightarrow> (hash \<Rightarrow> MsgTx) \<Rightarrow> ns \<Rightarrow> uint32 \<Rightarrow> OutPoint set" where
  "lostOutputs isCB T s height =
     {OutPoint h i | h i. isCB (T h) \<and> (\<exists>b. (h, b) \<in> detached s height \<and> (h, b, i) \<in> dom (Get (credits s)))}"

definition returned :: "(MsgTx \<Rightarrow> bool) \<Rightarrow> (hash \<Rightarrow> MsgTx) \<Rightarrow> ns \<Rightarrow> uint32 \<Rightarrow> hash set" where
  "returned isCB T s height = udom s \<union> {h. \<exists>b. (h, b) \<in> detached s height \<and> \<not> isCB (T h)}"

definition orphaned :: "(MsgTx \<Rightarrow> bool) \<Rightarrow> (hash \<Rightarrow> MsgTx) \<Rightarrow> ns \<Rightarrow> uint32 \<Rightarrow> hash set" where
  "orphaned isCB T s height =
     {y \<in> returned isCB T s height. set (TxIn (T y)) \<inter> lostOutputs isCB T s height \<noteq> {}}"

lemma blocksOk_detach:
  assumes ok: "blocksOk s"
    and s': "\<And>ht. Get (blocks s') ht = (if \<not> sint ht < sint height then None else Get (blocks s) ht)"
      "mdom s' = mdom s - detached s height"
  shows "blocksOk s'"
  unfolding blocksOk_def
proof (intro conjI allI impI)
  fix ht br assume "Get (blocks s') ht = Some br"
  then have br: "Get (blocks s) ht = Some br" "sint ht < sint height" using s'(1) by (auto split: if_splits)
  then show "0 \<le> sint ht" "distinct (transactions br)" using ok unfolding blocksOk_def by blast+
  show "\<forall>h \<in> set (transactions br). (h, Block ht (brHash br)) \<in> mdom s'"
    using ok br unfolding blocksOk_def s'(2) detached_def by simp
next
  fix h b assume "(h, b) \<in> mdom s'"
  then have "(h, b) \<in> mdom s" "sint (bHeight b) < sint height" unfolding s'(2) by (auto simp: detached_def)
  then show "\<exists>br. Get (blocks s') (bHeight b) = Some br \<and> brHash br = bHash b \<and> h \<in> set (transactions br)"
    using ok s'(1) unfolding blocksOk_def by simp
qed

lemma rollback_spec:
  assumes univ: "universe isCB T rk" and inv: "storeInv isCB T s"
  shows "\<exists>s'. rollback isCB s height = Inr s' \<and> storeInv isCB T s' \<and>
    mdom s' = mdom s - detached s height \<and>
    udom s' = returned isCB T s height -
      descendants T (returned isCB T s height) (orphaned isCB T s height) \<and>
    dom (Get (credits s')) = {(h, b, i) \<in> dom (Get (credits s)). (h, b) \<notin> detached s height}"
proof -
  let ?bs = "rollbackBlocks s height" let ?r0 = "\<lparr>rbNs = s, rbBal = minedBalance s, rbCB = []\<rparr>"
  have ok: "blocksOk s" using inv by (simp add: storeInv_def)
  obtain r where r: "fold_err (rollbackBlock isCB) ?bs ?r0 = Inr r" "rbInv isCB T r"
    "undone isCB T (detached s height) ?r0 r" using undo_blocks [OF univ inv] by blast
  note un = undoneD [OF r(3), simplified]
  define s1 where "s1 = fold (\<lambda>(ht, br) s. deleteBlockRecord s ht) ?bs (rbNs r)"
  note sb = sameButBlocksD [OF sameButBlocks_fold [of "rbNs r" ?bs], folded s1_def]
  have bl: "Get (blocks s1) ht = (if \<not> sint ht < sint height then None else Get (blocks s) ht)" for ht
  proof -
    have "ht \<in> fst ` set ?bs \<longleftrightarrow> Get (blocks s) ht \<noteq> None \<and> \<not> sint ht < sint height"
      using rollbackBlocks_set(1) [OF ok, of ht] by force
    then show ?thesis by (auto simp: s1_def fold_deleteBlock un)
  qed
  have M: "mdom s1 = mdom s - detached s height" using un(1) sb(1) by simp
  have b1: "blocksOk s1" by (rule blocksOk_detach [OF ok bl M])
  have U: "udom s1 = returned isCB T s height" using un(2) sb(6) by (simp add: returned_def)
  have CB: "set (rbCB r) = lostOutputs isCB T s height" using un(4) by (simp add: lostOutputs_def)
  have ui1: "unminedInv T s1" using r(2) unminedInv_cong [OF sb(6,7,8)] by (simp add: rbInv_def)
  let ?H = "orphaned isCB T s height"
  obtain s2 where s2: "fold_err (\<lambda>op s. fold_err removeSpender (fetchUnminedInputSpendTxHashes s op) s)
      (rbCB r) s1 = Inr s2" "removes T (udom s1) ?H s1 s2"
    "\<forall>op \<in> set (rbCB r). \<forall>y \<in> udom s2. op \<notin> set (TxIn (T y))"
    using removeOps_loop [OF univ _ ui1 order_refl, where skip = "\<lambda>_. False" and ops = "rbCB r" and H = ?H]
    unfolding orphaned_def CB U by auto
  have "y \<notin> udom s2 \<and> (\<forall>z \<in> udom s2. \<not> spends T y z)" if y: "y \<in> ?H" for y
  proof -
    have "y \<notin> udom s2" "y \<in> udom s1" using y s2(3) unfolding orphaned_def CB U by blast+
    then show ?thesis using s2(2) unfolding removes_def by blast
  qed
  then have "Get (unmined s2) = Get (unmined s1) |` (- descendants T (udom s1) ?H)"
    by (rule removes_exact(1) [OF s2(2)])
  then have U2: "udom s2 = udom s1 - descendants T (udom s1) ?H" by auto
  have sm: "sameMined s1 s2" and ui2: "unminedInv T s2" using s2(2) by (simp_all add: removes_def)
  note f = sameMinedD [OF sm]
  define s' where "s' = s2\<lparr>minedBalance := rbBal r\<rparr>"
  have s' [simp]: "blocks s' = blocks s1" "txRecords s' = txRecords (rbNs r)" "txLabels s' = txLabels (rbNs r)"
    "credits s' = credits (rbNs r)" "unspent s' = unspent (rbNs r)" "debits s' = debits (rbNs r)"
    "minedBalance s' = rbBal r" "unmined s' = unmined s2"
    by (simp_all add: s'_def f sb)
  have "storeInv isCB T s'"
    unfolding storeInv_def
  proof (intro conjI)
    show "blocksOk s'" using b1 blocksOk_cong [of s' s1] sb(1) by simp
    show "unminedInv T s'" using ui2 unminedInv_cong [of s' s2] by (simp add: s'_def)
    have "udom s2 \<subseteq> udom (rbNs r)" using U2 sb(6) by auto
    then show "disjointOk s'" using r(2) unfolding rbInv_def disjointOk_def s' by blast
  qed (use r(2) in \<open>simp_all add: rbInv_def minedKnown_def labelsOk_def\<close>)
  moreover have "rollback isCB s height = Inr s'"
    using r(1) s2(1) by (simp add: rollback_def Let_def s1_def [symmetric] s'_def)
  moreover have "mdom s' = mdom s - detached s height" using M sb(1) by simp
  moreover have "dom (Get (credits s')) = {(h, b, i) \<in> dom (Get (credits s)). (h, b) \<notin> detached s height}"
    using un(3) by auto
  ultimately show ?thesis using U2 U by (auto simp: s'_def)
qed

end
