(* ===== verification/Wtx_Machine.thy ===== *)
theory Wtx_Machine
  imports Wtx_Rollback
begin

text \<open>
  The transaction store as a state machine: the steps are the exported handlers of
  \<^verbatim>\<open>wtxmgr.Store\<close> called the way the chain allows, and the invariant holds in every
  reachable store.
\<close>

section \<open>Machines with an invariant\<close>

locale safe_machine =
  fixes init :: 's and step :: "'s \<Rightarrow> 's \<Rightarrow> bool" and inv :: "'s \<Rightarrow> bool"
  assumes init_inv: "inv init"
    and step_inv: "inv s \<Longrightarrow> step s s' \<Longrightarrow> inv s'"
begin

lemma reach_inv: "step\<^sup>*\<^sup>* init s \<Longrightarrow> inv s"
  by (induction rule: rtranclp_induct) (auto intro: init_inv step_inv)

end

section \<open>The steps\<close>

inductive store_step :: "(MsgTx \<Rightarrow> bool) \<Rightarrow> (hash \<Rightarrow> MsgTx) \<Rightarrow> ns \<Rightarrow> ns \<Rightarrow> bool"
  for isCB :: "MsgTx \<Rightarrow> bool" and T :: "hash \<Rightarrow> MsgTx" where
  insert_mined: "msgTx rec = T (txHash rec) \<Longrightarrow>
    (txHash rec, block bm) \<in> mdom s \<or> mineable isCB T s (txHash rec) (block bm) \<Longrightarrow>
    InsertTx s rec (Some bm) = Inr s' \<Longrightarrow> store_step isCB T s s'"
| insert_unmined: "msgTx rec = T (txHash rec) \<Longrightarrow> InsertTx s rec None = Inr s' \<Longrightarrow>
    store_step isCB T s s'"
| credit_mined: "msgTx rec = T (txHash rec) \<Longrightarrow> (txHash rec, block bm) \<in> mdom s \<Longrightarrow>
    Get (credits s) (txHash rec, block bm, i) \<noteq> None \<or> OutPoint (txHash rec) i \<notin> spentBy isCB T (mdom s) \<Longrightarrow>
    AddCredit s rec (Some bm) i change = Inr (new, s') \<Longrightarrow> store_step isCB T s s'"
| credit_unmined: "msgTx rec = T (txHash rec) \<Longrightarrow>
    txHash rec \<in> udom s \<or> (\<exists>b. (txHash rec, b) \<in> mdom s) \<Longrightarrow>
    AddCredit s rec None i change = Inr (new, s') \<Longrightarrow> store_step isCB T s s'"
| remove_unmined: "msgTx rec = T (txHash rec) \<Longrightarrow> RemoveUnminedTx s rec = Inr s' \<Longrightarrow>
    store_step isCB T s s'"
| roll_back: "Rollback isCB s height = Inr s' \<Longrightarrow> store_step isCB T s s'"
| label: "PutTxLabel s h l = Inr s' \<Longrightarrow> store_step isCB T s s'"
| lease: "LockOutput s t1 t2 lid op d = Inr (e, s') \<Longrightarrow> store_step isCB T s s'"
| release: "UnlockOutput s t lid op = Inr s' \<Longrightarrow> store_step isCB T s s'"
| purge: "store_step isCB T s (DeleteExpiredLockedOutputs s clk)"

section \<open>Every handler keeps the invariant\<close>

lemma InsertTx_mined_inv:
  assumes univ: "universe isCB T rk" and inv: "storeInv isCB T s"
    and rec: "msgTx rec = T (txHash rec)"
    and g: "(txHash rec, block bm) \<in> mdom s \<or> mineable isCB T s (txHash rec) (block bm)"
    and ok: "InsertTx s rec (Some bm) = Inr s'"
  shows "storeInv isCB T s'"
proof (cases "(txHash rec, block bm) \<in> mdom s")
  case True
  then have "insertMinedTx s rec bm = Inl ErrDuplicateTx" by (simp add: insertMinedTx_def domIff)
  with ok inv show ?thesis by (simp add: InsertTx_def InsertTxCheckIfExists_def)
next
  case False
  then have "mineable isCB T s (txHash rec) (block bm)" using g by blast
  from insertMinedTx_spec [OF univ inv rec this]
  obtain s1 where "insertMinedTx s rec bm = Inr s1" "storeInv isCB T s1"
    by (elim exE conjE) (rule that)
  with ok show ?thesis by (simp add: InsertTx_def InsertTxCheckIfExists_def)
qed

lemma InsertTx_unmined_cases:
  assumes univ: "universe isCB T rk" and inv: "storeInv isCB T s"
    and rec: "msgTx rec = T (txHash rec)"
  shows "\<exists>s'. InsertTx s rec None = Inr s' \<and> storeInv isCB T s' \<and>
    (if txHash rec \<in> udom s \<or> (\<exists>b. (txHash rec, b) \<in> mdom s) then s' = s
     else insertMemPoolTx s rec = Inr s')"
proof (cases "txHash rec \<in> udom s \<or> (\<exists>b. (txHash rec, b) \<in> mdom s)")
  case True
  then obtain d where "TxDetails s (txHash rec) = Inr (Some d)"
    using TxDetails_ok [OF inv, of "txHash rec"] by (metis option.exhaust)
  then have "insertMemPoolTx s rec = Inl ErrDuplicateTx" by (simp add: insertMemPoolTx_def)
  with True inv show ?thesis by (simp add: InsertTx_def InsertTxCheckIfExists_def)
next
  case False
  then obtain s1 where "insertMemPoolTx s rec = Inr s1" "storeInv isCB T s1"
    using insertMemPoolTx_spec [OF inv rec univ] by blast
  with False show ?thesis by (simp add: InsertTx_def InsertTxCheckIfExists_def)
qed

lemma AddCredit_inv:
  assumes inv: "storeInv isCB T s" and rec: "msgTx rec = T (txHash rec)"
    and ok: "AddCredit s rec obm i change = Inr (new, s')"
    and g: "case obm of
        None \<Rightarrow> txHash rec \<in> udom s \<or> (\<exists>b. (txHash rec, b) \<in> mdom s)
      | Some bm \<Rightarrow> (txHash rec, block bm) \<in> mdom s \<and>
          (Get (credits s) (txHash rec, block bm, i) \<noteq> None \<or>
           OutPoint (txHash rec) i \<notin> spentBy isCB T (mdom s))"
  shows "storeInv isCB T s'"
proof -
  have i: "hasOut (T (txHash rec)) i" and s': "s' = snd (addCredit s rec obm i change)"
    using ok rec by (auto simp: AddCredit_def hasOut_def split: if_splits)
  show ?thesis
  proof (cases obm)
    case None
    then show ?thesis using addCredit_unmined [OF inv rec i] g s' by simp
  next
    case (Some bm)
    with g have "(txHash rec, block bm) \<in> mdom s"
      "Get (credits s) (txHash rec, block bm, i) = None \<Longrightarrow> OutPoint (txHash rec) i \<notin> spentBy isCB T (mdom s)"
      by auto
    from addCredit_mined [OF inv rec i this, of change] show ?thesis using s' Some by simp
  qed
qed

lemma store_step_inv:
  assumes univ: "universe isCB T rk" and inv: "storeInv isCB T s" and step: "store_step isCB T s s'"
  shows "storeInv isCB T s'"
  using step
proof cases
  case (insert_mined rec bm)
  then show ?thesis using InsertTx_mined_inv [OF univ inv] by blast
next
  case (insert_unmined rec)
  then show ?thesis using InsertTx_unmined_cases [OF univ inv] by force
next
  case (credit_mined rec bm i change new)
  then show ?thesis using AddCredit_inv [OF inv, of rec "Some bm" i change new s'] by simp
next
  case (credit_unmined rec i change new)
  then show ?thesis using AddCredit_inv [OF inv, of rec None i change new s'] by simp
next
  case (remove_unmined rec)
  then show ?thesis using storeInv_RemoveUnminedTx [OF univ inv] by force
next
  case (roll_back height)
  then show ?thesis using rollback_spec [OF univ inv, of height] by (auto simp: Rollback_def)
next
  case (label h l)
  then show ?thesis using storeInv_PutTxLabel [OF inv] by blast
next
  case (lease t1 t2 lid op d e)
  then show ?thesis using storeInv_leases(1) [OF inv] by blast
next
  case (release t lid op)
  then show ?thesis using storeInv_leases(2) [OF inv] by blast
next
  case (purge clk)
  then show ?thesis using storeInv_leases(3) [OF inv] by simp
qed

interpretation store: safe_machine createStore "store_step isCB T"
  "\<lambda>s. universe isCB T rk \<longrightarrow> storeInv isCB T s" for isCB T rk
  by unfold_locales (auto simp: storeInv_create intro: store_step_inv)

section \<open>The balance\<close>

text \<open>The credits whose output no recorded transaction spends.\<close>

definition liveCredits :: "(MsgTx \<Rightarrow> bool) \<Rightarrow> (hash \<Rightarrow> MsgTx) \<Rightarrow> ns \<Rightarrow> CredKey set" where
  "liveCredits isCB T s = {ck \<in> dom (Get (credits s)). credOut ck \<notin> spentBy isCB T (mdom s)}"

lemma utxoTotal_live:
  assumes inv: "storeInv isCB T s"
  shows "utxoTotal T (Get (unspent s)) =
    (\<Sum>ck \<in> liveCredits isCB T s. credAmount (the (Get (credits s) ck)))"
proof -
  let ?C = "Get (credits s)" and ?N = "Get (unspent s)" and ?X = "spentBy isCB T (mdom s)"
  let ?A = "{ck \<in> liveCredits isCB T s. ?N (credOut ck) \<noteq> None}"
  let ?k = "\<lambda>op. (opHash op, the (?N op), opIndex op)"
  have L: "ledgerOf isCB T (mdom s) ?X s" and u: "uniq (mdom s)" using inv by (simp_all add: storeInv_def)
  have key: "?N (OutPoint h i) = Some b" if mem: "(h, b, i) \<in> ?A" for h b i
  proof -
    obtain c b' where "?C (h, b, i) = Some c" "?N (OutPoint h i) = Some b'"
      using mem by (auto simp: liveCredits_def)
    then show ?thesis using ledger_unspent_unique [OF L u] ledgerD(1) [OF L] by blast
  qed
  have "utxoTotal T ?N = (\<Sum>ck \<in> ?A. credAmount (the (?C ck)))"
    unfolding utxoTotal_def
  proof (rule sum.reindex_bij_witness [of _ credOut ?k])
    fix op assume "op \<in> dom ?N"
    then obtain b where b: "?N op = Some b" by blast
    then obtain c where c: "?C (opHash op, b, opIndex op) = Some c"
      using ledgerD(2) [OF L, of "opHash op" "opIndex op" b] by auto
    show "credOut (?k op) = op" by simp
    have "op \<notin> ?X" using ledgerD(7) [OF L, of op] b by auto
    with b c show "?k op \<in> ?A" by (auto simp: liveCredits_def)
    show "credAmount (the (?C (?k op))) = opValue T op"
      using b c ledgerD(1) [OF L c] by (simp add: opValue_def)
  next
    fix ck assume ck: "ck \<in> ?A"
    obtain h b i where hbi: "ck = (h, b, i)" by (cases ck)
    have "?N (OutPoint h i) = Some b" by (rule key) (use ck hbi in simp)
    then show "?k (credOut ck) = ck" "credOut ck \<in> dom ?N" by (auto simp: hbi)
  qed
  also have "\<dots> = (\<Sum>ck \<in> liveCredits isCB T s. credAmount (the (?C ck)))"
  proof (rule sum.mono_neutral_left)
    show "finite (liveCredits isCB T s)"
      by (rule finite_subset [of _ "dom ?C"]) (auto simp: liveCredits_def)
    show "\<forall>ck \<in> liveCredits isCB T s - ?A. credAmount (the (?C ck)) = 0"
    proof
      fix ck assume ck: "ck \<in> liveCredits isCB T s - ?A"
      obtain h b i where hbi: "ck = (h, b, i)" by (cases ck)
      obtain c where c: "?C (h, b, i) = Some c" using ck hbi by (auto simp: liveCredits_def)
      have "credSpentBy c = None"
      proof (cases "credSpentBy c")
        case (Some dk)
        then obtain d where d: "Get (debits s) dk = Some d" "debCredKey d = (h, b, i)"
          using ledgerD(4) [OF L c] by blast
        have "OutPoint h i \<in> ?X" using debit_spent [OF L d(1)] d(2) by simp
        with ck hbi show ?thesis by (auto simp: liveCredits_def)
      qed
      moreover have "?N (OutPoint h i) = None" using ck hbi by auto
      ultimately have "credAmount c = 0" using ledgerD(3) [OF L c] by force
      then show "credAmount (the (?C ck)) = 0" using c hbi by simp
    qed
  qed auto
  finally show ?thesis .
qed

end
