(* ===== verification/Wtx_Props.thy ===== *)
theory Wtx_Props
  imports Wtx_Machine
begin

text \<open>
  The correctness properties of the transaction store, each with an instance on a small
  chain: a coinbase (hash 1) confirmed in block 1, a payment (2) and a conflicting
  payment (3) of its output, and a child (4) of the conflicting payment.
\<close>

section \<open>A small chain\<close>

definition demoOut :: "amount \<Rightarrow> txOut" where
  "demoOut v = \<lparr>Value = v, PkScript = []\<rparr>"

definition demoT :: "hash \<Rightarrow> MsgTx" where
  "demoT h =
     (if h = 1 then \<lparr>TxIn = [OutPoint 0 (-1)], TxOut = [demoOut 50]\<rparr>
      else if h = 2 then \<lparr>TxIn = [OutPoint 1 0], TxOut = [demoOut 30, demoOut 15]\<rparr>
      else if h = 3 then \<lparr>TxIn = [OutPoint 1 0], TxOut = [demoOut 40]\<rparr>
      else if h = 4 then \<lparr>TxIn = [OutPoint 3 0], TxOut = [demoOut 35]\<rparr>
      else \<lparr>TxIn = [], TxOut = []\<rparr>)"

definition demoCB :: "MsgTx \<Rightarrow> bool" where
  "demoCB tx \<longleftrightarrow> TxIn tx = [OutPoint 0 (-1)]"

definition demoRec :: "hash \<Rightarrow> TxRecord" where
  "demoRec h = \<lparr>msgTx = demoT h, txHash = h, received = 0\<rparr>"

definition demoBlock :: "uint32 \<Rightarrow> BlockMeta" where
  "demoBlock n = \<lparr>block = Block n (ucast n + 100), btime = 0\<rparr>"

definition demo1 :: ns where
  "demo1 = projr (InsertTx createStore (demoRec 1) (Some (demoBlock 1)))"

definition demo2 :: ns where
  "demo2 = snd (projr (AddCredit demo1 (demoRec 1) (Some (demoBlock 1)) 0 False))"

definition demo3 :: ns where
  "demo3 = projr (InsertTx demo2 (demoRec 3) None)"

definition demo4 :: ns where
  "demo4 = projr (InsertTx demo3 (demoRec 4) None)"

lemma demoRec [simp]: "msgTx (demoRec h) = demoT (txHash (demoRec h))" "txHash (demoRec h) = h"
  by (simp_all add: demoRec_def)

lemma demo_universe: "universe demoCB demoT unat"
  by (simp add: universe_def demoT_def demoCB_def)

lemma demo1_ok: "InsertTx createStore (demoRec 1) (Some (demoBlock 1)) = Inr demo1"
proof -
  have "\<not> isl (InsertTx createStore (demoRec 1) (Some (demoBlock 1)))" by code_simp
  then show ?thesis by (simp add: demo1_def)
qed

lemma demo2_ok: "AddCredit demo1 (demoRec 1) (Some (demoBlock 1)) 0 False = Inr (True, demo2)"
proof -
  let ?r = "AddCredit demo1 (demoRec 1) (Some (demoBlock 1)) 0 False"
  have "\<not> isl ?r \<and> fst (projr ?r)" by code_simp
  then show ?thesis unfolding demo2_def by (metis (full_types) prod.collapse sum.collapse(2))
qed

lemma demo3_ok: "InsertTx demo2 (demoRec 3) None = Inr demo3"
proof -
  have "\<not> isl (InsertTx demo2 (demoRec 3) None)" by code_simp
  then show ?thesis by (simp add: demo3_def)
qed

lemma demo4_ok: "InsertTx demo3 (demoRec 4) None = Inr demo4"
proof -
  have "\<not> isl (InsertTx demo3 (demoRec 4) None)" by code_simp
  then show ?thesis by (simp add: demo4_def)
qed

lemma mdom_list: "mdom s = set (map fst (ForEach (txRecords s)))"
  by (simp add: bkt.dom_get)

lemma udom_list: "udom s = set (map fst (ForEach (unmined s)))"
  by (simp add: bkt.dom_get)

lemma demo_mdom:
  "mdom demo1 = {(1, Block 1 101)}" "mdom demo4 = {(1, Block 1 101)}"
proof -
  have "map fst (ForEach (txRecords demo1)) = [(1, Block 1 101)]"
    "map fst (ForEach (txRecords demo4)) = [(1, Block 1 101)]" by code_simp+
  then show "mdom demo1 = {(1, Block 1 101)}" "mdom demo4 = {(1, Block 1 101)}"
    by (simp_all only: mdom_list) simp_all
qed

lemma demo_udom: "udom demo4 = {3, 4}"
proof -
  have "map fst (ForEach (unmined demo4)) = [3, 4]" by code_simp
  then show ?thesis by (simp only: udom_list) simp
qed

lemma demo_spentBy: "spentBy demoCB demoT {(1, b)} = {}"
  by (auto simp: spentBy_def demoT_def demoCB_def)

lemma demo_mineable: "mineable demoCB demoT createStore 1 (block (demoBlock 1))"
  by (simp add: mineable_def createStore_def spentBy_def demoBlock_def demoT_def demoCB_def)

lemma demo_mineable2: "mineable demoCB demoT demo4 2 (block (demoBlock 2))"
proof -
  have "Get (blocks demo4) 2 = None" by code_simp
  then show ?thesis
    by (simp add: mineable_def demo_mdom demo_spentBy demoBlock_def)
qed

lemma demo_reach: "(store_step demoCB demoT)\<^sup>*\<^sup>* createStore demo4"
proof -
  have a: "store_step demoCB demoT createStore demo1"
    by (rule insert_mined [where T = demoT, OF demoRec(1) disjI2 demo1_ok]) (simp only: demoRec(2) demo_mineable)
  have b: "store_step demoCB demoT demo1 demo2"
    by (rule credit_mined [where T = demoT, OF demoRec(1) _ _ demo2_ok])
      (simp_all add: demo_mdom demo_spentBy demoBlock_def)
  have c: "store_step demoCB demoT demo2 demo3" by (rule insert_unmined [where T = demoT, OF demoRec(1) demo3_ok])
  have d: "store_step demoCB demoT demo3 demo4" by (rule insert_unmined [where T = demoT, OF demoRec(1) demo4_ok])
  have "(store_step demoCB demoT)\<^sup>*\<^sup>* createStore demo1" using a by blast
  then have "(store_step demoCB demoT)\<^sup>*\<^sup>* createStore demo2" using b by (rule rtranclp.rtrancl_into_rtrancl)
  then have "(store_step demoCB demoT)\<^sup>*\<^sup>* createStore demo3" using c by (rule rtranclp.rtrancl_into_rtrancl)
  then show ?thesis using d by (rule rtranclp.rtrancl_into_rtrancl)
qed

lemma demo_inv: "storeInv demoCB demoT demo4"
  using store.reach_inv [OF demo_reach] demo_universe by blast

section \<open>Reachable stores\<close>





section \<open>Handlers\<close>

text \<open>C3.  Inserting a mined transaction into a consistent store succeeds and leaves it
  consistent; the transaction is recorded in its block, its unmined credits are confirmed,
  it leaves the unmined bucket together with exactly the unmined transactions that
  double-spend one of its inputs and their descendants, no remaining unmined transaction
  conflicts with it, and its inputs are no longer locked.\<close>

theorem insert_mined_correct:
  assumes "universe isCB T rk" and "storeInv isCB T s" and "msgTx rec = T (txHash rec)"
    and "mineable isCB T s (txHash rec) (block bm)"
  shows "\<exists>s'. InsertTx s rec (Some bm) = Inr s' \<and> storeInv isCB T s' \<and>
    mdom s' = insert (txHash rec, block bm) (mdom s) \<and>
    dom (Get (credits s')) = dom (Get (credits s)) \<union>
      {(txHash rec, block bm, i) | i. Get (unminedCredits s) (OutPoint (txHash rec) i) \<noteq> None} \<and>
    (let U = udom s - {txHash rec} in
     Get (unmined s') = Get (unmined s) |` (U - descendants T U (conflicts T U (txHash rec)))) \<and>
    (\<forall>y \<in> udom s'. set (TxIn (T y)) \<inter> set (TxIn (T (txHash rec))) = {}) \<and>
    (\<forall>op \<in> set (TxIn (T (txHash rec))). lockOf s' op = None)"
  using insertMinedTx_spec [OF assms]
  by (elim exE conjE, intro exI conjI) (simp_all add: InsertTx_def InsertTxCheckIfExists_def)

theorem insert_mined_correct_witness:
  "universe demoCB demoT unat \<and> storeInv demoCB demoT demo4 \<and>
   mineable demoCB demoT demo4 2 (block (demoBlock 2)) \<and>
   (\<exists>s'. InsertTx demo4 (demoRec 2) (Some (demoBlock 2)) = Inr s' \<and> storeInv demoCB demoT s' \<and>
     mdom s' = {(2, Block 2 102), (1, Block 1 101)} \<and>
     (\<forall>y \<in> udom s'. OutPoint 1 0 \<notin> set (TxIn (demoT y)))) \<and>
   map_sum id (\<lambda>s. map fst (ForEach (unmined s))) (InsertTx demo4 (demoRec 2) (Some (demoBlock 2))) = Inr []"
proof -
  have e: "map_sum id (\<lambda>s. map fst (ForEach (unmined s))) (InsertTx demo4 (demoRec 2) (Some (demoBlock 2))) = Inr []"
    by code_simp
  have m: "mineable demoCB demoT demo4 (txHash (demoRec 2)) (block (demoBlock 2))"
    by (simp only: demoRec(2) demo_mineable2)
  from insert_mined_correct [OF demo_universe demo_inv demoRec(1) m]
  obtain s' where "InsertTx demo4 (demoRec 2) (Some (demoBlock 2)) = Inr s'" "storeInv demoCB demoT s'"
    "mdom s' = insert (2, block (demoBlock 2)) (mdom demo4)"
    "\<forall>y \<in> udom s'. set (TxIn (demoT y)) \<inter> set (TxIn (demoT 2)) = {}"
    by (auto simp only: demoRec(2))
  moreover have "block (demoBlock 2) = Block 2 102" "OutPoint 1 0 \<in> set (TxIn (demoT 2))"
    by (simp_all add: demoBlock_def demoT_def)
  ultimately show ?thesis using demo_universe demo_inv demo_mineable2 e demo_mdom by auto
qed

text \<open>C4.  Rolling a consistent store back to any height succeeds and leaves it consistent:
  exactly the records at or above that height are gone, with their credits; the detached
  transactions other than coinbases are unmined again, except those that (transitively)
  spend an output of a detached coinbase, which are removed.\<close>

theorem rollback_correct:
  assumes "universe isCB T rk" and "storeInv isCB T s"
  shows "\<exists>s'. Rollback isCB s height = Inr s' \<and> storeInv isCB T s' \<and>
    mdom s' = mdom s - detached s height \<and>
    udom s' = returned isCB T s height -
      descendants T (returned isCB T s height) (orphaned isCB T s height) \<and>
    dom (Get (credits s')) = {(h, b, i) \<in> dom (Get (credits s)). (h, b) \<notin> detached s height}"
  unfolding Rollback_def by (rule rollback_spec [OF assms])

theorem rollback_correct_witness:
  "universe demoCB demoT unat \<and> storeInv demoCB demoT demo4 \<and>
   (\<exists>s'. Rollback demoCB demo4 1 = Inr s' \<and> storeInv demoCB demoT s' \<and>
     mdom s' = mdom demo4 - detached demo4 1) \<and>
   map_sum id (\<lambda>s. (map fst (ForEach (unmined s)), minedBalance s)) (Rollback demoCB demo4 1) = Inr ([], 0)"
proof -
  have "map_sum id (\<lambda>s. (map fst (ForEach (unmined s)), minedBalance s)) (Rollback demoCB demo4 1) = Inr ([], 0)"
    by code_simp
  then show ?thesis
    using rollback_correct [OF demo_universe demo_inv, of 1] demo_universe demo_inv by auto
qed

text \<open>C5.  Removing an unmined transaction succeeds (the recursion over its spenders ends) and
  removes exactly it and its unmined descendants, with their credits, and nothing of the
  mined buckets.\<close>

theorem remove_unmined_correct:
  assumes "universe isCB T rk" and "storeInv isCB T s" and "msgTx rec = T (txHash rec)"
  shows "\<exists>s'. RemoveUnminedTx s rec = Inr s' \<and> storeInv isCB T s' \<and> sameMined s s' \<and>
    Get (unmined s') = Get (unmined s) |` (- descendants T (udom s) {txHash rec}) \<and>
    Get (unminedCredits s') =
      Get (unminedCredits s) |` {op. opHash op \<notin> descendants T (udom s) {txHash rec}}"
  by (rule storeInv_RemoveUnminedTx [OF assms])

theorem remove_unmined_correct_witness:
  "universe demoCB demoT unat \<and> storeInv demoCB demoT demo4 \<and>
   (\<exists>s'. RemoveUnminedTx demo4 (demoRec 3) = Inr s' \<and> storeInv demoCB demoT s' \<and> sameMined demo4 s') \<and>
   map_sum id (\<lambda>s. map fst (ForEach (unmined s))) (RemoveUnminedTx demo4 (demoRec 3)) = Inr []"
proof -
  have "map_sum id (\<lambda>s. map fst (ForEach (unmined s))) (RemoveUnminedTx demo4 (demoRec 3)) = Inr []"
    by code_simp
  then show ?thesis
    using remove_unmined_correct [OF demo_universe demo_inv demoRec(1), of 3] demo_universe demo_inv by auto
qed

end
