(* ===== verification/Wtx_Balance.thy ===== *)
theory Wtx_Balance
  imports Wtx_Props
begin

text \<open>
  Reading the store: \<open>fetchCredits\<close> with \<open>UnspentOutputs\<close> and \<open>OutputsToWatch\<close>, and
  \<open>Balance\<close> (\<^verbatim>\<open>wtxmgr/tx.go\<close>).  \<open>Balance\<close> starts from the stored mined balance and subtracts
  what is not spendable; the result is shown to be the sum over the listed outputs.
\<close>

section \<open>Listing credits\<close>

text \<open>The exported \<open>Credit\<close>; a height of \<open>-1\<close> marks an unmined one.\<close>

record CreditOut =
  coOutPoint :: OutPoint
  coBlock :: Block
  coTime :: "64 word"
  coAmount :: amount
  coPkScript :: script
  coReceived :: "64 word"
  coFromCoinBase :: bool

definition noBlock :: Block where "noBlock = Block 0 0"

definition minimalCredit :: "OutPoint \<Rightarrow> script \<Rightarrow> CreditOut" where
  "minimalCredit op pk =
     \<lparr>coOutPoint = op, coBlock = noBlock, coTime = 0, coAmount = 0, coPkScript = pk,
      coReceived = 0, coFromCoinBase = False\<rparr>"

definition skipped :: "ns \<Rightarrow> int \<Rightarrow> bool \<Rightarrow> bool \<Rightarrow> OutPoint \<Rightarrow> bool" where
  "skipped s now includeLocked includeSpentByUnmined op \<longleftrightarrow>
     \<not> includeLocked \<and> isLockedOutput s op now \<noteq> None \<or>
     \<not> includeSpentByUnmined \<and> spentByUnmined s op"

definition minedElem ::
  "(MsgTx \<Rightarrow> bool) \<Rightarrow> ns \<Rightarrow> int \<Rightarrow> bool \<Rightarrow> bool \<Rightarrow> bool \<Rightarrow> OutPoint \<times> Block \<Rightarrow>
   store_error + CreditOut option" where
  "minedElem isCB s now includeLocked includeSpentByUnmined full kb =
     (let op = fst kb; b = snd kb in
      if skipped s now includeLocked includeSpentByUnmined op then Inr None
      else case fetchTxRecord s (opHash op) b of
             Inl e \<Rightarrow> Inl ErrDatabase
           | Inr rec \<Rightarrow>
               if unat (opIndex op) \<ge> length (TxOut (msgTx rec)) then Inl Panic
               else
                 let out = TxOut (msgTx rec) ! unat (opIndex op) in
                 if \<not> full then Inr (Some (minimalCredit op (PkScript out)))
                 else case fetchBlockTime s (bHeight b) of
                        Inl e \<Rightarrow> Inl ErrDatabase
                      | Inr t \<Rightarrow>
                          Inr (Some \<lparr>coOutPoint = op, coBlock = b, coTime = t,
                            coAmount = Value out, coPkScript = PkScript out,
                            coReceived = received rec, coFromCoinBase = isCB (msgTx rec)\<rparr>))"

definition unminedElem ::
  "(MsgTx \<Rightarrow> bool) \<Rightarrow> ns \<Rightarrow> int \<Rightarrow> bool \<Rightarrow> bool \<Rightarrow> bool \<Rightarrow> OutPoint \<times> UnminedCredit \<Rightarrow>
   store_error + CreditOut option" where
  "unminedElem isCB s now includeLocked includeSpentByUnmined full kc =
     (let op = fst kc in
      if skipped s now includeLocked includeSpentByUnmined op then Inr None
      else case Get (unmined s) (opHash op) of
             None \<Rightarrow> Inr None
           | Some v \<Rightarrow>
               if unat (opIndex op) \<ge> length (TxOut (tvTx v)) then Inl Panic
               else
                 let out = TxOut (tvTx v) ! unat (opIndex op) in
                 if \<not> full then Inr (Some (minimalCredit op (PkScript out)))
                 else Inr (Some \<lparr>coOutPoint = op, coBlock = Block (-1) 0, coTime = 0,
                        coAmount = Value out, coPkScript = PkScript out,
                        coReceived = tvReceived v, coFromCoinBase = isCB (tvTx v)\<rparr>))"

definition fetchCredits ::
  "(MsgTx \<Rightarrow> bool) \<Rightarrow> ns \<Rightarrow> int \<Rightarrow> bool \<Rightarrow> bool \<Rightarrow> bool \<Rightarrow> store_error + CreditOut list" where
  "fetchCredits isCB s now includeLocked includeSpentByUnmined full =
     (case collect_err (minedElem isCB s now includeLocked includeSpentByUnmined full)
             (ForEach (unspent s)) of
        Inl e \<Rightarrow> Inl e
      | Inr cs \<Rightarrow>
          (case collect_err (unminedElem isCB s now includeLocked includeSpentByUnmined full)
                  (ForEach (unminedCredits s)) of
             Inl e \<Rightarrow> Inl e
           | Inr us \<Rightarrow> Inr (cs @ us)))"

definition OutputsToWatch :: "(MsgTx \<Rightarrow> bool) \<Rightarrow> ns \<Rightarrow> int \<Rightarrow> store_error + CreditOut list" where
  "OutputsToWatch isCB s now = fetchCredits isCB s now True True False"

definition UnspentOutputs :: "(MsgTx \<Rightarrow> bool) \<Rightarrow> ns \<Rightarrow> int \<Rightarrow> store_error + CreditOut list" where
  "UnspentOutputs isCB s now = fetchCredits isCB s now False False True"

section \<open>The spendable balance\<close>

text \<open>\<open>clk1\<close>, \<open>clk2\<close> and \<open>clk3\<close> are the times read at an output in the three loops.\<close>

definition balanceUnspent :: "ns \<Rightarrow> (OutPoint \<Rightarrow> int) \<Rightarrow> OutPoint \<times> Block \<Rightarrow> amount \<Rightarrow> store_error + amount" where
  "balanceUnspent s clk kb bal =
     (let op = fst kb in
      if isLockedOutput s op (clk op) \<noteq> None \<or> spentByUnmined s op
      then case Get (credits s) (opHash op, snd kb, opIndex op) of
             None \<Rightarrow> Inl ErrData
           | Some c \<Rightarrow> Inr (bal - credAmount c)
      else Inr bal)"

definition immature :: "int \<Rightarrow> int \<Rightarrow> int \<Rightarrow> bool \<Rightarrow> uint32 \<Rightarrow> bool" where
  "immature maturity minConf syncHeight coinbase ht \<longleftrightarrow>
     (let confs = int32 (int32 (syncHeight - sint ht) + 1)
      in confs < minConf \<or> coinbase \<and> confs < maturity)"

definition balanceOut ::
  "ns \<Rightarrow> (OutPoint \<Rightarrow> int) \<Rightarrow> (bool \<Rightarrow> uint32 \<Rightarrow> bool) \<Rightarrow> bool \<Rightarrow> hash \<Rightarrow> Block \<Rightarrow> uint32 \<Rightarrow>
   amount \<Rightarrow> store_error + amount" where
  "balanceOut s clk early coinbase h b i bal =
     (let op = OutPoint h i in
      if isLockedOutput s op (clk op) \<noteq> None then Inr bal
      else if spentByUnmined s op then Inr bal
      else case Get (credits s) (h, b, i) of
             None \<Rightarrow> Inr bal
           | Some c \<Rightarrow>
               if credSpentBy c \<noteq> None then Inr bal
               else if early coinbase (bHeight b) then Inr (bal - credAmount c)
               else Inr bal)"

definition balanceTx ::
  "(MsgTx \<Rightarrow> bool) \<Rightarrow> ns \<Rightarrow> (OutPoint \<Rightarrow> int) \<Rightarrow> (bool \<Rightarrow> uint32 \<Rightarrow> bool) \<Rightarrow> Block \<Rightarrow> hash \<Rightarrow>
   amount \<Rightarrow> store_error + amount" where
  "balanceTx isCB s clk early b h bal =
     (case fetchTxRecord s h b of
        Inl e \<Rightarrow> Inl e
      | Inr rec \<Rightarrow>
          fold_err (balanceOut s clk early (isCB (msgTx rec)) h b) (idxs (TxOut (msgTx rec))) bal)"

definition balanceUnmined ::
  "ns \<Rightarrow> (OutPoint \<Rightarrow> int) \<Rightarrow> OutPoint \<times> UnminedCredit \<Rightarrow> amount \<Rightarrow> store_error + amount" where
  "balanceUnmined s clk kc bal =
     (if isLockedOutput s (fst kc) (clk (fst kc)) \<noteq> None \<or> spentByUnmined s (fst kc) then Inr bal
      else Inr (bal + ucAmount (snd kc)))"

definition Balance ::
  "(MsgTx \<Rightarrow> bool) \<Rightarrow> int \<Rightarrow> ns \<Rightarrow> (OutPoint \<Rightarrow> int) \<Rightarrow> (OutPoint \<Rightarrow> int) \<Rightarrow> (OutPoint \<Rightarrow> int) \<Rightarrow>
   int \<Rightarrow> int \<Rightarrow> store_error + amount" where
  "Balance isCB maturity s clk1 clk2 clk3 minConf syncHeight =
     (case fold_err (balanceUnspent s clk1) (ForEach (unspent s)) (minedBalance s) of
        Inl e \<Rightarrow> Inl e
      | Inr bal \<Rightarrow>
          let stopConf = (if maturity > minConf then maturity else minConf);
              lastHeight = int32 (syncHeight - stopConf);
              bs = takeWhile (\<lambda>(ht, br). \<not> sint ht < lastHeight) (rev (ForEach (blocks s)))
          in case fold_err
                   (\<lambda>(ht, br). fold_err
                      (balanceTx isCB s clk2 (immature maturity minConf syncHeight) (Block ht (brHash br)))
                      (transactions br))
                   bs bal of
               Inl e \<Rightarrow> Inl e
             | Inr bal \<Rightarrow>
                 if minConf = 0 then fold_err (balanceUnmined s clk3) (ForEach (unminedCredits s)) bal
                 else Inr bal)"

section \<open>What the listings contain\<close>

text \<open>An output the wallet can spend now: not leased, and no unmined transaction spends it.\<close>

definition free :: "(hash \<Rightarrow> MsgTx) \<Rightarrow> ns \<Rightarrow> int \<Rightarrow> OutPoint \<Rightarrow> bool" where
  "free T s now op \<longleftrightarrow>
     isLockedOutput s op now = None \<and> (\<forall>h \<in> udom s. op \<notin> set (TxIn (T h)))"

lemma storeInvD:
  assumes "storeInv isCB T s"
  shows "ledgerOf isCB T (mdom s) (spentBy isCB T (mdom s)) s" "uniq (mdom s)" "blocksOk s"
    "unminedInv T s" "minedKnown T s" "minedBalance s = utxoTotal T (Get (unspent s))" "disjointOk s"
  using assms by (simp_all add: storeInv_def)

lemma unspent_credit:
  assumes "storeInv isCB T s" and "Get (unspent s) op = Some b"
  shows "\<exists>c. Get (credits s) (opHash op, b, opIndex op) = Some c \<and> credSpentBy c = None \<and>
    credAmount c = opValue T op \<and> (opHash op, b) \<in> mdom s \<and> hasOut (T (opHash op)) (opIndex op)"
proof -
  note L = storeInvD(1) [OF assms(1)]
  obtain c where c: "Get (credits s) (opHash op, b, opIndex op) = Some c" "credSpentBy c = None"
    using ledgerD(2) [OF L, of "opHash op" "opIndex op" b] assms(2) by auto
  then show ?thesis using ledgerD(1) [OF L c(1)] by (simp add: opValue_def)
qed

lemma skipped_free:
  assumes "storeInv isCB T s"
  shows "skipped s now False False op \<longleftrightarrow> \<not> free T s now op"
  using spentByUnmined_iff [of T s op] storeInvD(4) [OF assms]
  by (auto simp: skipped_def free_def unminedInv_def)

lemma minedElem_eq:
  assumes inv: "storeInv isCB T s" and kb: "Get (unspent s) op = Some b"
  shows "\<exists>br v. Get (blocks s) (bHeight b) = Some br \<and> Get (txRecords s) (opHash op, b) = Some v \<and>
    minedElem isCB s now False False True (op, b) = Inr
      (if free T s now op then Some \<lparr>coOutPoint = op, coBlock = b, coTime = brTime br,
         coAmount = opValue T op, coPkScript = PkScript (TxOut (T (opHash op)) ! unat (opIndex op)),
         coReceived = tvReceived v, coFromCoinBase = isCB (T (opHash op))\<rparr> else None)"
proof -
  have m: "(opHash op, b) \<in> mdom s" and out: "hasOut (T (opHash op)) (opIndex op)"
    using unspent_credit [OF inv kb] by blast+
  obtain v where v: "Get (txRecords s) (opHash op, b) = Some v" using m by blast
  have T: "tvTx v = T (opHash op)" using storeInvD(5) [OF inv] v unfolding minedKnown_def by blast
  obtain br where br: "Get (blocks s) (bHeight b) = Some br"
    using storeInvD(3) [OF inv] m unfolding blocksOk_def by blast
  show ?thesis
    using v br out T skipped_free [OF inv, of now op]
    by (intro exI [of _ br] exI [of _ v])
      (simp add: minedElem_def Let_def fetchTxRecord_def fetchBlockTime_def hasOut_def opValue_def
        outValue_def not_le)
qed

lemma unminedElem_eq:
  assumes inv: "storeInv isCB T s" and kc: "Get (unminedCredits s) op = Some c"
  shows "\<exists>v. Get (unmined s) (opHash op) = Some v \<and>
    unminedElem isCB s now False False True (op, c) = Inr
      (if free T s now op then Some \<lparr>coOutPoint = op, coBlock = Block (-1) 0, coTime = 0,
         coAmount = opValue T op, coPkScript = PkScript (TxOut (T (opHash op)) ! unat (opIndex op)),
         coReceived = tvReceived v, coFromCoinBase = isCB (T (opHash op))\<rparr> else None)"
proof -
  have u: "unminedKnown T s" "unminedCreditsOk T s" using storeInvD(4) [OF inv] by (simp_all add: unminedInv_def)
  then have out: "hasOut (T (opHash op)) (opIndex op)" and "opHash op \<in> udom s"
    using kc unfolding unminedCreditsOk_def by blast+
  then obtain v where v: "Get (unmined s) (opHash op) = Some v" by blast
  have T: "tvTx v = T (opHash op)" using u v unfolding unminedKnown_def by blast
  show ?thesis
    using v out T skipped_free [OF inv, of now op]
    by (intro exI [of _ v]) (simp add: unminedElem_def Let_def hasOut_def opValue_def outValue_def not_le)
qed

lemma collect_err_map:
  assumes "\<And>x. x \<in> set xs \<Longrightarrow> \<exists>y. f x = Inr (if P x then Some y else None) \<and> (P x \<longrightarrow> Q x y)"
  shows "\<exists>ys. collect_err f xs = Inr ys \<and> list_all2 Q (filter P xs) ys"
  using assms
proof (induction xs)
  case (Cons x xs)
  obtain y where y: "f x = Inr (if P x then Some y else None)" "P x \<longrightarrow> Q x y"
    using Cons.prems [of x] by auto
  obtain ys where ys: "collect_err f xs = Inr ys" "list_all2 Q (filter P xs) ys"
    using Cons.IH Cons.prems by auto
  show ?case
  proof (cases "P x")
    case True
    with y ys show ?thesis by (intro exI [of _ "y # ys"]) simp
  next
    case False
    with y ys show ?thesis by simp
  qed
qed simp

definition listed :: "(MsgTx \<Rightarrow> bool) \<Rightarrow> (hash \<Rightarrow> MsgTx) \<Rightarrow> OutPoint \<Rightarrow> Block \<Rightarrow> CreditOut \<Rightarrow> bool" where
  "listed isCB T op b c \<longleftrightarrow>
     coOutPoint c = op \<and> coBlock c = b \<and> coAmount c = opValue T op \<and>
     coPkScript c = PkScript (TxOut (T (opHash op)) ! unat (opIndex op)) \<and>
     coFromCoinBase c = isCB (T (opHash op))"

lemma UnspentOutputs_lists:
  assumes inv: "storeInv isCB T s"
  shows "\<exists>cs us. UnspentOutputs isCB s now = Inr (cs @ us) \<and>
    list_all2 (\<lambda>(op, b) c. listed isCB T op b c)
      (filter (\<lambda>(op, b). free T s now op) (ForEach (unspent s))) cs \<and>
    list_all2 (\<lambda>(op, u) c. listed isCB T op (Block (-1) 0) c)
      (filter (\<lambda>(op, u). free T s now op) (ForEach (unminedCredits s))) us"
proof -
  have "\<exists>cs. collect_err (minedElem isCB s now False False True) (ForEach (unspent s)) = Inr cs \<and>
      list_all2 (\<lambda>(op, b) c. listed isCB T op b c)
        (filter (\<lambda>(op, b). free T s now op) (ForEach (unspent s))) cs"
  proof (rule collect_err_map)
    fix x assume "x \<in> set (ForEach (unspent s))"
    then obtain op b where x: "x = (op, b)" "Get (unspent s) op = Some b"
      using bkt.forEach_iff by (metis surj_pair)
    from minedElem_eq [OF inv x(2), of now]
    show "\<exists>y. minedElem isCB s now False False True x = Inr (if case x of (op, b) \<Rightarrow> free T s now op then Some y else None) \<and>
        ((case x of (op, b) \<Rightarrow> free T s now op) \<longrightarrow> (case x of (op, b) \<Rightarrow> \<lambda>c. listed isCB T op b c) y)"
      unfolding x(1) by (elim exE conjE, intro exI conjI) (auto simp: listed_def)
  qed
  moreover have "\<exists>us. collect_err (unminedElem isCB s now False False True) (ForEach (unminedCredits s)) = Inr us \<and>
      list_all2 (\<lambda>(op, u) c. listed isCB T op (Block (-1) 0) c)
        (filter (\<lambda>(op, u). free T s now op) (ForEach (unminedCredits s))) us"
  proof (rule collect_err_map)
    fix x assume "x \<in> set (ForEach (unminedCredits s))"
    then obtain op u where x: "x = (op, u)" "Get (unminedCredits s) op = Some u"
      using bkt.forEach_iff by (metis surj_pair)
    from unminedElem_eq [OF inv x(2), of now]
    show "\<exists>y. unminedElem isCB s now False False True x = Inr (if case x of (op, u) \<Rightarrow> free T s now op then Some y else None) \<and>
        ((case x of (op, u) \<Rightarrow> free T s now op) \<longrightarrow> (case x of (op, u) \<Rightarrow> \<lambda>c. listed isCB T op (Block (-1) 0) c) y)"
      unfolding x(1) by (elim exE conjE, intro exI conjI) (auto simp: listed_def)
  qed
  ultimately show ?thesis
    by (elim exE conjE, intro exI conjI) (simp_all add: UnspentOutputs_def fetchCredits_def)
qed

section \<open>What the balance adds up\<close>

lemma fold_err_sub:
  fixes bal :: "'a::ab_group_add"
  assumes "\<And>x bal. x \<in> set xs \<Longrightarrow> f x bal = Inr (bal - g x)"
  shows "fold_err f xs bal = Inr (bal - sum_list (map g xs))"
  using assms by (induction xs arbitrary: bal) (simp_all add: diff_diff_eq)

definition counted ::
  "(MsgTx \<Rightarrow> bool) \<Rightarrow> (hash \<Rightarrow> MsgTx) \<Rightarrow> int \<Rightarrow> int \<Rightarrow> int \<Rightarrow> OutPoint \<Rightarrow> Block \<Rightarrow> bool" where
  "counted isCB T maturity minConf syncHeight op b \<longleftrightarrow>
     \<not> immature maturity minConf syncHeight (isCB (T (opHash op))) (bHeight b)"

lemma balance_unspent_loop:
  assumes inv: "storeInv isCB T s"
  shows "fold_err (balanceUnspent s (\<lambda>_. now)) (ForEach (unspent s)) bal =
    Inr (bal - (\<Sum>op \<in> dom (Get (unspent s)). if free T s now op then 0 else opValue T op))"
proof -
  have "balanceUnspent s (\<lambda>_. now) x bal = Inr (bal - (case x of (op, b) \<Rightarrow> if free T s now op then 0 else opValue T op))"
    if mem: "x \<in> set (ForEach (unspent s))" for x bal
  proof -
    obtain op b where x: "x = (op, b)" "Get (unspent s) op = Some b"
      using mem bkt.forEach_iff by (metis surj_pair)
    obtain c where c: "Get (credits s) (opHash op, b, opIndex op) = Some c" "credAmount c = opValue T op"
      using unspent_credit [OF inv x(2)] by blast
    moreover have "isLockedOutput s op now \<noteq> None \<or> spentByUnmined s op \<longleftrightarrow> \<not> free T s now op"
      using skipped_free [OF inv, of now op] by (simp add: skipped_def)
    ultimately show ?thesis by (simp add: x(1) balanceUnspent_def Let_def)
  qed
  then have "fold_err (balanceUnspent s (\<lambda>_. now)) (ForEach (unspent s)) bal = Inr (bal - sum_list
      (map (\<lambda>(op, b). if free T s now op then 0 else opValue T op) (ForEach (unspent s))))"
    by (rule fold_err_sub)
  then show ?thesis
    by (simp add: bkt.sum_forEach [where f = "\<lambda>op b. if free T s now op then 0 else opValue T op"])
qed

text \<open>The contribution of one recorded output to the second loop.\<close>

definition earlyAmount ::
  "(MsgTx \<Rightarrow> bool) \<Rightarrow> (hash \<Rightarrow> MsgTx) \<Rightarrow> ns \<Rightarrow> int \<Rightarrow> (bool \<Rightarrow> uint32 \<Rightarrow> bool) \<Rightarrow> CredKey \<Rightarrow> amount" where
  "earlyAmount isCB T s now early ck =
     (case Get (credits s) ck of
        None \<Rightarrow> 0
      | Some c \<Rightarrow>
          if free T s now (credOut ck) \<and> credSpentBy c = None \<and>
             early (isCB (T (fst ck))) (bHeight (fst (snd ck)))
          then credAmount c else 0)"

lemma balanceTx_eq:
  assumes inv: "storeInv isCB T s" and univ: "universe isCB T rk" and hb: "(h, b) \<in> mdom s"
  shows "balanceTx isCB s (\<lambda>_. now) early b h bal =
    Inr (bal - (\<Sum>i | hasOut (T h) i. earlyAmount isCB T s now early (h, b, i)))"
proof -
  obtain v where v: "Get (txRecords s) (h, b) = Some v" using hb by blast
  have T: "tvTx v = T h" using storeInvD(5) [OF inv] v unfolding minedKnown_def by blast
  have "balanceOut s (\<lambda>_. now) early (isCB (T h)) h b i bal =
      Inr (bal - earlyAmount isCB T s now early (h, b, i))" for i bal
    using skipped_free [OF inv, of now "OutPoint h i"]
    by (auto simp: balanceOut_def earlyAmount_def skipped_def Let_def split: option.splits)
  then have "fold_err (balanceOut s (\<lambda>_. now) early (isCB (T h)) h b) (idxs (TxOut (T h))) bal =
      Inr (bal - sum_list (map (\<lambda>i. earlyAmount isCB T s now early (h, b, i)) (idxs (TxOut (T h)))))"
    by (rule fold_err_sub)
  moreover have "sum_list (map (\<lambda>i. earlyAmount isCB T s now early (h, b, i)) (idxs (TxOut (T h)))) =
      (\<Sum>i | hasOut (T h) i. earlyAmount isCB T s now early (h, b, i))"
    using distinct_idxs [OF universeD(1) [OF univ, of h]] set_idxs [OF universeD(1) [OF univ, of h]]
    by (simp only: sum_list_distinct_conv_sum_set hasOut_def)
  ultimately show ?thesis using v T by (simp add: balanceTx_def fetchTxRecord_def)
qed

lemma balance_blocks_loop:
  assumes inv: "storeInv isCB T s" and univ: "universe isCB T rk"
    and bs: "\<And>ht br. (ht, br) \<in> set bs \<Longrightarrow> Get (blocks s) ht = Some br" "distinct bs"
  shows "fold_err (\<lambda>(ht, br). fold_err (balanceTx isCB s (\<lambda>_. now) early (Block ht (brHash br)))
      (transactions br)) bs bal =
    Inr (bal - (\<Sum>(ht, br) \<in> set bs. \<Sum>h \<in> set (transactions br). \<Sum>i | hasOut (T h) i.
      earlyAmount isCB T s now early (h, Block ht (brHash br), i)))"
proof -
  let ?g = "\<lambda>(ht, br). \<Sum>h \<in> set (transactions br). \<Sum>i | hasOut (T h) i.
      earlyAmount isCB T s now early (h, Block ht (brHash br), i)"
  have "(\<lambda>(ht, br). fold_err (balanceTx isCB s (\<lambda>_. now) early (Block ht (brHash br)))
      (transactions br)) x bal = Inr (bal - ?g x)" if mem: "x \<in> set bs" for x bal
  proof -
    obtain ht br where x: "x = (ht, br)" by force
    have br: "Get (blocks s) ht = Some br" using bs(1) mem x by blast
    have tx: "(h, Block ht (brHash br)) \<in> mdom s" if "h \<in> set (transactions br)" for h
      using storeInvD(3) [OF inv] br that unfolding blocksOk_def by blast
    have "distinct (transactions br)" using storeInvD(3) [OF inv] br unfolding blocksOk_def by blast
    moreover have "fold_err (balanceTx isCB s (\<lambda>_. now) early (Block ht (brHash br))) (transactions br) bal =
        Inr (bal - sum_list (map (\<lambda>h. \<Sum>i | hasOut (T h) i.
          earlyAmount isCB T s now early (h, Block ht (brHash br), i)) (transactions br)))"
      by (rule fold_err_sub) (rule balanceTx_eq [OF inv univ tx])
    ultimately show ?thesis by (simp add: x sum_list_distinct_conv_sum_set)
  qed
  then have "fold_err (\<lambda>(ht, br). fold_err (balanceTx isCB s (\<lambda>_. now) early (Block ht (brHash br)))
      (transactions br)) bs bal = Inr (bal - sum_list (map ?g bs))"
    by (rule fold_err_sub)
  then show ?thesis using bs(2) by (simp only: sum_list_distinct_conv_sum_set)
qed

text \<open>The outputs visited by the second loop that contribute are the free unspent ones with too
  few confirmations.\<close>

lemma early_sum:
  assumes inv: "storeInv isCB T s"
    and bs: "\<And>ht br. (ht, br) \<in> set bs \<longleftrightarrow> Get (blocks s) ht = Some br \<and> \<not> sint ht < lastHeight"
    and early: "\<And>cb ht. 0 \<le> sint ht \<Longrightarrow> early cb ht \<Longrightarrow> \<not> sint ht < lastHeight"
  shows "(\<Sum>(ht, br) \<in> set bs. \<Sum>h \<in> set (transactions br). \<Sum>i | hasOut (T h) i.
      earlyAmount isCB T s now early (h, Block ht (brHash br), i)) =
    (\<Sum>op \<in> dom (Get (unspent s)).
      if free T s now op \<and> early (isCB (T (opHash op))) (bHeight (the (Get (unspent s) op)))
      then opValue T op else 0)" (is "?lhs = sum ?g _")
proof -
  let ?N = "Get (unspent s)" and ?C = "Get (credits s)"
  let ?Y = "Sigma (set bs) (\<lambda>hb. Sigma (set (transactions (snd hb))) (\<lambda>h. {i. hasOut (T h) i}))"
  let ?f = "\<lambda>(hb, h, i). earlyAmount isCB T s now early (h, Block (fst hb) (brHash (snd hb)), i)"
  let ?j = "\<lambda>op. ((bHeight (the (?N op)), the (Get (blocks s) (bHeight (the (?N op))))), opHash op, opIndex op)"
  let ?i = "\<lambda>(hb :: uint32 \<times> blockRecord, h, i). OutPoint h i"
  note L = storeInvD(1) [OF inv] and u = storeInvD(2) [OF inv] and B = storeInvD(3) [OF inv]
  have "?lhs = sum ?f ?Y" by (simp add: sum.Sigma split_def)
  also have "\<dots> = sum ?f {y \<in> ?Y. ?f y \<noteq> 0}"
    by (rule sum.mono_neutral_right) auto
  also have "\<dots> = sum ?g {op \<in> dom ?N. ?g op \<noteq> 0}"
  proof (rule sum.reindex_bij_witness [where i = ?j and j = ?i])
    fix y assume y: "y \<in> {y \<in> ?Y. ?f y \<noteq> 0}"
    obtain ht br h i where yv: "y = ((ht, br), h, i)" by (metis surj_pair)
    have br: "Get (blocks s) ht = Some br" "h \<in> set (transactions br)" "hasOut (T h) i"
      using y yv bs by auto
    obtain c where c: "?C (h, Block ht (brHash br), i) = Some c" "free T s now (OutPoint h i)"
      "credSpentBy c = None" "early (isCB (T h)) ht" "credAmount c \<noteq> 0"
      using y yv by (auto simp: earlyAmount_def split: option.splits if_splits)
    have N: "?N (OutPoint h i) = Some (Block ht (brHash br))" using ledgerD(3) [OF L c(1,3,5)] .
    have amt: "credAmount c = opValue T (OutPoint h i)"
      using ledgerD(1) [OF L c(1)] by (simp add: opValue_def)
    show "?j (?i y) = y" by (simp add: yv N br)
    show "?i y \<in> {op \<in> dom ?N. ?g op \<noteq> 0}" using c N amt by (simp add: yv domI)
    show "?g (?i y) = ?f y" using c N amt by (simp add: yv earlyAmount_def)
  next
    fix op assume op: "op \<in> {op \<in> dom ?N. ?g op \<noteq> 0}"
    then obtain b where N: "?N op = Some b" by auto
    have g: "free T s now op" "early (isCB (T (opHash op))) (bHeight b)" "opValue T op \<noteq> 0"
      using op N by (auto split: if_splits)
    obtain c where c: "?C (opHash op, b, opIndex op) = Some c" "credSpentBy c = None"
      and m: "(opHash op, b) \<in> mdom s" "hasOut (T (opHash op)) (opIndex op)" "credAmount c = opValue T op"
      using unspent_credit [OF inv N] by blast
    obtain br where br: "Get (blocks s) (bHeight b) = Some br" "brHash br = bHash b"
      "opHash op \<in> set (transactions br)" using B m(1) unfolding blocksOk_def by blast
    have "0 \<le> sint (bHeight b)" using B br(1) unfolding blocksOk_def by blast
    then have mem: "(bHeight b, br) \<in> set bs" using bs br(1) early g(2) by blast
    show "?i (?j op) = op" by simp
    show "?j op \<in> {y \<in> ?Y. ?f y \<noteq> 0}"
      using N br mem m c g by (simp add: earlyAmount_def)
  qed
  also have "\<dots> = sum ?g (dom ?N)"
    by (rule sum.mono_neutral_left) auto
  finally show ?thesis .
qed

lemma immature_visited:
  assumes "0 \<le> syncHeight" "syncHeight < maxInt32" "0 \<le> minConf" "in32 minConf" "0 \<le> maturity" "in32 maturity"
    and "0 \<le> sint (ht :: uint32)" "immature maturity minConf syncHeight cb ht"
  shows "\<not> sint ht < int32 (syncHeight - (if maturity > minConf then maturity else minConf))"
proof -
  have ht: "sint ht \<le> 2147483647" using sint_lt [of ht] by simp
  then have "int32 (syncHeight - sint ht) = syncHeight - sint ht"
    "int32 (syncHeight - sint ht + 1) = syncHeight - sint ht + 1"
    using assms(1,2,7) by (simp_all add: maxInt32_def)
  then have "syncHeight - sint ht + 1 < (if maturity > minConf then maturity else minConf)"
    using assms(8) by (auto simp: immature_def Let_def split: if_splits)
  moreover have "int32 (syncHeight - (if maturity > minConf then maturity else minConf)) =
      syncHeight - (if maturity > minConf then maturity else minConf)"
    by (rule int32_id) (use assms(1-6) in \<open>auto simp: maxInt32_def\<close>)
  ultimately show ?thesis by linarith
qed

lemma balance_unmined_loop:
  assumes inv: "storeInv isCB T s"
  shows "fold_err (balanceUnmined s (\<lambda>_. now)) (ForEach (unminedCredits s)) bal =
    Inr (bal + (\<Sum>op \<in> dom (Get (unminedCredits s)). if free T s now op then opValue T op else 0))"
proof -
  have "balanceUnmined s (\<lambda>_. now) x bal = Inr (bal - - (case x of (op, u) \<Rightarrow> if free T s now op then opValue T op else 0))"
    if mem: "x \<in> set (ForEach (unminedCredits s))" for x bal
  proof -
    obtain op u where x: "x = (op, u)" "Get (unminedCredits s) op = Some u"
      using mem bkt.forEach_iff by (metis surj_pair)
    have "ucAmount u = opValue T op"
      using storeInvD(4) [OF inv] x(2) unfolding unminedInv_def unminedCreditsOk_def opValue_def by blast
    moreover have "isLockedOutput s op now \<noteq> None \<or> spentByUnmined s op \<longleftrightarrow> \<not> free T s now op"
      using skipped_free [OF inv, of now op] by (simp add: skipped_def)
    ultimately show ?thesis by (simp add: x(1) balanceUnmined_def)
  qed
  then have "fold_err (balanceUnmined s (\<lambda>_. now)) (ForEach (unminedCredits s)) bal = Inr (bal - sum_list
      (map (\<lambda>x. - (case x of (op, u) \<Rightarrow> if free T s now op then opValue T op else 0)) (ForEach (unminedCredits s))))"
    by (rule fold_err_sub)
  then show ?thesis
    using uminus_sum_list_map [of "\<lambda>(op, u). if free T s now op then opValue T op else 0" "ForEach (unminedCredits s)",
        symmetric]
    by (simp add: bkt.sum_forEach [where f = "\<lambda>op u. if free T s now op then opValue T op else 0"]
        comp_def)
qed

lemma Balance_sum:
  assumes inv: "storeInv isCB T s" and univ: "universe isCB T rk"
    and range: "0 \<le> syncHeight" "syncHeight < maxInt32" "0 \<le> minConf" "in32 minConf"
      "0 \<le> maturity" "in32 maturity"
  shows "Balance isCB maturity s (\<lambda>_. now) (\<lambda>_. now) (\<lambda>_. now) minConf syncHeight = Inr
    ((\<Sum>op \<in> dom (Get (unspent s)).
        if free T s now op \<and> counted isCB T maturity minConf syncHeight op (the (Get (unspent s) op))
        then opValue T op else 0) +
     (if minConf = 0
      then \<Sum>op \<in> dom (Get (unminedCredits s)). if free T s now op then opValue T op else 0
      else 0))"
proof -
  let ?N = "Get (unspent s)" let ?early = "immature maturity minConf syncHeight"
  let ?last = "int32 (syncHeight - (if maturity > minConf then maturity else minConf))"
  let ?bs = "takeWhile (\<lambda>(ht, br). \<not> sint ht < ?last) (rev (ForEach (blocks s)))"
  note B = storeInvD(3) [OF inv]
  have last: "?last = sint (word_of_int ?last :: uint32)"
    using int32_range [of "syncHeight - (if maturity > minConf then maturity else minConf)"]
    by (simp only: int32_def) (metis int32_def int32_id)
  then have bs: "?bs = rollbackBlocks s (word_of_int ?last)" by (simp add: rollbackBlocks_def)
  have mem: "(ht, br) \<in> set ?bs \<longleftrightarrow> Get (blocks s) ht = Some br \<and> \<not> sint ht < ?last" for ht br
    unfolding bs using rollbackBlocks_set(1) [OF B] last by metis
  have dist: "distinct ?bs" unfolding bs by (rule rollbackBlocks_set(2) [OF B])
  have blk: "Get (blocks s) ht = Some br" if "(ht, br) \<in> set ?bs" for ht br using mem that by blast
  have loop2: "fold_err (\<lambda>(ht, br). fold_err (balanceTx isCB s (\<lambda>_. now) ?early (Block ht (brHash br)))
      (transactions br)) ?bs bal = Inr (bal - (\<Sum>op \<in> dom ?N.
      if free T s now op \<and> ?early (isCB (T (opHash op))) (bHeight (the (?N op))) then opValue T op else 0))" for bal
  proof -
    have "(\<Sum>(ht, br) \<in> set ?bs. \<Sum>h \<in> set (transactions br). \<Sum>i | hasOut (T h) i.
        earlyAmount isCB T s now ?early (h, Block ht (brHash br), i)) = (\<Sum>op \<in> dom ?N.
        if free T s now op \<and> ?early (isCB (T (opHash op))) (bHeight (the (?N op))) then opValue T op else 0)"
      by (rule early_sum [OF inv mem]) (rule immature_visited [OF range])
    moreover have "fold_err (\<lambda>(ht, br). fold_err (balanceTx isCB s (\<lambda>_. now) ?early (Block ht (brHash br)))
        (transactions br)) ?bs bal = Inr (bal - (\<Sum>(ht, br) \<in> set ?bs. \<Sum>h \<in> set (transactions br).
        \<Sum>i | hasOut (T h) i. earlyAmount isCB T s now ?early (h, Block ht (brHash br), i)))"
      by (rule balance_blocks_loop [OF inv univ blk dist])
    ultimately show ?thesis by (simp only:)
  qed
  have "utxoTotal T ?N - (\<Sum>op \<in> dom ?N. if free T s now op then 0 else opValue T op) -
      (\<Sum>op \<in> dom ?N. if free T s now op \<and> ?early (isCB (T (opHash op))) (bHeight (the (?N op)))
        then opValue T op else 0) =
      (\<Sum>op \<in> dom ?N. if free T s now op \<and> counted isCB T maturity minConf syncHeight op (the (?N op))
        then opValue T op else 0)"
    unfolding utxoTotal_def sum_subtractf [symmetric] by (rule sum.cong) (auto simp: counted_def)
  then show ?thesis
    unfolding Balance_def storeInvD(6) [OF inv]
    by (simp add: balance_unspent_loop [OF inv] loop2 Let_def balance_unmined_loop [OF inv])
qed

section \<open>The balance of the listed outputs\<close>

lemma list_all2_sum:
  assumes "list_all2 Q xs ys" and "\<And>x y. Q x y \<Longrightarrow> F y = G x"
  shows "sum_list (map F ys) = sum_list (map G xs)"
  using assms by (induction rule: list_all2_induct) auto

lemma list_all2_mem:
  assumes "list_all2 Q xs ys" "set xs \<subseteq> A"
  shows "list_all2 (\<lambda>x y. x \<in> A \<and> Q x y) xs ys"
  using assms by (induction rule: list_all2_induct) auto

lemma filter_pairs:
  fixes g :: "'k \<Rightarrow> 'v \<Rightarrow> bool" and f :: "'k \<Rightarrow> 'a::comm_monoid_add"
  shows "sum_list (map (\<lambda>(k, v). if g k v then f k else 0) (filter (\<lambda>(k, v). P k) xs)) =
    sum_list (map (\<lambda>(k, v). if P k \<and> g k v then f k else 0) xs)"
  by (induction xs) auto

text \<open>The outputs that count towards a balance with at least \<open>minConf\<close> confirmations.\<close>

definition eligible :: "int \<Rightarrow> int \<Rightarrow> int \<Rightarrow> CreditOut \<Rightarrow> bool" where
  "eligible maturity minConf syncHeight c \<longleftrightarrow>
     (if bHeight (coBlock c) = -1 then minConf = 0
      else \<not> immature maturity minConf syncHeight (coFromCoinBase c) (bHeight (coBlock c)))"

lemma Balance_listed:
  assumes inv: "storeInv isCB T s" and univ: "universe isCB T rk"
    and range: "0 \<le> syncHeight" "syncHeight < maxInt32" "0 \<le> minConf" "in32 minConf"
      "0 \<le> maturity" "in32 maturity"
  shows "\<exists>outs. UnspentOutputs isCB s now = Inr outs \<and>
    Balance isCB maturity s (\<lambda>_. now) (\<lambda>_. now) (\<lambda>_. now) minConf syncHeight =
      Inr (sum_list (map coAmount (filter (eligible maturity minConf syncHeight) outs)))"
proof -
  let ?N = "Get (unspent s)"
  let ?F = "\<lambda>c. if eligible maturity minConf syncHeight c then coAmount c else 0"
  obtain cs us where o: "UnspentOutputs isCB s now = Inr (cs @ us)"
    "list_all2 (\<lambda>(op, b) c. listed isCB T op b c)
      (filter (\<lambda>(op, b). free T s now op) (ForEach (unspent s))) cs"
    "list_all2 (\<lambda>(op, u) c. listed isCB T op (Block (-1) 0) c)
      (filter (\<lambda>(op, u). free T s now op) (ForEach (unminedCredits s))) us"
    using UnspentOutputs_lists [OF inv] by blast
  have h: "bHeight b \<noteq> -1" if N: "?N op = Some b" for op b
  proof -
    have "(opHash op, b) \<in> mdom s" using unspent_credit [OF inv N] by blast
    then have "0 \<le> sint (bHeight b)" using storeInvD(3) [OF inv] unfolding blocksOk_def by blast
    then show ?thesis by auto
  qed
  have "sum_list (map ?F cs) = sum_list (map (\<lambda>(op, b). if counted isCB T maturity minConf syncHeight op b
      then opValue T op else 0) (filter (\<lambda>(op, b). free T s now op) (ForEach (unspent s))))"
  proof (rule list_all2_sum)
    show "list_all2 (\<lambda>x c. x \<in> set (ForEach (unspent s)) \<and> (\<lambda>(op, b) c. listed isCB T op b c) x c)
        (filter (\<lambda>(op, b). free T s now op) (ForEach (unspent s))) cs"
      by (rule list_all2_mem [OF o(2)]) auto
    fix x c assume "x \<in> set (ForEach (unspent s)) \<and> (\<lambda>(op, b) c. listed isCB T op b c) x c"
    then show "?F c = (case x of (op, b) \<Rightarrow> if counted isCB T maturity minConf syncHeight op b then opValue T op else 0)"
      using h by (auto simp: eligible_def counted_def listed_def bkt.forEach_iff split: prod.splits)
  qed
  also have "\<dots> = (\<Sum>op \<in> dom ?N. if free T s now op \<and> counted isCB T maturity minConf syncHeight op (the (?N op))
      then opValue T op else 0)"
    unfolding filter_pairs by (rule bkt.sum_forEach)
  finally have m: "sum_list (map ?F cs) = \<dots>" .
  have "sum_list (map ?F us) = sum_list (map (\<lambda>(op, u). if minConf = 0 then opValue T op else 0)
      (filter (\<lambda>(op, u). free T s now op) (ForEach (unminedCredits s))))"
    by (rule list_all2_sum [OF o(3)]) (auto simp: eligible_def listed_def split: prod.splits)
  also have "\<dots> = (if minConf = 0
      then \<Sum>op \<in> dom (Get (unminedCredits s)). if free T s now op then opValue T op else 0 else 0)"
    unfolding filter_pairs
      bkt.sum_forEach [of "\<lambda>op u. if free T s now op \<and> minConf = 0 then opValue T op else 0" "unminedCredits s"]
    by simp
  finally have "sum_list (map ?F (cs @ us)) = (\<Sum>op \<in> dom ?N. if free T s now op \<and>
      counted isCB T maturity minConf syncHeight op (the (?N op)) then opValue T op else 0) + (if minConf = 0
      then \<Sum>op \<in> dom (Get (unminedCredits s)). if free T s now op then opValue T op else 0 else 0)"
    using m by simp
  moreover have "sum_list (map coAmount (filter (eligible maturity minConf syncHeight) (cs @ us))) =
      sum_list (map ?F (cs @ us))" by (rule sum_list_map_filter')
  ultimately show ?thesis using o(1) Balance_sum [OF inv univ range, of now] by auto
qed

section \<open>Properties\<close>

lemma list_all2_map:
  "list_all2 Q xs ys \<Longrightarrow> (\<And>x y. Q x y \<Longrightarrow> F y = G x) \<Longrightarrow> map F ys = map G xs"
  by (induction rule: list_all2_induct) auto

lemma set_keys_filter: "set (map fst (filter (\<lambda>(k, v). P k) (ForEach b))) = {k \<in> dom (Get b). P k}"
  by (force simp: bkt.forEach_iff image_iff)

lemma unspent_unmined_disjoint:
  assumes inv: "storeInv isCB T s"
  shows "dom (Get (unspent s)) \<inter> dom (Get (unminedCredits s)) = {}"
proof -
  have "opHash op \<in> udom s" if "Get (unminedCredits s) op = Some u" for op u
    using storeInvD(4) [OF inv] that unfolding unminedInv_def unminedCreditsOk_def by blast
  moreover have "(opHash op, b) \<in> mdom s" if "Get (unspent s) op = Some b" for op b
    using unspent_credit [OF inv that] by blast
  ultimately show ?thesis using storeInvD(7) [OF inv] unfolding disjointOk_def by blast
qed

lemma UnspentOutputs_free:
  assumes "storeInv isCB T s"
  shows "\<exists>outs. UnspentOutputs isCB s now = Inr outs \<and> distinct (map coOutPoint outs) \<and>
    set (map coOutPoint outs) =
      {op \<in> dom (Get (unspent s)) \<union> dom (Get (unminedCredits s)). free T s now op} \<and>
    (\<forall>c \<in> set outs. coAmount c = opValue T (coOutPoint c) \<and>
       coPkScript c = PkScript (TxOut (T (opHash (coOutPoint c))) ! unat (opIndex (coOutPoint c))))"
proof -
  obtain cs us where o: "UnspentOutputs isCB s now = Inr (cs @ us)"
    "list_all2 (\<lambda>(op, b) c. listed isCB T op b c)
      (filter (\<lambda>(op, b). free T s now op) (ForEach (unspent s))) cs"
    "list_all2 (\<lambda>(op, u) c. listed isCB T op (Block (-1) 0) c)
      (filter (\<lambda>(op, u). free T s now op) (ForEach (unminedCredits s))) us"
    using UnspentOutputs_lists [OF assms] by blast
  have m: "map coOutPoint cs = map fst (filter (\<lambda>(op, b). free T s now op) (ForEach (unspent s)))"
    "map coOutPoint us = map fst (filter (\<lambda>(op, u). free T s now op) (ForEach (unminedCredits s)))"
    by (rule list_all2_map [OF o(2)], force simp: listed_def)
      (rule list_all2_map [OF o(3)], force simp: listed_def)
  have sets: "set (map coOutPoint cs) = {op \<in> dom (Get (unspent s)). free T s now op}"
    "set (map coOutPoint us) = {op \<in> dom (Get (unminedCredits s)). free T s now op}"
    unfolding m by (rule set_keys_filter)+
  have "distinct (map coOutPoint (cs @ us))"
    using sets unspent_unmined_disjoint [OF assms]
    by (auto simp: m distinct_map_filter bkt.distinct_keys)
  moreover have "coAmount c = opValue T (coOutPoint c) \<and>
       coPkScript c = PkScript (TxOut (T (opHash (coOutPoint c))) ! unat (opIndex (coOutPoint c)))"
    if "c \<in> set cs \<union> set us" for c
    using that o(2,3) by (auto simp: list_all2_conv_all_nth in_set_conv_nth listed_def split: prod.splits)
      (metis prod.exhaust_sel)+
  moreover have "set (map coOutPoint (cs @ us)) =
      {op \<in> dom (Get (unspent s)) \<union> dom (Get (unminedCredits s)). free T s now op}"
    using sets by auto
  ultimately show ?thesis using o(1) by (metis set_append)
qed

text \<open>C6.  On a consistent store \<open>UnspentOutputs\<close> succeeds and lists, each exactly once, the mined
  unspent and the unmined credits that are not leased at the time and that no unmined
  transaction spends, with the amount and script of the output.\<close>

theorem unspent_outputs_correct:
  assumes "storeInv isCB T s"
  shows "\<exists>outs. UnspentOutputs isCB s now = Inr outs \<and> distinct (map coOutPoint outs) \<and>
    set (map coOutPoint outs) =
      {op \<in> dom (Get (unspent s)) \<union> dom (Get (unminedCredits s)). free T s now op} \<and>
    (\<forall>c \<in> set outs. coAmount c = opValue T (coOutPoint c) \<and>
       coPkScript c = PkScript (TxOut (T (opHash (coOutPoint c))) ! unat (opIndex (coOutPoint c))))"
  by (rule UnspentOutputs_free [OF assms])

theorem unspent_outputs_correct_witness:
  "storeInv demoCB demoT demo4 \<and>
   (\<exists>outs. UnspentOutputs demoCB demo4 0 = Inr outs \<and> distinct (map coOutPoint outs)) \<and>
   map_sum id (map coOutPoint) (UnspentOutputs demoCB demo2 0) = Inr [OutPoint 1 0] \<and>
   map_sum id (map coOutPoint) (UnspentOutputs demoCB demo4 0) = Inr []"
proof -
  have "map_sum id (map coOutPoint) (UnspentOutputs demoCB demo2 0) = Inr [OutPoint 1 0]"
    "map_sum id (map coOutPoint) (UnspentOutputs demoCB demo4 0) = Inr []" by code_simp+
  then show ?thesis using unspent_outputs_correct [OF demo_inv, of 0] demo_inv by blast
qed

text \<open>C7.  When the clock does not move during the call, \<open>Balance\<close> on a consistent store is the
  sum of the amounts that \<open>UnspentOutputs\<close> lists at that time, restricted to the outputs
  with at least \<open>minConf\<close> confirmations and to mature coinbases: the stored balance
  corrected for leases, unmined spends and immature blocks equals the direct sum.\<close>

theorem balance_correct:
  assumes "storeInv isCB T s" and "universe isCB T rk"
    and "0 \<le> syncHeight" "syncHeight < maxInt32" "0 \<le> minConf" "in32 minConf"
      "0 \<le> maturity" "in32 maturity"
  shows "\<exists>outs. UnspentOutputs isCB s now = Inr outs \<and>
    Balance isCB maturity s (\<lambda>_. now) (\<lambda>_. now) (\<lambda>_. now) minConf syncHeight =
      Inr (sum_list (map coAmount (filter (eligible maturity minConf syncHeight) outs)))"
  by (rule Balance_listed [OF assms])

lemma demo2_inv: "storeInv demoCB demoT demo2"
proof -
  have "storeInv demoCB demoT demo1"
    by (rule InsertTx_mined_inv [where T = demoT, OF demo_universe storeInv_create demoRec(1) disjI2 demo1_ok])
      (simp only: demoRec(2) demo_mineable)
  then show ?thesis
    by (rule AddCredit_inv [where T = demoT, OF _ demoRec(1) demo2_ok]) (simp add: demo_mdom demo_spentBy demoBlock_def)
qed

theorem balance_correct_witness:
  "storeInv demoCB demoT demo2 \<and> universe demoCB demoT unat \<and>
   (\<exists>outs. UnspentOutputs demoCB demo2 0 = Inr outs \<and>
     Balance demoCB 100 demo2 (\<lambda>_. 0) (\<lambda>_. 0) (\<lambda>_. 0) 1 101 =
       Inr (sum_list (map coAmount (filter (eligible 100 1 101) outs)))) \<and>
   Balance demoCB 100 demo2 (\<lambda>_. 0) (\<lambda>_. 0) (\<lambda>_. 0) 1 101 = Inr 50 \<and>
   Balance demoCB 100 demo2 (\<lambda>_. 0) (\<lambda>_. 0) (\<lambda>_. 0) 1 50 = Inr 0"
proof -
  have "Balance demoCB 100 demo2 (\<lambda>_. 0) (\<lambda>_. 0) (\<lambda>_. 0) 1 101 = Inr 50"
    "Balance demoCB 100 demo2 (\<lambda>_. 0) (\<lambda>_. 0) (\<lambda>_. 0) 1 50 = Inr 0" by code_simp+
  moreover have "\<exists>outs. UnspentOutputs demoCB demo2 0 = Inr outs \<and>
     Balance demoCB 100 demo2 (\<lambda>_. 0) (\<lambda>_. 0) (\<lambda>_. 0) 1 101 =
       Inr (sum_list (map coAmount (filter (eligible 100 1 101) outs)))"
    by (rule balance_correct [OF demo2_inv demo_universe]) (simp_all add: maxInt32_def)
  ultimately show ?thesis using demo2_inv demo_universe by blast
qed


end
