(* ===== verification/Wtx_Props2.thy ===== *)
theory Wtx_Props2
  imports Wtx_Props
begin

text \<open>
  More properties of the transaction store: unmined insertion, credits, leases, labels, and
  the independence of a conflict removal from its fuel.
\<close>

section \<open>Fuel\<close>

lemma fold_err_mono:
  assumes "\<And>x s s'. f x s = Inr s' \<Longrightarrow> g x s = Inr s'" and "fold_err f xs s = Inr s'"
  shows "fold_err g xs s = Inr s'"
  using assms(2)
proof (induction xs arbitrary: s)
  case (Cons x xs)
  then obtain s1 where "f x s = Inr s1" "fold_err f xs s1 = Inr s'" by (auto split: sum.splits)
  with Cons.IH assms(1) show ?case by auto
qed simp

lemma removeConflict_mono: "removeConflict n h tx s = Inr s' \<Longrightarrow> removeConflict (Suc n) h tx s = Inr s'"
proof (induction n arbitrary: h tx s s')
  case (Suc n)
  have sp: "conflictSpender (Suc n) x t = Inr t'" if "conflictSpender n x t = Inr t'" for x t t'
    using that Suc.IH by (auto simp: conflictSpender_def split: option.splits)
  have loop: "fold_err (conflictSpender (Suc n)) xs t = Inr t'"
    if "fold_err (conflictSpender n) xs t = Inr t'" for xs t t'
    by (rule fold_err_mono [OF sp that])
  have out: "conflictOut (conflictSpender (Suc n)) h i t = Inr t'"
    if "conflictOut (conflictSpender n) h i t = Inr t'" for i t t'
  proof -
    obtain t1 where "fold_err (conflictSpender n) (fetchUnminedInputSpendTxHashes t (OutPoint h i)) t = Inr t1"
      "t' = deleteRawUnminedCredit t1 (OutPoint h i)"
      using \<open>conflictOut (conflictSpender n) h i t = Inr t'\<close> by (auto simp: conflictOut_def split: sum.splits)
    with loop show ?thesis by (simp add: conflictOut_def)
  qed
  from Suc.prems obtain s1 where "fold_err (conflictOut (conflictSpender n) h) (idxs (TxOut tx)) s = Inr s1"
    "s' = dropUnmined h tx s1" by (auto simp: removeConflict_Suc split: sum.splits)
  moreover have "fold_err (conflictOut (conflictSpender (Suc n)) h) (idxs (TxOut tx)) s = Inr s1"
    by (rule fold_err_mono [OF out calculation(1)])
  ultimately show ?case by (subst removeConflict_Suc) simp
qed simp

text \<open>C9.  The recursion of \<open>removeConflict\<close> ends: on a consistent store every depth bound of at
  least the one used gives the same result, so the bound is never reached.\<close>

theorem remove_conflict_terminates:
  assumes "universe isCB T rk" and "storeInv isCB T s"
  shows "\<exists>s'. \<forall>n \<ge> conflictFuel s. removeConflict n h (T h) s = Inr s'"
proof -
  have "unminedInv T s" using assms(2) by (simp add: storeInv_def)
  then obtain s' where s': "removeConflict (conflictFuel s) h (T h) s = Inr s'"
    using removeConflict_exact [OF assms(1)] by blast
  have "removeConflict n h (T h) s = Inr s'" if "conflictFuel s \<le> n" for n
    using that by (induction rule: dec_induct) (auto intro: s' removeConflict_mono)
  then show ?thesis by blast
qed

theorem remove_conflict_terminates_witness:
  "universe demoCB demoT unat \<and> storeInv demoCB demoT demo4 \<and> conflictFuel demo4 = 3 \<and>
   (\<exists>s'. \<forall>n \<ge> 3. removeConflict n 3 (demoT 3) demo4 = Inr s')"
proof -
  have "conflictFuel demo4 = 3" by code_simp
  then show ?thesis
    using remove_conflict_terminates [OF demo_universe demo_inv, of 3] demo_universe demo_inv by simp
qed

section \<open>Unmined transactions and credits\<close>

text \<open>C10.  Inserting an unmined transaction into a consistent store succeeds and leaves it
  consistent.  A transaction already known, mined or unmined, changes nothing; a new one
  is added to the unmined bucket, the mined buckets stay as they were, and every outpoint
  it spends becomes spent by an unmined transaction.\<close>

theorem insert_unmined_correct:
  assumes "universe isCB T rk" and "storeInv isCB T s" and "msgTx rec = T (txHash rec)"
  shows "\<exists>s'. InsertTx s rec None = Inr s' \<and> storeInv isCB T s' \<and> sameMined s s' \<and>
    (if txHash rec \<in> udom s \<or> (\<exists>b. (txHash rec, b) \<in> mdom s) then s' = s
     else Get (unmined s') = (Get (unmined s))(txHash rec \<mapsto>
            \<lparr>tvReceived = received rec, tvTx = msgTx rec\<rparr>) \<and>
          (\<forall>op. spentByUnmined s' op \<longleftrightarrow> spentByUnmined s op \<or> op \<in> set (TxIn (msgTx rec))))"
proof (cases "txHash rec \<in> udom s \<or> (\<exists>b. (txHash rec, b) \<in> mdom s)")
  case True
  then show ?thesis using InsertTx_unmined_cases [OF assms] assms(2) by auto
next
  case False
  then have new: "txHash rec \<notin> udom s" "\<And>b. (txHash rec, b) \<notin> mdom s" by blast+
  from insertMemPoolTx_spec [OF assms(2,3,1) new] obtain s' where s': "insertMemPoolTx s rec = Inr s'"
    "storeInv isCB T s'" "sameMined s s'"
    "Get (unmined s') = (Get (unmined s))(txHash rec \<mapsto> \<lparr>tvReceived = received rec, tvTx = msgTx rec\<rparr>)"
    by blast
  have "indexExact T s" "indexExact T s'" using assms(2) s'(2) by (simp_all add: storeInv_def unminedInv_def)
  then have "spentByUnmined s' op \<longleftrightarrow> spentByUnmined s op \<or> op \<in> set (TxIn (msgTx rec))" for op
    using s'(4) new(1) assms(3) by (auto simp: spentByUnmined_iff)
  then show ?thesis using False s' by (simp add: InsertTx_def InsertTxCheckIfExists_def)
qed

theorem insert_unmined_correct_witness:
  "universe demoCB demoT unat \<and> storeInv demoCB demoT demo4 \<and>
   (\<exists>s'. InsertTx demo4 (demoRec 2) None = Inr s' \<and> storeInv demoCB demoT s' \<and> sameMined demo4 s') \<and>
   map_sum id (\<lambda>s. map fst (ForEach (unmined s))) (InsertTx demo4 (demoRec 2) None) = Inr [2, 3, 4] \<and>
   map_sum id (\<lambda>s. map fst (ForEach (unmined s))) (InsertTx demo4 (demoRec 1) None) = Inr [3, 4]"
proof -
  have "map_sum id (\<lambda>s. map fst (ForEach (unmined s))) (InsertTx demo4 (demoRec 2) None) = Inr [2, 3, 4]"
    "map_sum id (\<lambda>s. map fst (ForEach (unmined s))) (InsertTx demo4 (demoRec 1) None) = Inr [3, 4]"
    by code_simp+
  then show ?thesis
    using insert_unmined_correct [OF demo_universe demo_inv demoRec(1), of 2] demo_universe demo_inv by auto
qed

text \<open>Marking an output as a credit is idempotent: repeating a successful \<open>AddCredit\<close>,
  with either change flag, reports nothing new and changes nothing, so a credit is never
  added to the balance twice.\<close>

theorem add_credit_idempotent:
  assumes "AddCredit s rec obm index change = Inr (new, s')"
  shows "AddCredit s' rec obm index change' = Inr (False, s')"
proof -
  have i: "\<not> unat index \<ge> length (TxOut (msgTx rec))" and a: "addCredit s rec obm index change = (new, s')"
    using assms by (auto simp: AddCredit_def split: if_splits)
  have "addCredit s' rec obm index change' = (False, s')"
    using a by (cases obm)
      (auto simp: addCredit_def Let_def putRawUnminedCredit_def putUnspentCredit_def putUnspent_def
        split: if_splits)
  then show ?thesis using i by (simp add: AddCredit_def)
qed

theorem add_credit_idempotent_witness:
  "AddCredit demo1 (demoRec 1) (Some (demoBlock 1)) 0 False = Inr (True, demo2) \<and>
   AddCredit demo2 (demoRec 1) (Some (demoBlock 1)) 0 True = Inr (False, demo2)"
  using add_credit_idempotent [OF demo2_ok] demo2_ok by blast

section \<open>Leases\<close>


definition demoLeased :: ns where
  "demoLeased = snd (projr (LockOutput demo2 0 0 7 (OutPoint 1 0) 5500000000))"

lemma demoLeased_ok: "LockOutput demo2 0 0 7 (OutPoint 1 0) 5500000000 = Inr (5500000000, demoLeased)"
proof -
  let ?r = "LockOutput demo2 0 0 7 (OutPoint 1 0) 5500000000"
  have "\<not> isl ?r \<and> fst (projr ?r) = 5500000000" by code_simp
  then show ?thesis unfolding demoLeased_def by (metis prod.collapse sum.collapse(2))
qed


end
