(* ===== verification/Wtx_Refine.thy ===== *)
theory Wtx_Refine
  imports Wtx_Props2
begin

text \<open>
  The typed buckets of the model against the byte-level ones of \<^verbatim>\<open>wtxmgr/db.go\<close>.  \<open>represents\<close>
  says that a byte-keyed bucket holds exactly the encodings of a typed one; the raw
  helpers, written on bytes as the code has them, are shown to refine the typed helpers
  the handlers of the model use.
\<close>

section \<open>Encoded buckets\<close>

type_synonym rawBucket = "bytes \<rightharpoonup> bytes"

definition represents :: "('k \<Rightarrow> bytes) \<Rightarrow> ('v \<Rightarrow> bytes) \<Rightarrow> rawBucket \<Rightarrow> ('k \<rightharpoonup> 'v) \<Rightarrow> bool" where
  "represents enc encv R m \<longleftrightarrow>
     (\<forall>k. R (enc k) = map_option encv (m k)) \<and> (\<forall>bs. R bs \<noteq> None \<longrightarrow> bs \<in> range enc)"

locale encoded_bucket =
  fixes enc :: "'k \<Rightarrow> bytes" and encv :: "'v \<Rightarrow> bytes"
  assumes inj_enc: "enc k = enc k' \<longleftrightarrow> k = k'"
begin

lemma get: "represents enc encv R m \<Longrightarrow> R (enc k) = map_option encv (m k)"
  by (simp add: represents_def)

lemma put: "represents enc encv R m \<Longrightarrow> represents enc encv (R(enc k \<mapsto> encv v)) (m(k \<mapsto> v))"
  by (auto simp: represents_def inj_enc)

lemma delete: "represents enc encv R m \<Longrightarrow> represents enc encv (R(enc k := None)) (m(k := None))"
  by (auto simp: represents_def inj_enc)

end

interpretation credits_raw: encoded_bucket encCredKey encCredit
  by unfold_locales (rule cred_key.inject)

interpretation inputs_raw: encoded_bucket encOutPoint encHashes
  by unfold_locales (rule outpoint_key.inject)

interpretation blocks_raw: encoded_bucket keyBlockRecord encBlockRecord
  by unfold_locales (rule height_key.inject)

section \<open>The raw helpers\<close>

text \<open>A Go \<open>Get\<close> of a missing key returns the nil slice.\<close>

definition rawGet :: "rawBucket \<Rightarrow> bytes \<Rightarrow> bytes" where
  "rawGet R k = (case R k of None \<Rightarrow> [] | Some v \<Rightarrow> v)"

definition rawSpendCredit :: "rawBucket \<Rightarrow> bytes \<Rightarrow> CredKey \<Rightarrow> amount \<times> rawBucket" where
  "rawSpendCredit R k spender =
     (let v = spendCreditValue (rawGet R k) spender in (get_u64 v, R(k \<mapsto> v)))"

definition rawUnspendCredit :: "rawBucket \<Rightarrow> bytes \<Rightarrow> amount \<times> rawBucket" where
  "rawUnspendCredit R k =
     (case R k of
        None \<Rightarrow> (0, R)
      | Some v \<Rightarrow> (get_u64 v, R(k \<mapsto> unspendCreditValue v)))"

definition rawPutUnminedInput :: "rawBucket \<Rightarrow> bytes \<Rightarrow> hash \<Rightarrow> rawBucket" where
  "rawPutUnminedInput R k h = R(k \<mapsto> rawGet R k @ hash_bytes h)"

definition rawDeleteUnminedInput :: "rawBucket \<Rightarrow> bytes \<Rightarrow> hash \<Rightarrow> rawBucket" where
  "rawDeleteUnminedInput R k target =
     (let v = rawGet R k in
      if length v = 0 then R
      else case deleteSpendHash v target of
             None \<Rightarrow> R(k := None)
           | Some new \<Rightarrow> R(k \<mapsto> new))"

text \<open>The block bucket of \<open>insertMinedTx\<close>: a new record or an appended one.\<close>

definition rawPutBlockTx :: "rawBucket \<Rightarrow> BlockMeta \<Rightarrow> hash \<Rightarrow> store_error + rawBucket" where
  "rawPutBlockTx R bm h =
     (let k = keyBlockRecord (bHeight (block bm)) in
      case R k of
        None \<Rightarrow> Inr (R(k \<mapsto> valueBlockRecord bm h))
      | Some v \<Rightarrow> (case appendRawBlockRecord v h of Inl e \<Rightarrow> Inl e | Inr v' \<Rightarrow> Inr (R(k \<mapsto> v'))))"

lemma encHashes_Nil: "encHashes hs = [] \<longleftrightarrow> hs = []"
  using length_encHashes [of hs] by (metis length_0_conv mult_is_0 zero_neq_numeral)

section \<open>Properties\<close>

text \<open>C12.  The byte-level \<open>spendCredit\<close> and \<open>unspendRawCredit\<close> (81-byte and 9-byte in-place
  edits of the credit value) return the amount and leave the bytes that the typed
  operations describe, for existing and for missing credits.\<close>

theorem spend_credit_refines:
  assumes "represents encCredKey encCredit R (Get (credits s))"
  shows "fst (rawSpendCredit R (encCredKey ck) dk) = fst (spendCredit s ck dk) \<and>
    represents encCredKey encCredit (snd (rawSpendCredit R (encCredKey ck) dk))
      (Get (credits (snd (spendCredit s ck dk)))) \<and>
    fst (rawUnspendCredit R (encCredKey ck)) = fst (unspendRawCredit s ck) \<and>
    represents encCredKey encCredit (snd (rawUnspendCredit R (encCredKey ck)))
      (Get (credits (snd (unspendRawCredit s ck))))"
proof (cases "Get (credits s) ck")
  case None
  have "rawGet R (encCredKey ck) = []" using credits_raw.get [OF assms, of ck] None by (simp add: rawGet_def)
  with None assms credits_raw.put [OF assms] credits_raw.get [OF assms, of ck] show ?thesis
    by (simp add: rawSpendCredit_def spendCredit_def rawUnspendCredit_def unspendRawCredit_def Let_def
        spendCreditValue_missing)
next
  case (Some c)
  have v: "R (encCredKey ck) = Some (encCredit c)" using credits_raw.get [OF assms, of ck] Some by simp
  with Some credits_raw.put [OF assms] show ?thesis
    by (simp add: rawSpendCredit_def spendCredit_def rawUnspendCredit_def unspendRawCredit_def Let_def
        rawGet_def spendCreditValue_enc unspendCreditValue_enc)
qed

theorem spend_credit_refines_witness:
  "represents encCredKey encCredit Map.empty (Get (credits createStore)) \<and>
   fst (rawSpendCredit Map.empty (encCredKey (1, Block 1 101, 0)) (2, Block 2 102, 0)) = 0 \<and>
   fst (rawUnspendCredit [encCredKey (1, Block 1 101, 0) \<mapsto> encCredit
     \<lparr>credAmount = 50, credChange = False, credSpentBy = Some (2, Block 2 102, 0)\<rparr>]
     (encCredKey (1, Block 1 101, 0))) = 50"
proof -
  have r: "represents encCredKey encCredit Map.empty (Get (credits createStore))"
    by (simp add: represents_def createStore_def)
  have "fst (rawSpendCredit Map.empty (encCredKey (1, Block 1 101, 0)) (2, Block 2 102, 0)) = 0"
    using spend_credit_refines [OF r, of "(1, Block 1 101, 0)" "(2, Block 2 102, 0)"]
    by (simp add: spendCredit_def createStore_def)
  then show ?thesis using r by (simp add: rawUnspendCredit_def)
qed

text \<open>The byte-level list of spenders of an outpoint: appending a hash and filtering one out
  refine the typed operations, a record that becomes empty is deleted, and reading the
  list back gives the hashes.\<close>

theorem unmined_inputs_refine:
  assumes "represents encOutPoint encHashes R (Get (unminedInputs s))"
  shows "represents encOutPoint encHashes (rawPutUnminedInput R (encOutPoint op) h)
      (Get (unminedInputs (putRawUnminedInput s op h))) \<and>
    represents encOutPoint encHashes (rawDeleteUnminedInput R (encOutPoint op) h)
      (Get (unminedInputs (deleteRawUnminedInput s op h))) \<and>
    fetchSpendTxHashes (rawGet R (encOutPoint op)) = Inr (fetchUnminedInputSpendTxHashes s op)"
proof -
  have v: "rawGet R (encOutPoint op) = encHashes (fetchUnminedInputSpendTxHashes s op)"
    using inputs_raw.get [OF assms, of op]
    by (cases "Get (unminedInputs s) op") (simp_all add: rawGet_def fetchUnminedInputSpendTxHashes_def encHashes_def)
  have "represents encOutPoint encHashes (rawPutUnminedInput R (encOutPoint op) h)
      (Get (unminedInputs (putRawUnminedInput s op h)))"
    using inputs_raw.put [OF assms]
    by (simp add: rawPutUnminedInput_def putRawUnminedInput_def v appendSpendHash_enc)
  moreover have "represents encOutPoint encHashes (rawDeleteUnminedInput R (encOutPoint op) h)
      (Get (unminedInputs (deleteRawUnminedInput s op h)))"
    using assms inputs_raw.put [OF assms] inputs_raw.delete [OF assms]
    by (cases "Get (unminedInputs s) op")
      (auto simp: rawDeleteUnminedInput_def deleteRawUnminedInput_def v Let_def deleteSpendHash_enc
        fetchUnminedInputSpendTxHashes_def encHashes_Nil)
  ultimately show ?thesis by (simp add: v fetchSpendTxHashes_enc)
qed

theorem unmined_inputs_refine_witness:
  "represents encOutPoint encHashes Map.empty (Get (unminedInputs createStore)) \<and>
   represents encOutPoint encHashes (rawPutUnminedInput Map.empty (encOutPoint (OutPoint 1 0)) 3)
     (Get (unminedInputs (putRawUnminedInput createStore (OutPoint 1 0) 3)))"
proof -
  have r: "represents encOutPoint encHashes Map.empty (Get (unminedInputs createStore))"
    by (simp add: represents_def createStore_def)
  then show ?thesis using unmined_inputs_refine [OF r] by blast
qed

text \<open>C13.  Recording a transaction in the byte-level block bucket, by a new value or by the
  in-place append that bumps the count, refines the typed record and succeeds; the value
  written reads back as the record, as long as the block has fewer than \<open>2\<^sup>3\<^sup>2\<close>
  transactions.\<close>

theorem block_record_refines:
  assumes "represents keyBlockRecord encBlockRecord R (Get (blocks s))"
    and "\<And>br. Get (blocks s) (bHeight (block bm)) = Some br \<Longrightarrow> Suc (length (transactions br)) < 2 ^ 32"
  shows "\<exists>R' br. rawPutBlockTx R bm (txHash rec) = Inr R' \<and>
    represents keyBlockRecord encBlockRecord R' (Get (blocks (putBlockTx s rec bm))) \<and>
    Get (blocks (putBlockTx s rec bm)) (bHeight (block bm)) = Some br \<and>
    readRawBlockRecord (keyBlockRecord (bHeight (block bm))) (rawGet R' (keyBlockRecord (bHeight (block bm)))) =
      Inr (bHeight (block bm), br)"
proof -
  let ?ht = "bHeight (block bm)"
  define br where "br = (case Get (blocks s) ?ht of
      None \<Rightarrow> \<lparr>brHash = bHash (block bm), brTime = btime bm, transactions = [txHash rec]\<rparr>
    | Some br \<Rightarrow> br\<lparr>transactions := transactions br @ [txHash rec]\<rparr>)"
  have raw: "rawPutBlockTx R bm (txHash rec) = Inr (R(keyBlockRecord ?ht \<mapsto> encBlockRecord br))"
    using blocks_raw.get [OF assms(1), of ?ht]
    by (cases "Get (blocks s) ?ht")
      (simp_all add: rawPutBlockTx_def Let_def br_def valueBlockRecord_enc appendRawBlockRecord_enc)
  have b: "Get (blocks (putBlockTx s rec bm)) = (Get (blocks s))(?ht \<mapsto> br)"
    by (cases "Get (blocks s) ?ht")
      (simp_all add: putBlockTx_def putBlockRecord_def appendBlockRecord_def br_def)
  have "length (transactions br) < 2 ^ 32"
    using assms(2) by (cases "Get (blocks s) ?ht") (simp_all add: br_def)
  from readRawBlockRecord_enc [OF this, of ?ht "[]"]
  have "readRawBlockRecord (keyBlockRecord ?ht) (encBlockRecord br) = Inr (?ht, br)" by simp
  then show ?thesis
    using raw blocks_raw.put [OF assms(1)] b
    by (intro exI [of _ "R(keyBlockRecord ?ht \<mapsto> encBlockRecord br)"] exI [of _ br]) (simp add: rawGet_def)
qed

theorem block_record_refines_witness:
  "represents keyBlockRecord encBlockRecord Map.empty (Get (blocks createStore)) \<and>
   (\<exists>R'. rawPutBlockTx Map.empty (demoBlock 1) 1 = Inr R' \<and>
     represents keyBlockRecord encBlockRecord R' (Get (blocks (putBlockTx createStore (demoRec 1) (demoBlock 1)))))"
proof -
  have r: "represents keyBlockRecord encBlockRecord Map.empty (Get (blocks createStore))"
    by (simp add: represents_def createStore_def)
  have "Suc (length (transactions br)) < 2 ^ 32"
    if "Get (blocks createStore) (bHeight (block (demoBlock 1))) = Some br" for br
    using that by (simp add: createStore_def)
  from block_record_refines [OF r this, where rec = "demoRec 1"] show ?thesis using r by (auto simp: demoRec(2))
qed

text \<open>C14.  The bytes of every bucket key order as the typed keys do and determine them, so a
  byte-ordered cursor visits outpoints by hash and index, transaction records by hash,
  height and block hash, and credits grouped by transaction record.\<close>

theorem key_order:
  "(encOutPoint p < encOutPoint p' \<longleftrightarrow> p < p') \<and> (encTxKey k < encTxKey k' \<longleftrightarrow> k < k') \<and>
   (encCredKey c < encCredKey c' \<longleftrightarrow> c < c') \<and> (keyBlockRecord h < keyBlockRecord h' \<longleftrightarrow> h < h') \<and>
   readCanonicalOutPoint (encOutPoint p) = Inr p \<and> readTxKey (encTxKey k) = Inr k \<and>
   readCredKey (encCredKey c) = Inr c \<and>
   take 68 (encCredKey c) = encTxKey (fst c, fst (snd c))"
proof -
  have "take 68 (encCredKey c) = encTxKey (fst c, fst (snd c))"
    by (cases c) (simp add: encCredKey_def keyCredit_def encTxKey_def keyTxRecord_def)
  then show ?thesis
    using outpoint_key.ordered txrec_key.ordered cred_key.ordered height_key.ordered
      outpoint_key.round_trip [of p "[]"] txrec_key.round_trip [of k "[]"] cred_key.round_trip [of c "[]"]
    by simp
qed

text \<open>C15.  Labels: \<open>PutTxLabel\<close> refuses exactly the empty label and those over the limit; a label
  it accepts is what \<open>TxLabel\<close> returns for that transaction, and the labels of other
  transactions are unchanged.\<close>

theorem label_round_trip:
  "(label = [] \<longrightarrow> PutTxLabel s h label = Inl ErrEmptyLabel) \<and>
   (500 < length label \<longrightarrow> PutTxLabel s h label = Inl ErrLabelTooLong) \<and>
   (label \<noteq> [] \<and> length label \<le> 500 \<longrightarrow>
     (\<exists>s'. PutTxLabel s h label = Inr s' \<and> TxLabel s' h = Inr label \<and>
       (\<forall>h'. h' \<noteq> h \<longrightarrow> TxLabel s' h' = TxLabel s h')))"
proof (intro conjI impI)
  show "PutTxLabel s h label = Inl ErrEmptyLabel" if "label = []"
    using that by (simp add: PutTxLabel_def)
  show "PutTxLabel s h label = Inl ErrLabelTooLong" if "500 < length label"
    using that by (auto simp: PutTxLabel_def TxLabelLimit_def)
  assume l: "label \<noteq> [] \<and> length label \<le> 500"
  define s' where "s' = s\<lparr>txLabels := Some (Put (case txLabels s of None \<Rightarrow> bempty | Some b \<Rightarrow> b) h (serializeLabel label))\<rparr>"
  have "PutTxLabel s h label = Inr s'"
    using l by (simp add: PutTxLabel_def TxLabelLimit_def s'_def Let_def)
  moreover have "TxLabel s' h = Inr label"
    using DeserializeLabel_ser [of label] l by (simp add: s'_def TxLabel_def FetchTxLabel_def)
  moreover have "TxLabel s' h' = TxLabel s h'" if "h' \<noteq> h" for h'
    using that by (cases "txLabels s") (simp_all add: s'_def TxLabel_def FetchTxLabel_def)
  ultimately show "\<exists>s'. PutTxLabel s h label = Inr s' \<and> TxLabel s' h = Inr label \<and>
       (\<forall>h'. h' \<noteq> h \<longrightarrow> TxLabel s' h' = TxLabel s h')" by blast
qed

theorem label_round_trip_witness:
  "PutTxLabel createStore 5 [] = Inl ErrEmptyLabel \<and>
   (\<exists>s'. PutTxLabel createStore 5 [104, 105] = Inr s' \<and> TxLabel s' 5 = Inr [104, 105])"
  using label_round_trip [of "[104, 105]" createStore 5] label_round_trip [of "[]" createStore 5] by auto

end
