(* ===== verification/Wtx_Kahn.thy ===== *)
theory Wtx_Kahn
  imports Wtx_Types "HOL-Library.While_Combinator" "HOL-Library.Multiset"
begin

text \<open>
  The dependency sort of \<^verbatim>\<open>wtxmgr/kahnsort.go\<close>.  \<open>TH\<close> stands for \<^verbatim>\<open>MsgTx.TxHash\<close>.  Go visits the
  entries of a map in any order: the transaction set is a list of its entries in the order
  the first loop sees them, and \<open>ord\<close> is the order in which \<open>graphRoots\<close> sees the nodes.  A
  node is only ever written with a transaction, so \<open>value\<close> needs no nil case; an absent node
  reads as the zero node.  The main loop is a \<open>while_option\<close>: that it ends is proved.
\<close>

section \<open>The code\<close>

record graphNode =
  gvalue :: MsgTx
  outEdges :: "hash list"
  inDegree :: nat

type_synonym hashGraph = "hash \<Rightarrow> graphNode option"
type_synonym txSet = "(hash \<times> MsgTx) list"

definition edgesOf :: "hashGraph \<Rightarrow> hash \<Rightarrow> hash list" where
  "edgesOf g h = (case g h of None \<Rightarrow> [] | Some n \<Rightarrow> outEdges n)"

definition degOf :: "hashGraph \<Rightarrow> hash \<Rightarrow> nat" where
  "degOf g h = (case g h of None \<Rightarrow> 0 | Some n \<Rightarrow> inDegree n)"

text \<open>One input of a transaction.  The test on the existing edges compares each of them with
  the hash of the previous transaction.\<close>

definition addEdge :: "txSet \<Rightarrow> hash \<Rightarrow> MsgTx \<Rightarrow> OutPoint \<Rightarrow> hashGraph \<Rightarrow> hashGraph" where
  "addEdge txs h tx op g =
     (case map_of txs (opHash op) of
        None \<Rightarrow> g
      | Some prevTx \<Rightarrow>
          if opHash op \<in> set (edgesOf g (opHash op)) then g
          else
            let inputTx = (case g (opHash op) of None \<Rightarrow> prevTx | Some n \<Rightarrow> gvalue n);
                g = g(opHash op \<mapsto> \<lparr>gvalue = inputTx, outEdges = edgesOf g (opHash op) @ [h],
                                     inDegree = degOf g (opHash op)\<rparr>)
            in g(h \<mapsto> \<lparr>gvalue = tx, outEdges = edgesOf g h, inDegree = degOf g h + 1\<rparr>))"

definition addNode :: "(MsgTx \<Rightarrow> hash) \<Rightarrow> txSet \<Rightarrow> hash \<times> MsgTx \<Rightarrow> hashGraph \<Rightarrow> hashGraph" where
  "addNode TH txs ht g =
     (let tx = snd ht; h = TH tx;
          g = (if g h = None then g(h \<mapsto> \<lparr>gvalue = tx, outEdges = [], inDegree = 0\<rparr>) else g)
      in fold (addEdge txs h tx) (TxIn tx) g)"

definition makeGraph :: "(MsgTx \<Rightarrow> hash) \<Rightarrow> txSet \<Rightarrow> hashGraph" where
  "makeGraph TH txs = fold (addNode TH txs) txs Map.empty"

definition graphRoots :: "hashGraph \<Rightarrow> hash list \<Rightarrow> MsgTx list" where
  "graphRoots g ord =
     List.map_filter
       (\<lambda>h. case g h of None \<Rightarrow> None
          | Some n \<Rightarrow> if inDegree n = 0 then Some (gvalue n) else None) ord"

text \<open>One out-edge of the transaction taken from the queue.\<close>

definition dropEdge :: "hash \<Rightarrow> hashGraph \<times> MsgTx list \<Rightarrow> hashGraph \<times> MsgTx list" where
  "dropEdge m gs =
     (case fst gs m of
        None \<Rightarrow> gs
      | Some n \<Rightarrow>
          if inDegree n \<noteq> 0
          then let n = n\<lparr>inDegree := inDegree n - 1\<rparr>
               in ((fst gs)(m \<mapsto> n), if inDegree n = 0 then snd gs @ [gvalue n] else snd gs)
          else gs)"

type_synonym kahnState = "hashGraph \<times> MsgTx list \<times> MsgTx list"

definition kahnStep :: "(MsgTx \<Rightarrow> hash) \<Rightarrow> kahnState \<Rightarrow> kahnState" where
  "kahnStep TH st =
     (case st of (g, s, out) \<Rightarrow>
        let tx = hd s;
            (g', s') = fold dropEdge (edgesOf g (TH tx)) (g, tl s)
        in (g', s', out @ [tx]))"

definition DependencySort :: "(MsgTx \<Rightarrow> hash) \<Rightarrow> txSet \<Rightarrow> hash list \<Rightarrow> MsgTx list option" where
  "DependencySort TH txs ord =
     (let g = makeGraph TH txs; s = graphRoots g ord
      in if length s = length txs then Some s
         else map_option (\<lambda>(g, s, out). out)
                (while_option (\<lambda>(g, s, out). s \<noteq> []) (kahnStep TH) (g, s, [])))"

section \<open>The graph\<close>

text \<open>A well-formed acyclic set: keys are hashes, and spends go up in rank.\<close>

definition dagSet :: "(MsgTx \<Rightarrow> hash) \<Rightarrow> (hash \<Rightarrow> nat) \<Rightarrow> txSet \<Rightarrow> bool" where
  "dagSet TH rk txs \<longleftrightarrow>
     distinct (map fst txs) \<and> (\<forall>(h, tx)\<in>set txs. TH tx = h) \<and>
     (\<forall>(h, tx)\<in>set txs. \<forall>op\<in>set (TxIn tx).
        opHash op \<in> fst ` set txs \<longrightarrow> rk (opHash op) < rk h)"

text \<open>The graph after the inputs in \<open>E\<close> (pairs of a previous hash and a spender) are added and
  the nodes in \<open>N\<close> visited.\<close>

definition graphOk :: "txSet \<Rightarrow> (hash \<times> hash) list \<Rightarrow> hash set \<Rightarrow> hashGraph \<Rightarrow> bool" where
  "graphOk txs E N g \<longleftrightarrow>
     dom g = N \<union> fst ` set E \<union> snd ` set E \<and>
     (\<forall>h n. g h = Some n \<longrightarrow> map_of txs h = Some (gvalue n)) \<and>
     (\<forall>h. edgesOf g h = map snd (filter (\<lambda>e. fst e = h) E)) \<and>
     (\<forall>h. degOf g h = length (filter (\<lambda>e. snd e = h) E))"

lemma edgesOf_upd [simp]: "edgesOf (g(h \<mapsto> n)) x = (if x = h then outEdges n else edgesOf g x)"
  and degOf_upd [simp]: "degOf (g(h \<mapsto> n)) x = (if x = h then inDegree n else degOf g x)"
  by (simp_all add: edgesOf_def degOf_def)

lemma graphOk_addEdge:
  assumes "graphOk txs E N g" and "map_of txs h = Some tx" and "h \<in> N"
    and "opHash op \<in> dom (map_of txs) \<Longrightarrow> opHash op \<noteq> h"
    and noself: "\<forall>e\<in>set E. fst e \<noteq> snd e"
  shows "graphOk txs (E @ (if opHash op \<in> dom (map_of txs) then [(opHash op, h)] else [])) N
           (addEdge txs h tx op g)"
proof (cases "map_of txs (opHash op)")
  case None
  with assms(1) show ?thesis by (simp add: addEdge_def domIff)
next
  case (Some p)
  let ?q = "opHash op"
  have q: "?q \<noteq> h" using assms(4) Some by blast
  have "?q \<notin> set (edgesOf g ?q)" using assms(1) noself by (auto simp: graphOk_def)
  moreover have "map_of txs ?q = Some (case g ?q of None \<Rightarrow> p | Some n \<Rightarrow> gvalue n)"
    using assms(1) Some by (auto simp: graphOk_def split: option.split)
  ultimately show ?thesis
    using assms(1,2,3) Some q unfolding graphOk_def
    by (auto simp: addEdge_def Let_def)
qed

text \<open>The edges of a transaction, in the order of its inputs.\<close>

definition txEdges :: "txSet \<Rightarrow> hash \<times> MsgTx \<Rightarrow> (hash \<times> hash) list" where
  "txEdges txs ht =
     map (\<lambda>op. (opHash op, fst ht))
       (filter (\<lambda>op. opHash op \<in> dom (map_of txs)) (TxIn (snd ht)))"

lemma graphOk_addEdges:
  assumes "graphOk txs E N g" and "map_of txs h = Some tx" and "h \<in> N"
    and "\<forall>op\<in>set ops. opHash op \<in> dom (map_of txs) \<longrightarrow> opHash op \<noteq> h"
    and "\<forall>e\<in>set E. fst e \<noteq> snd e"
  shows "graphOk txs (E @ map (\<lambda>op. (opHash op, h)) (filter (\<lambda>op. opHash op \<in> dom (map_of txs)) ops))
           N (fold (addEdge txs h tx) ops g)"
  using assms(1,4,5)
proof (induction ops arbitrary: E g)
  case (Cons op ops)
  let ?E = "E @ (if opHash op \<in> dom (map_of txs) then [(opHash op, h)] else [])"
  have "graphOk txs ?E N (addEdge txs h tx op g)"
    using Cons.prems assms(2,3) by (intro graphOk_addEdge) auto
  moreover have "\<forall>e\<in>set ?E. fst e \<noteq> snd e" using Cons.prems by auto
  ultimately have "graphOk txs (?E @ map (\<lambda>op. (opHash op, h))
      (filter (\<lambda>op. opHash op \<in> dom (map_of txs)) ops)) N
      (fold (addEdge txs h tx) ops (addEdge txs h tx op g))"
    using Cons.IH [of ?E] Cons.prems by simp
  then show ?case by (cases "opHash op \<in> dom (map_of txs)") simp_all
qed simp

lemma dagSetD:
  assumes "dagSet TH rk txs" and "(h, tx) \<in> set txs"
  shows "TH tx = h" "map_of txs h = Some tx"
    "op \<in> set (TxIn tx) \<Longrightarrow> opHash op \<in> dom (map_of txs) \<Longrightarrow> rk (opHash op) < rk h"
proof -
  show "TH tx = h" "map_of txs h = Some tx" using assms by (auto simp: dagSet_def)
  show "rk (opHash op) < rk h" if "op \<in> set (TxIn tx)" "opHash op \<in> dom (map_of txs)"
    using assms that unfolding dagSet_def dom_map_of_conv_image_fst by blast
qed

lemma graphOk_addNodes:
  assumes dag: "dagSet TH rk txs" and "set xs \<subseteq> set txs" and "graphOk txs E N g"
    and "\<forall>e\<in>set E. fst e \<noteq> snd e"
  shows "graphOk txs (E @ concat (map (txEdges txs) xs)) (N \<union> fst ` set xs)
           (fold (addNode TH txs) xs g)"
  using assms(2-)
proof (induction xs arbitrary: E N g)
  case (Cons x xs)
  obtain h tx where x: "x = (h, tx)" by force
  note D = dagSetD [OF dag, of h tx]
  have mem: "(h, tx) \<in> set txs" using Cons.prems x by auto
  define g1 where "g1 = (if g h = None then g(h \<mapsto> \<lparr>gvalue = tx, outEdges = [], inDegree = 0\<rparr>) else g)"
  have nodeg: "edgesOf g h = []" "degOf g h = 0" if "g h = None"
    using that by (simp_all add: edgesOf_def degOf_def)
  have e0: "map snd (filter (\<lambda>e. fst e = h) E) = []" "length (filter (\<lambda>e. snd e = h) E) = 0"
    if "g h = None"
    using that nodeg Cons.prems(2) unfolding graphOk_def by metis+
  have g1: "graphOk txs E (insert h N) g1"
    using Cons.prems(2) D(2) [OF mem] e0 unfolding graphOk_def g1_def
    by (cases "g h") (auto simp del: filter_empty_conv)
  have "graphOk txs (E @ txEdges txs x) (insert h N) (fold (addEdge txs h tx) (TxIn tx) g1)"
    unfolding txEdges_def x using graphOk_addEdges [OF g1 D(2) [OF mem]] Cons.prems(3) D(3) [OF mem]
    by fastforce
  then have "graphOk txs (E @ txEdges txs x) (insert h N) (addNode TH txs x g)"
    by (simp only: addNode_def x g1_def Let_def snd_conv D(1) [OF mem])
  moreover have "\<forall>e\<in>set (E @ txEdges txs x). fst e \<noteq> snd e"
    using Cons.prems(3) D(3) [OF mem] by (fastforce simp: txEdges_def x)
  ultimately show ?case
    using Cons.IH [of "E @ txEdges txs x" "insert h N"] Cons.prems(1) x by simp
qed simp

definition allEdges :: "txSet \<Rightarrow> (hash \<times> hash) list" where
  "allEdges txs = concat (map (txEdges txs) txs)"

lemma makeGraph_ok:
  assumes "dagSet TH rk txs"
  shows "graphOk txs (allEdges txs) (fst ` set txs) (makeGraph TH txs)"
    "dom (makeGraph TH txs) = fst ` set txs"
proof -
  have "graphOk txs [] {} Map.empty" by (simp add: graphOk_def edgesOf_def degOf_def)
  from graphOk_addNodes [OF assms order_refl this]
  show ok: "graphOk txs (allEdges txs) (fst ` set txs) (makeGraph TH txs)"
    by (simp add: makeGraph_def allEdges_def)
  have "fst ` set (allEdges txs) \<union> snd ` set (allEdges txs) \<subseteq> fst ` set txs"
    by (force simp: allEdges_def txEdges_def dom_map_of_conv_image_fst)
  with ok show "dom (makeGraph TH txs) = fst ` set txs" by (auto simp: graphOk_def)
qed

section \<open>The loop\<close>

lemma degOf_dom: "degOf g m \<noteq> 0 \<Longrightarrow> m \<in> dom g"
  by (auto simp: degOf_def split: option.splits)

text \<open>Removing the edges in \<open>L\<close>: degrees drop by the multiplicity of the target, and exactly the
  targets that reach degree 0 are queued, each once.\<close>

lemma dropEdges:
  assumes "\<forall>m. count_list L m \<le> degOf g m"
  obtains g' N where "fold dropEdge L (g, s) = (g', s @ map (\<lambda>m. gvalue (the (g m))) N)"
    and "distinct N" and "set N = {m \<in> set L. degOf g m = count_list L m}"
    and "\<forall>m. degOf g' m = degOf g m - count_list L m" and "edgesOf g' = edgesOf g"
    and "\<forall>m. map_option gvalue (g' m) = map_option gvalue (g m)"
proof -
  have "\<exists>g' N. fold dropEdge L (g, s) = (g', s @ map (\<lambda>m. gvalue (the (g m))) N) \<and>
      distinct N \<and> set N = {m \<in> set L. degOf g m = count_list L m} \<and>
      (\<forall>m. degOf g' m = degOf g m - count_list L m) \<and> edgesOf g' = edgesOf g \<and>
      (\<forall>m. map_option gvalue (g' m) = map_option gvalue (g m))"
    using assms
  proof (induction L arbitrary: g s)
    case (Cons a L)
    have da: "degOf g a \<ge> Suc (count_list L a)" using Cons.prems by (metis count_list.simps(2) Suc_eq_plus1)
    then obtain n where n: "g a = Some n" "inDegree n = degOf g a"
      by (auto simp: degOf_def split: option.splits)
    define g1 where "g1 = g(a \<mapsto> n\<lparr>inDegree := inDegree n - 1\<rparr>)"
    define s1 where "s1 = (if inDegree n = 1 then s @ [gvalue n] else s)"
    have step: "dropEdge a (g, s) = (g1, s1)"
      using n da by (auto simp: dropEdge_def g1_def s1_def Let_def)
    have deg1: "degOf g1 m = (if m = a then degOf g a - 1 else degOf g m)" for m
      using n by (simp add: g1_def)
    have "count_list L m \<le> degOf g1 m" for m
      using Cons.prems [rule_format, of m] by (auto simp: deg1)
    then obtain g' N where g': "fold dropEdge L (g1, s1) = (g', s1 @ map (\<lambda>m. gvalue (the (g1 m))) N)"
      and N: "distinct N" "set N = {m \<in> set L. degOf g1 m = count_list L m}"
      and d: "\<forall>m. degOf g' m = degOf g1 m - count_list L m" and e: "edgesOf g' = edgesOf g1"
      and v: "\<forall>m. map_option gvalue (g' m) = map_option gvalue (g1 m)"
      using Cons.IH [of g1 s1] by blast
    have e1: "edgesOf g1 = edgesOf g" using n by (auto simp: g1_def edgesOf_def fun_eq_iff)
    have v1: "gvalue (the (g1 m)) = gvalue (the (g m))"
      "map_option gvalue (g1 m) = map_option gvalue (g m)" for m
      using n by (simp_all add: g1_def)
    define N' where "N' = (if inDegree n = 1 then a # N else N)"
    have zero: "count_list L m = 0 \<longleftrightarrow> m \<notin> set L" for m by (simp add: count_list_0_iff)
    have "a \<notin> set N" if "inDegree n = 1"
      using that n da N(2) zero [of a] by auto
    then have "distinct N'" using N(1) by (simp add: N'_def)
    moreover have "set N' = {m \<in> set (a # L). degOf g m = count_list (a # L) m}"
      using n da zero [of a] by (auto simp: N'_def N(2) deg1)
    moreover have "degOf g' m = degOf g m - count_list (a # L) m" for m
      by (simp add: d deg1)
    moreover have "fold dropEdge (a # L) (g, s) = (g', s @ map (\<lambda>m. gvalue (the (g m))) N')"
      using g' step by (simp add: s1_def N'_def v1 n)
    ultimately show ?case using e e1 v v1 by (intro exI [of _ g'] exI [of _ N']) simp
  qed simp
  then show thesis using that by blast
qed

definition kahnInv :: "(MsgTx \<Rightarrow> hash) \<Rightarrow> txSet \<Rightarrow> kahnState \<Rightarrow> bool" where
  "kahnInv TH txs st \<longleftrightarrow>
     (case st of (g, s, out) \<Rightarrow>
        (\<forall>h. map_option gvalue (g h) = map_of txs h) \<and>
        (\<forall>h. edgesOf g h = map snd (filter (\<lambda>e. fst e = h) (allEdges txs))) \<and>
        (\<forall>h. degOf g h =
           length (filter (\<lambda>e. snd e = h \<and> fst e \<notin> TH ` set out) (allEdges txs))) \<and>
        distinct (map TH (out @ s)) \<and> snd ` set txs \<supseteq> set (out @ s) \<and>
        TH ` set (out @ s) = {h \<in> fst ` set txs. degOf g h = 0} \<and>
        (\<forall>i < length out. \<forall>e\<in>set (allEdges txs).
           snd e = TH (out ! i) \<longrightarrow> fst e \<in> TH ` set (take i out)))"

lemma kahnInvD:
  assumes "kahnInv TH txs (g, s, out)"
  shows "\<forall>h. map_option gvalue (g h) = map_of txs h"
    and "\<forall>h. edgesOf g h = map snd (filter (\<lambda>e. fst e = h) (allEdges txs))"
    and "\<forall>h. degOf g h = length (filter (\<lambda>e. snd e = h \<and> fst e \<notin> TH ` set out) (allEdges txs))"
    and "distinct (map TH (out @ s))" and "set (out @ s) \<subseteq> snd ` set txs"
    and "TH ` set (out @ s) = {h \<in> fst ` set txs. degOf g h = 0}"
    and "\<forall>i < length out. \<forall>e\<in>set (allEdges txs).
           snd e = TH (out ! i) \<longrightarrow> fst e \<in> TH ` set (take i out)"
proof -
  note h1 = assms [unfolded kahnInv_def prod.case]
  note h2 = conjunct2 [OF h1] note h3 = conjunct2 [OF h2] note h4 = conjunct2 [OF h3]
  note h5 = conjunct2 [OF h4] note h6 = conjunct2 [OF h5]
  show "\<forall>h. map_option gvalue (g h) = map_of txs h"
    and "\<forall>h. edgesOf g h = map snd (filter (\<lambda>e. fst e = h) (allEdges txs))"
    and "\<forall>h. degOf g h = length (filter (\<lambda>e. snd e = h \<and> fst e \<notin> TH ` set out) (allEdges txs))"
    and "distinct (map TH (out @ s))" and "set (out @ s) \<subseteq> snd ` set txs"
    by (rule conjunct1 [OF h1], rule conjunct1 [OF h2], rule conjunct1 [OF h3],
        rule conjunct1 [OF h4], rule conjunct1 [OF h5])
  show "TH ` set (out @ s) = {h \<in> fst ` set txs. degOf g h = 0}"
    by (rule conjunct1 [OF h6])
  show "\<forall>i < length out. \<forall>e\<in>set (allEdges txs).
      snd e = TH (out ! i) \<longrightarrow> fst e \<in> TH ` set (take i out)"
    by (rule conjunct2 [OF h6])
qed

lemma count_edges:
  "count_list (map snd (filter (\<lambda>e. fst e = p) E)) m = length (filter (\<lambda>e. fst e = p \<and> snd e = m) E)"
  by (induction E) auto

lemma filter_split:
  "p \<notin> S \<Longrightarrow> length (filter (\<lambda>e. snd e = m \<and> fst e \<notin> S) E) =
     length (filter (\<lambda>e. snd e = m \<and> fst e \<notin> insert p S) E) +
     length (filter (\<lambda>e. fst e = p \<and> snd e = m) E)"
  by (induction E) auto

lemma kahnInv_step:
  assumes dag: "dagSet TH rk txs" and inv: "kahnInv TH txs (g, s, out)" and "s \<noteq> []"
  shows "kahnInv TH txs (kahnStep TH (g, s, out))"
proof -
  let ?E = "allEdges txs"
  obtain tx s0 where s: "s = tx # s0" using \<open>s \<noteq> []\<close> by (cases s) auto
  define p where "p = TH tx"
  have val: "\<forall>h. map_option gvalue (g h) = map_of txs h"
    and ed: "\<forall>h. edgesOf g h = map snd (filter (\<lambda>e. fst e = h) ?E)"
    and deg: "\<forall>h. degOf g h = length (filter (\<lambda>e. snd e = h \<and> fst e \<notin> TH ` set out) ?E)"
    and dist: "distinct (map TH (out @ s))" and sub: "set (out @ s) \<subseteq> snd ` set txs"
    and zeros: "TH ` set (out @ s) = {h \<in> fst ` set txs. degOf g h = 0}"
    and ord: "\<forall>i < length out. \<forall>e\<in>set ?E. snd e = TH (out ! i) \<longrightarrow> fst e \<in> TH ` set (take i out)"
    by (rule kahnInvD [OF inv])+
  have p: "p \<notin> TH ` set out" using dist by (auto simp: s p_def)
  note split = filter_split [OF p, where E = ?E]
  have cnt: "count_list (edgesOf g p) m = length (filter (\<lambda>e. fst e = p \<and> snd e = m) ?E)" for m
    by (simp add: ed count_edges)
  have le: "\<forall>m. count_list (edgesOf g p) m \<le> degOf g m"
    by (simp add: cnt deg split)
  obtain g' N where g': "fold dropEdge (edgesOf g p) (g, s0) = (g', s0 @ map (\<lambda>m. gvalue (the (g m))) N)"
    and N: "distinct N" "set N = {m \<in> set (edgesOf g p). degOf g m = count_list (edgesOf g p) m}"
    and d: "\<forall>m. degOf g' m = degOf g m - count_list (edgesOf g p) m"
    and e': "edgesOf g' = edgesOf g"
    and v': "\<forall>m. map_option gvalue (g' m) = map_option gvalue (g m)"
    by (rule dropEdges [OF le, of s0])
  define new where "new = map (\<lambda>m. gvalue (the (g m))) N"
  have targets: "m \<in> fst ` set txs" if "m \<in> set (edgesOf g p)" for m
    using that by (force simp: ed allEdges_def txEdges_def)
  have nodes: "(m, gvalue (the (g m))) \<in> set txs" if mem: "m \<in> fst ` set txs" for m
  proof -
    obtain tx' where m: "(m, tx') \<in> set txs" using mem by auto
    then have "map_option gvalue (g m) = Some tx'" using val dagSetD(2) [OF dag m] by metis
    then show ?thesis using m by auto
  qed
  have Nt: "m \<in> fst ` set txs" if "m \<in> set N" for m using that N(2) targets by blast
  have hash: "TH (gvalue (the (g m))) = m" if "m \<in> set N" for m
    using dagSetD(1) [OF dag nodes [OF Nt [OF that]]] .
  have mapN: "map TH new = N" unfolding new_def by (simp add: hash map_idI)
  have zeroN: "degOf g m \<noteq> 0" if "m \<in> set N" for m
    using that N(2) by (simp add: count_list_0_iff)
  have disj: "set N \<inter> TH ` set (out @ s) = {}" using zeros zeroN by blast
  have zero': "degOf g' m = 0 \<longleftrightarrow> degOf g m = 0 \<or> m \<in> set N" for m
  proof -
    have "degOf g m \<le> count_list (edgesOf g p) m \<longleftrightarrow> degOf g m = count_list (edgesOf g p) m"
      using le [rule_format, of m] by linarith
    moreover have "m \<in> set (edgesOf g p)" if "degOf g m = count_list (edgesOf g p) m" "degOf g m \<noteq> 0"
      using that by (metis count_list_0_iff)
    ultimately show ?thesis using N(2) d by auto
  qed
  have step: "kahnStep TH (g, s, out) = (g', s0 @ new, out @ [tx])"
    using g' by (simp add: kahnStep_def s p_def new_def)
  have "distinct (map TH ((out @ [tx]) @ s0 @ new))"
    using dist disj N(1) by (simp add: s mapN) blast
  moreover have "set ((out @ [tx]) @ s0 @ new) \<subseteq> snd ` set txs"
  proof -
    have "gvalue (the (g m)) \<in> snd ` set txs" if "m \<in> set N" for m
      using imageI [OF nodes [OF Nt [OF that]], of snd] by simp
    then have "set new \<subseteq> snd ` set txs" by (auto simp: new_def)
    with sub show ?thesis by (simp add: s)
  qed
  moreover have "TH ` set ((out @ [tx]) @ s0 @ new) = {h \<in> fst ` set txs. degOf g' h = 0}"
  proof -
    have "TH ` set ((out @ [tx]) @ s0 @ new) = TH ` set (out @ s) \<union> set (map TH new)"
      by (auto simp: s)
    also have "\<dots> = {h \<in> fst ` set txs. degOf g' h = 0}"
      using zeros zero' Nt by (simp only: mapN) blast
    finally show ?thesis .
  qed
  moreover have "degOf g' h =
      length (filter (\<lambda>e. snd e = h \<and> fst e \<notin> TH ` set (out @ [tx])) ?E)" for h
  proof -
    have "degOf g' h = length (filter (\<lambda>e. snd e = h \<and> fst e \<notin> TH ` set out) ?E) -
        length (filter (\<lambda>e. fst e = p \<and> snd e = h) ?E)"
      using d deg cnt by (simp only:)
    also have "\<dots> = length (filter (\<lambda>e. snd e = h \<and> fst e \<notin> insert p (TH ` set out)) ?E)"
      unfolding split [of h] by simp
    finally show ?thesis by (simp add: p_def)
  qed
  moreover have "fst e \<in> TH ` set (take i (out @ [tx]))"
    if "i < length (out @ [tx])" "e \<in> set ?E" "snd e = TH ((out @ [tx]) ! i)" for i e
  proof (cases "i < length out")
    case True
    then show ?thesis using that ord by (simp add: nth_append)
  next
    case False
    then have i: "i = length out" using that by simp
    have "degOf g p = 0" using zeros by (auto simp: s p_def)
    then have "filter (\<lambda>e. snd e = p \<and> fst e \<notin> TH ` set out) ?E = []" using deg by simp
    with that i show ?thesis by (auto simp: filter_empty_conv p_def)
  qed
  ultimately show ?thesis
    unfolding kahnInv_def step prod.case using val v' ed e' by (intro conjI allI impI ballI) simp_all
qed

section \<open>Start and end of the loop\<close>

lemma kahnInv_start:
  assumes dag: "dagSet TH rk txs" and ord: "distinct ord" "set ord = fst ` set txs"
  shows "kahnInv TH txs (makeGraph TH txs, graphRoots (makeGraph TH txs) ord, [])"
proof -
  let ?g = "makeGraph TH txs"
  have ok: "graphOk txs (allEdges txs) (fst ` set txs) ?g" and dom: "dom ?g = fst ` set txs"
    by (rule makeGraph_ok [OF dag])+
  have val: "map_option gvalue (?g h) = map_of txs h" for h
  proof (cases "?g h")
    case None
    then have "h \<notin> fst ` set txs" using dom by blast
    then have "map_of txs h = None" by (simp only: map_of_eq_None_iff not_False_eq_True)
    with None show ?thesis by simp
  qed (use ok in \<open>auto simp: graphOk_def\<close>)
  define N where "N = filter (\<lambda>h. degOf ?g h = 0) ord"
  have node: "\<exists>n. ?g h = Some n \<and> (h, gvalue n) \<in> set txs" if "h \<in> set ord" for h
  proof -
    have "h \<in> dom ?g" using that by (simp only: dom ord)
    then obtain n where n: "?g h = Some n" by blast
    then have "map_of txs h = Some (gvalue n)" using val [of h] by (simp only: option.map)
    then show ?thesis using n map_of_SomeD by fast
  qed
  have "graphRoots ?g xs = map (\<lambda>h. gvalue (the (?g h))) (filter (\<lambda>h. degOf ?g h = 0) xs)"
    if "set xs \<subseteq> set ord" for xs
    using that
  proof (induction xs)
    case (Cons x xs)
    then show ?case using node [of x] by (auto simp: graphRoots_def map_filter_simps degOf_def)
  qed (simp add: graphRoots_def map_filter_simps)
  then have roots: "graphRoots ?g ord = map (\<lambda>h. gvalue (the (?g h))) N" by (simp add: N_def)
  have "TH (gvalue (the (?g h))) = h" if "h \<in> set N" for h
    using that node [of h] dagSetD(1) [OF dag] by (auto simp: N_def)
  then have mapN: "map TH (graphRoots ?g ord) = N" by (simp add: roots map_idI)
  have "TH ` set (graphRoots ?g ord) = set N" using mapN by (metis list.set_map)
  then have zeros: "TH ` set (graphRoots ?g ord) = {h \<in> fst ` set txs. degOf ?g h = 0}"
    using ord by (simp add: N_def)
  have "gvalue (the (?g h)) \<in> snd ` set txs" if mem: "h \<in> set ord" for h
  proof -
    obtain n where "?g h = Some n" "(h, gvalue n) \<in> set txs" using node [OF mem] by blast
    then show ?thesis by (metis image_eqI option.sel snd_conv)
  qed
  then have sub: "set (graphRoots ?g ord) \<subseteq> snd ` set txs" by (auto simp: roots N_def)
  have "distinct (map TH (graphRoots ?g ord))" using mapN ord by (simp add: N_def)
  with val ok zeros sub show ?thesis unfolding kahnInv_def prod.case graphOk_def by simp
qed

lemma kahnInv_len:
  assumes "kahnInv TH txs (g, s, out)"
  shows "length out + length s \<le> card (fst ` set txs)"
proof -
  have "length (map TH (out @ s)) = card (TH ` set (out @ s))"
    using kahnInvD(4) [OF assms] by (metis distinct_card list.set_map)
  also have "\<dots> \<le> card (fst ` set txs)"
    unfolding kahnInvD(6) [OF assms] by (intro card_mono) auto
  finally show ?thesis by simp
qed

text \<open>When every node has degree 0 or the queue is empty, everything has been emitted.\<close>

lemma kahnInv_end:
  assumes dag: "dagSet TH rk txs" and inv: "kahnInv TH txs (g, [], out)"
  shows "TH ` set out = fst ` set txs"
proof -
  have deg: "degOf g h = length (filter (\<lambda>e. snd e = h \<and> fst e \<notin> TH ` set out) (allEdges txs))" for h
    using kahnInvD(3) [OF inv] by blast
  have zeros: "TH ` set out = {h \<in> fst ` set txs. degOf g h = 0}"
    using kahnInvD(6) [OF inv] by simp
  have "h \<in> TH ` set out" if "h \<in> fst ` set txs" for h
    using that
  proof (induction h rule: measure_induct_rule [of rk])
    case (less h)
    have "fst e \<in> TH ` set out" if e: "e \<in> set (allEdges txs)" "snd e = h" for e
    proof -
      obtain tx op where "(h, tx) \<in> set txs" "op \<in> set (TxIn tx)" "fst e = opHash op"
        "opHash op \<in> dom (map_of txs)"
        using e by (auto simp: allEdges_def txEdges_def) blast
      then show ?thesis
        using less.IH [of "fst e"] dagSetD(3) [OF dag] by (metis dom_map_of_conv_image_fst)
    qed
    then have "degOf g h = 0" by (auto simp: deg filter_empty_conv)
    with less.prems show ?case using zeros by blast
  qed
  then show ?thesis using zeros by blast
qed

lemma kahn_loop:
  assumes dag: "dagSet TH rk txs" and "kahnInv TH txs st"
  obtains g out where "while_option (\<lambda>(g, s, out). s \<noteq> []) (kahnStep TH) st = Some (g, [], out)"
    and "kahnInv TH txs (g, [], out)"
proof -
  let ?b = "\<lambda>(g, s, out). s \<noteq> []"
  let ?f = "\<lambda>(g, s, out). card (fst ` set txs) - length out"
  have step: "kahnInv TH txs (kahnStep TH st) \<and> ?f (kahnStep TH st) < ?f st"
    if st: "kahnInv TH txs st" "?b st" for st
  proof -
    obtain g s out where eq: "st = (g, s, out)" by (cases st)
    have "s \<noteq> []" using st eq by simp
    moreover have "length out + length s \<le> card (fst ` set txs)"
      using kahnInv_len st(1) eq by simp
    moreover have "snd (snd (kahnStep TH (g, s, out))) = out @ [hd s]"
      by (simp add: kahnStep_def Let_def split: prod.splits)
    then obtain g' s' where "kahnStep TH (g, s, out) = (g', s', out @ [hd s])"
      by (metis prod.collapse)
    ultimately show ?thesis
      using kahnInv_step [OF dag, of g s out] st eq by (cases s) auto
  qed
  obtain t where t: "while_option ?b (kahnStep TH) st = Some t"
    using measure_while_option_Some [of "kahnInv TH txs" ?b "kahnStep TH" ?f st] step assms(2) by blast
  have "kahnInv TH txs t"
    using while_option_rule [where P = "kahnInv TH txs", OF _ t assms(2)] step by blast
  moreover obtain g s out where "t = (g, s, out)" by (cases t)
  ultimately show thesis using that t while_option_stop [OF t] by simp
qed

section \<open>Correctness\<close>

text \<open>Every transaction comes after each transaction of the list it spends from.\<close>

definition dependencyOrder :: "(MsgTx \<Rightarrow> hash) \<Rightarrow> MsgTx list \<Rightarrow> bool" where
  "dependencyOrder TH out \<longleftrightarrow>
     (\<forall>i < length out. \<forall>op \<in> set (TxIn (out ! i)).
        opHash op \<in> TH ` set out \<longrightarrow> opHash op \<in> TH ` set (take i out))"

lemma mset_by_hash:
  assumes dag: "dagSet TH rk txs" and "distinct (map TH out)" and "set out \<subseteq> snd ` set txs"
    and "TH ` set out = fst ` set txs"
  shows "mset out = mset (map snd txs)"
proof -
  let ?t = "\<lambda>h. the (map_of txs h)"
  have "mset (map TH out) = mset (map fst txs)"
  proof (rule iffD1 [OF set_eq_iff_mset_eq_distinct])
    show "distinct (map TH out)" by fact
    show "distinct (map fst txs)" using dag by (simp add: dagSet_def)
    show "set (map TH out) = set (map fst txs)" using assms(4) by simp
  qed
  then have "mset (map ?t (map TH out)) = mset (map ?t (map fst txs))" by (metis mset_map)
  moreover have "map ?t (map TH out) = out"
  proof (simp add: map_idI comp_def, rule map_idI)
    fix tx assume "tx \<in> set out"
    then obtain h where h: "(h, tx) \<in> set txs" using assms(3) by auto
    show "the (map_of txs (TH tx)) = tx" using dagSetD(1,2) [OF dag h] by simp
  qed
  moreover have "map ?t (map fst txs) = map snd txs"
    using dagSetD(2) [OF dag] by auto
  ultimately show ?thesis by metis
qed

lemma edge_mem:
  assumes "dagSet TH rk txs" "tx \<in> snd ` set txs" "op \<in> set (TxIn tx)" "opHash op \<in> fst ` set txs"
  shows "(opHash op, TH tx) \<in> set (allEdges txs)"
proof -
  obtain h where h: "(h, tx) \<in> set txs" using assms(2) by auto
  then have "(opHash op, TH tx) \<in> set (txEdges txs (h, tx))"
    using assms dagSetD(1) [OF assms(1) h]
    by (auto simp: txEdges_def dom_map_of_conv_image_fst image_iff)
  with h show ?thesis by (auto simp: allEdges_def)
qed

lemma DependencySort_ok:
  assumes dag: "dagSet TH rk txs" and ord: "distinct ord" "set ord = fst ` set txs"
  shows "\<exists>out. DependencySort TH txs ord = Some out \<and> mset out = mset (map snd txs) \<and>
           dependencyOrder TH out"
proof -
  let ?g = "makeGraph TH txs" and ?s = "graphRoots (makeGraph TH txs) ord"
  have start: "kahnInv TH txs (?g, ?s, [])" by (rule kahnInv_start [OF assms])
  show ?thesis
  proof (cases "length ?s = length txs")
    case True
    have "card (set (map TH ?s)) = length ?s" "card (set (map fst txs)) = length txs"
      using kahnInvD(4) [OF start] dag
      by (simp_all add: distinct_card [of "map TH ?s", simplified] distinct_card [of "map fst txs", simplified] dagSet_def)
    then have "card (TH ` set ?s) = card (fst ` set txs)" using True by simp
    moreover have "TH ` set ?s = {h \<in> fst ` set txs. degOf ?g h = 0}"
      using kahnInvD(6) [OF start] by simp
    ultimately have all: "TH ` set ?s = fst ` set txs"
      by (metis (no_types, lifting) Collect_mem_eq Collect_mono card_subset_eq finite_imageI List.finite_set)
    have "{h \<in> fst ` set txs. degOf ?g h = 0} = fst ` set txs"
      using kahnInvD(6) [OF start] all by (simp only: append_Nil)
    note sub = equalityD2 [OF this]
    have zero: "degOf ?g h = 0" if "h \<in> fst ` set txs" for h
      by (rule conjunct2 [OF CollectD [OF subsetD [OF sub that]]])
    have tgt: "snd e \<in> fst ` set txs" if "e \<in> set (allEdges txs)" for e
      using that by (force simp: allEdges_def txEdges_def)
    have "degOf ?g (snd e) \<noteq> 0" if "e \<in> set (allEdges txs)" for e
      using that kahnInvD(3) [OF start] by (auto simp: filter_empty_conv)
    then have "set (allEdges txs) = {}" using zero [OF tgt] by (meson equals0I)
    then have "dependencyOrder TH ?s"
      unfolding dependencyOrder_def all
    proof (intro allI impI ballI)
      fix i op assume "i < length ?s" and op: "op \<in> set (TxIn (?s ! i))" "opHash op \<in> fst ` set txs"
      then have "?s ! i \<in> snd ` set txs"
        using kahnInvD(5) [OF start] by (simp only: append_Nil subsetD nth_mem)
      from edge_mem [OF dag this op] \<open>set (allEdges txs) = {}\<close>
      show "opHash op \<in> TH ` set (take i ?s)" by simp
    qed
    moreover have "mset ?s = mset (map snd txs)"
      using kahnInvD(4,5) [OF start] all by (intro mset_by_hash [OF dag]) simp_all
    ultimately show ?thesis using True by (auto simp: DependencySort_def Let_def)
  next
    case False
    obtain g out where w: "while_option (\<lambda>(g, s, out). s \<noteq> []) (kahnStep TH) (?g, ?s, []) = Some (g, [], out)"
      and inv: "kahnInv TH txs (g, [], out)"
      by (rule kahn_loop [OF dag start])
    have all: "TH ` set out = fst ` set txs" by (rule kahnInv_end [OF dag inv])
    have "dependencyOrder TH out"
      unfolding dependencyOrder_def all
    proof (intro allI impI ballI)
      fix i op assume "i < length out" "op \<in> set (TxIn (out ! i))" "opHash op \<in> fst ` set txs"
      moreover have "out ! i \<in> snd ` set txs"
        using kahnInvD(5) [OF inv] \<open>i < length out\<close> by auto
      ultimately show "opHash op \<in> TH ` set (take i out)"
        using edge_mem [OF dag, of "out ! i" op] kahnInvD(7) [OF inv] by fastforce
    qed
    moreover have "mset out = mset (map snd txs)"
      using kahnInvD(4,5) [OF inv] all by (intro mset_by_hash [OF dag]) simp_all
    ultimately show ?thesis using False w by (auto simp: DependencySort_def Let_def)
  qed
qed

end
