(* ===== verification/Wtx_Query.thy ===== *)
theory Wtx_Query
  imports Wtx_Props2 Wtx_Kahn
begin

text \<open>
  The remaining queries of the transaction store: the range queries and previous scripts of
  \<^verbatim>\<open>wtxmgr/query.go\<close> and the lists of unmined transactions of \<^verbatim>\<open>wtxmgr/unconfirmed.go\<close>.  The
  callback of a range query is a state transformer on the caller's state \<open>'a\<close> that returns
  an error or the flag that stops the iteration.
\<close>

section \<open>Block iteration (\<^verbatim>\<open>db.go\<close>)\<close>

text \<open>A \<open>blockIterator\<close> positioned at \<open>height\<close>: repeated \<open>next\<close> visits the records from it on,
  repeated \<open>prev\<close> the ones up to it, downwards.\<close>

definition nextBlocks :: "ns \<Rightarrow> uint32 \<Rightarrow> (uint32 \<times> blockRecord) list" where
  "nextBlocks s height = dropWhile (\<lambda>(ht, br). ht < height) (ForEach (blocks s))"

definition prevBlocks :: "ns \<Rightarrow> uint32 \<Rightarrow> (uint32 \<times> blockRecord) list" where
  "prevBlocks s height = rev (takeWhile (\<lambda>(ht, br). ht \<le> height) (ForEach (blocks s)))"

section \<open>Range queries (\<^verbatim>\<open>query.go\<close>)\<close>

type_synonym 'a rangeFn = "TxDetails list \<Rightarrow> 'a \<Rightarrow> (store_error + bool) \<times> 'a"

definition rangeUnminedTransactions :: "ns \<Rightarrow> 'a rangeFn \<Rightarrow> 'a rangeFn" where
  "rangeUnminedTransactions s f _ a =
     (case collect_err (\<lambda>(h, v). map_sum id Some (unminedTxDetails s h v)) (ForEach (unmined s)) of
        Inl e \<Rightarrow> (Inl e, a)
      | Inr details \<Rightarrow> if length details > 0 then f details a else (Inr False, a))"

text \<open>Negative heights stand for the mempool and read as the largest height.\<close>

definition highBound :: "uint32 \<Rightarrow> uint32" where
  "highBound h = (if sint h < 0 then 0x7FFFFFFF else h)"

definition blockRange :: "ns \<Rightarrow> uint32 \<Rightarrow> uint32 \<Rightarrow> (uint32 \<times> blockRecord) list" where
  "blockRange s begin end =
     (if sint begin < sint end
      then takeWhile (\<lambda>(ht, br). sint ht \<le> sint end) (nextBlocks s begin)
      else takeWhile (\<lambda>(ht, br). sint end \<le> sint ht) (prevBlocks s begin))"

definition blockDetails :: "ns \<Rightarrow> uint32 \<times> blockRecord \<Rightarrow> store_error + TxDetails list" where
  "blockDetails s hb =
     collect_err
       (\<lambda>h. let k = (h, Block (fst hb) (brHash (snd hb))) in
            case Get (txRecords s) k of
              None \<Rightarrow> Inl ErrData
            | Some v \<Rightarrow> map_sum id Some (minedTxDetails s h k v))
       (transactions (snd hb))"

fun rangeBlocks ::
  "ns \<Rightarrow> 'a rangeFn \<Rightarrow> (uint32 \<times> blockRecord) list \<Rightarrow> 'a \<Rightarrow> (store_error + bool) \<times> 'a" where
  "rangeBlocks s f [] a = (Inr False, a)"
| "rangeBlocks s f (hb # hbs) a =
     (case blockDetails s hb of
        Inl e \<Rightarrow> (Inl e, a)
      | Inr details \<Rightarrow>
          (case f details a of
             (Inr False, a) \<Rightarrow> rangeBlocks s f hbs a
           | r \<Rightarrow> r))"

definition rangeBlockTransactions ::
  "ns \<Rightarrow> uint32 \<Rightarrow> uint32 \<Rightarrow> 'a rangeFn \<Rightarrow> 'a \<Rightarrow> (store_error + bool) \<times> 'a" where
  "rangeBlockTransactions s begin end f a =
     rangeBlocks s f (blockRange s (highBound begin) (highBound end)) a"

definition RangeTransactions ::
  "ns \<Rightarrow> uint32 \<Rightarrow> uint32 \<Rightarrow> 'a rangeFn \<Rightarrow> 'a \<Rightarrow> (store_error + unit) \<times> 'a" where
  "RangeTransactions s begin end f a =
     (let (r0, a0) = (if sint begin < 0 then rangeUnminedTransactions s f [] a else (Inr False, a))
      in case r0 of
           Inl e \<Rightarrow> (Inl e, a0)
         | Inr True \<Rightarrow> (Inr (), a0)
         | Inr False \<Rightarrow>
             (case rangeBlockTransactions s begin end f a0 of
                (Inl e, a1) \<Rightarrow> (Inl e, a1)
              | (Inr brk, a1) \<Rightarrow>
                  if \<not> brk \<and> \<not> sint begin < 0 \<and> sint end < 0
                  then (case rangeUnminedTransactions s f [] a1 of (r, a2) \<Rightarrow> (map_sum id (\<lambda>_. ()) r, a2))
                  else (Inr (), a1)))"

section \<open>Previous scripts\<close>

text \<open>\<open>fetchRawTxRecordPkScript\<close> on a stored record; a missing one is a short read.\<close>

definition recordPkScript :: "TxVal option \<Rightarrow> uint32 \<Rightarrow> store_error + script" where
  "recordPkScript ov index =
     (case ov of
        None \<Rightarrow> Inl ErrData
      | Some v \<Rightarrow>
          if unat index \<ge> length (TxOut (tvTx v)) then Inl ErrData
          else Inr (PkScript (TxOut (tvTx v) ! unat index)))"

definition prevScriptUnmined :: "ns \<Rightarrow> OutPoint \<Rightarrow> store_error + script option" where
  "prevScriptUnmined s op =
     (case Get (unmined s) (opHash op) of
        Some v \<Rightarrow>
          if Get (unminedCredits s) op = None then Inr None
          else map_sum id Some (recordPkScript (Some v) (opIndex op))
      | None \<Rightarrow>
          (case existsUnspent s op of
             None \<Rightarrow> Inr None
           | Some (h, b, i) \<Rightarrow>
               map_sum id Some (recordPkScript (Get (txRecords s) (h, b)) (opIndex op))))"

definition prevScriptMined :: "ns \<Rightarrow> CredKey \<times> Debit \<Rightarrow> store_error + script option" where
  "prevScriptMined s kd =
     (case debCredKey (snd kd) of (h, b, i) \<Rightarrow>
        map_sum id Some (recordPkScript (Get (txRecords s) (h, b)) i))"

definition PreviousPkScripts :: "ns \<Rightarrow> TxRecord \<Rightarrow> Block option \<Rightarrow> store_error + script list" where
  "PreviousPkScripts s rec ob =
     (case ob of
        None \<Rightarrow> collect_err (prevScriptUnmined s) (TxIn (msgTx rec))
      | Some b \<Rightarrow>
          collect_err (prevScriptMined s)
            (scan (debits s) (txHash rec, b, 0) (\<lambda>k. fst k = txHash rec \<and> fst (snd k) = b)))"

section \<open>Unmined transactions (\<^verbatim>\<open>unconfirmed.go\<close>)\<close>

definition unminedTxRecords :: "ns \<Rightarrow> (hash \<times> TxRecord) list" where
  "unminedTxRecords s =
     map (\<lambda>(h, v). (h, \<lparr>msgTx = tvTx v, txHash = h, received = tvReceived v\<rparr>)) (ForEach (unmined s))"

text \<open>\<open>shuffle\<close> is the order in which Go visits the entries of the map of transactions, \<open>ord\<close> the
  order in which it visits the nodes of the graph.\<close>

definition UnminedTxs ::
  "(MsgTx \<Rightarrow> hash) \<Rightarrow> (txSet \<Rightarrow> txSet) \<Rightarrow> hash list \<Rightarrow> ns \<Rightarrow> MsgTx list option" where
  "UnminedTxs TH shuffle ord s =
     DependencySort TH (shuffle (map (\<lambda>(h, rec). (h, msgTx rec)) (unminedTxRecords s))) ord"

definition UnminedTxHashes :: "ns \<Rightarrow> hash list" where
  "UnminedTxHashes s = map fst (ForEach (unmined s))"

section \<open>Which blocks a range visits\<close>

lemma nextBlocks_eq: "nextBlocks s h = filter (\<lambda>hb. h \<le> fst hb) (ForEach (blocks s))"
proof -
  have "dropWhile (\<lambda>(ht, br). ht < h) xs = filter (\<lambda>hb. h \<le> fst hb) xs"
    if "sorted_wrt (<) (map fst xs)" for xs :: "(uint32 \<times> blockRecord) list"
    using that
  proof (induction xs)
    case (Cons x xs)
    have "filter (\<lambda>hb. h \<le> fst hb) xs = xs" if "h \<le> fst x"
      using Cons.prems that by (intro filter_True) (fastforce intro: order_trans)
    with Cons show ?case by (cases x) (auto simp: not_le)
  qed simp
  then show ?thesis unfolding nextBlocks_def using bkt.forEach_sorted by blast
qed

lemma prevBlocks_eq: "prevBlocks s h = rev (filter (\<lambda>hb. fst hb \<le> h) (ForEach (blocks s)))"
proof -
  have "sorted_wrt (\<lambda>x y. fst y \<le> h \<longrightarrow> fst x \<le> h) (ForEach (blocks s))"
    using bkt.forEach_sorted [of "blocks s"]
    by (auto simp: sorted_wrt_map intro: sorted_wrt_mono_rel [rotated])
  from takeWhile_filter [OF this] show ?thesis by (simp add: prevBlocks_def case_prod_unfold)
qed

definition inRange :: "uint32 \<Rightarrow> uint32 \<Rightarrow> uint32 \<Rightarrow> bool" where
  "inRange begin end ht \<longleftrightarrow>
     min (sint begin) (sint end) \<le> sint ht \<and> sint ht \<le> max (sint begin) (sint end)"

lemma blockRange_eq:
  assumes ok: "blocksOk s" and nn: "0 \<le> sint begin" "0 \<le> sint end"
  shows "blockRange s begin end =
     (if sint begin < sint end then filter (\<lambda>hb. inRange begin end (fst hb)) (ForEach (blocks s))
      else rev (filter (\<lambda>hb. inRange begin end (fst hb)) (ForEach (blocks s))))"
proof -
  let ?xs = "ForEach (blocks s)"
  have nnb: "0 \<le> sint (fst hb)" if "hb \<in> set ?xs" for hb
    using ok that unfolding blocksOk_def by (cases hb) (auto simp: bkt.forEach_iff)
  have le: "a \<le> b \<longleftrightarrow> sint a \<le> sint b" if "0 \<le> sint a" "0 \<le> sint b" for a b :: uint32
    using word_less_sint_nonneg [OF that(2,1)] by (simp flip: not_less)
  have srt: "sorted_wrt (\<lambda>x y. fst x < fst y) ?xs"
    using bkt.forEach_sorted [of "blocks s"] by (simp add: sorted_wrt_map)
  have mono: "sint (fst x) < sint (fst y)" if "x \<in> set ?xs" "y \<in> set ?xs" "fst x < fst y" for x y
    using that word_less_sint_nonneg nnb by blast
  have up: "sorted_wrt (\<lambda>x y. sint (fst y) \<le> sint end \<longrightarrow> sint (fst x) \<le> sint end)
      (filter (\<lambda>hb. begin \<le> fst hb) ?xs)"
    using srt mono by (intro sorted_wrt_filter) (force intro: sorted_wrt_mono_rel [rotated])
  have down: "sorted_wrt (\<lambda>x y. sint end \<le> sint (fst y) \<longrightarrow> sint end \<le> sint (fst x))
      (rev (filter (\<lambda>hb. fst hb \<le> begin) ?xs))"
    unfolding sorted_wrt_rev
    using srt mono by (intro sorted_wrt_filter) (force intro: sorted_wrt_mono_rel [rotated])
  have f1: "filter (\<lambda>hb. begin \<le> fst hb \<and> sint (fst hb) \<le> sint end) ?xs =
      filter (\<lambda>hb. inRange begin end (fst hb)) ?xs" if "sint begin < sint end"
    using that le nn nnb by (intro filter_cong) (auto simp: inRange_def)
  have f2: "filter (\<lambda>hb. fst hb \<le> begin \<and> sint end \<le> sint (fst hb)) ?xs =
      filter (\<lambda>hb. inRange begin end (fst hb)) ?xs" if "\<not> sint begin < sint end"
    using that le nn nnb by (intro filter_cong) (auto simp: inRange_def)
  show ?thesis
    using takeWhile_filter [OF up] takeWhile_filter [OF down] f1 f2
    by (auto simp: blockRange_def nextBlocks_eq prevBlocks_eq case_prod_unfold simp flip: rev_filter)
qed

section \<open>What a range query visits\<close>

text \<open>The identity of a detail record, and the height it is sorted by: unmined transactions
  count as the high bound.\<close>

definition txid :: "TxDetails \<Rightarrow> hash \<times> Block option" where
  "txid d = (txHash (tdRec d), map_option block (tdBlock d))"

definition sortHeight :: "hash \<times> Block option \<Rightarrow> int" where
  "sortHeight i = (case snd i of None \<Rightarrow> 2147483647 | Some b \<Rightarrow> sint (bHeight b))"

definition blockIds :: "uint32 \<times> blockRecord \<Rightarrow> (hash \<times> Block option) list" where
  "blockIds hb = map (\<lambda>h. (h, Some (Block (fst hb) (brHash (snd hb))))) (transactions (snd hb))"

text \<open>The callback that keeps everything it is given.\<close>

definition visitAll :: "TxDetails list rangeFn" where
  "visitAll ds acc = (Inr False, acc @ ds)"

lemma collect_err_image:
  assumes "\<And>x. x \<in> set xs \<Longrightarrow> \<exists>d. f x = Inr (Some d) \<and> g d = k x"
  shows "\<exists>ds. collect_err f xs = Inr ds \<and> map g ds = map k xs"
  using assms
proof (induction xs)
  case (Cons x xs)
  then obtain d ds where "f x = Inr (Some d)" "g d = k x" "collect_err f xs = Inr ds" "map g ds = map k xs"
    by (metis list.set_intros)
  then show ?case by simp
qed simp

lemma minedTxDetails_id: "minedTxDetails s h (h, b) v = Inr d \<Longrightarrow> txid d = (h, Some b)"
  by (auto simp: minedTxDetails_def txid_def Let_def split: sum.splits)

lemma unminedTxDetails_id: "unminedTxDetails s h v = Inr d \<Longrightarrow> txid d = (h, None)"
  by (auto simp: unminedTxDetails_def txid_def split: sum.splits)

lemma blockDetails_ok:
  assumes inv: "storeInv isCB T s" and hb: "hb \<in> set (ForEach (blocks s))"
  shows "\<exists>ds. blockDetails s hb = Inr ds \<and> map txid ds = blockIds hb"
  unfolding blockDetails_def blockIds_def
proof (rule collect_err_image)
  fix h assume h: "h \<in> set (transactions (snd hb))"
  let ?b = "Block (fst hb) (brHash (snd hb))"
  have "Get (blocks s) (fst hb) = Some (snd hb)"
    using hb bkt.forEach_iff [of "fst hb" "snd hb" "blocks s"] by simp
  then have "(h, ?b) \<in> mdom s" using inv h unfolding storeInv_def blocksOk_def by blast
  then obtain v where v: "Get (txRecords s) (h, ?b) = Some v" by blast
  obtain d where "minedTxDetails s h (h, ?b) v = Inr d" using minedTxDetails_ok [OF inv v] by blast
  with v minedTxDetails_id [OF this]
  show "\<exists>d. (let k = (h, ?b) in case Get (txRecords s) k of None \<Rightarrow> Inl ErrData
          | Some v \<Rightarrow> map_sum id Some (minedTxDetails s h k v)) = Inr (Some d) \<and> txid d = (h, Some ?b)"
    by simp
qed

lemma rangeBlocks_all:
  assumes inv: "storeInv isCB T s" and "set hbs \<subseteq> set (ForEach (blocks s))"
  shows "\<exists>ds. rangeBlocks s visitAll hbs acc = (Inr False, acc @ ds) \<and>
           map txid ds = concat (map blockIds hbs)"
  using assms(2)
proof (induction hbs arbitrary: acc)
  case (Cons hb hbs)
  obtain ds where ds: "blockDetails s hb = Inr ds" "map txid ds = blockIds hb"
    using blockDetails_ok [OF inv, of hb] Cons.prems by auto
  obtain ds' where "rangeBlocks s visitAll hbs (acc @ ds) = (Inr False, (acc @ ds) @ ds')"
    "map txid ds' = concat (map blockIds hbs)"
    using Cons.IH [of "acc @ ds"] Cons.prems by auto
  moreover have "visitAll ds acc = (Inr False, acc @ ds)" by (simp add: visitAll_def)
  ultimately show ?case using ds by (intro exI [of _ "ds @ ds'"]) simp
qed simp

lemma rangeUnmined_all:
  assumes inv: "storeInv isCB T s"
  shows "\<exists>ds. rangeUnminedTransactions s visitAll x acc = (Inr False, acc @ ds) \<and>
           map txid ds = map (\<lambda>h. (h, None)) (map fst (ForEach (unmined s)))"
proof -
  let ?f = "\<lambda>(h, v). map_sum id Some (unminedTxDetails s h v)"
  have "\<exists>d. ?f hv = Inr (Some d) \<and> txid d = (fst hv, None)" if "hv \<in> set (ForEach (unmined s))" for hv
  proof -
    have "Get (unmined s) (fst hv) = Some (snd hv)"
      using that bkt.forEach_iff [of "fst hv" "snd hv" "unmined s"] by simp
    from unminedTxDetails_ok [OF inv this] unminedTxDetails_id show ?thesis
      by (fastforce simp: case_prod_beta)
  qed
  from collect_err_image [of "ForEach (unmined s)" ?f, OF this]
  obtain ds where "collect_err ?f (ForEach (unmined s)) = Inr ds"
    "map txid ds = map (\<lambda>hv. (fst hv, None)) (ForEach (unmined s))" by blast
  then show ?thesis
    by (intro exI [of _ ds]) (auto simp: rangeUnminedTransactions_def visitAll_def comp_def)
qed

lemma concat_sorted:
  assumes "sorted_wrt (\<lambda>x y. R (f x) (f y)) xs" and "\<And>a. R a a"
    and "\<And>x i. x \<in> set xs \<Longrightarrow> i \<in> set (k x) \<Longrightarrow> g i = f x"
  shows "sorted_wrt (\<lambda>i j. R (g i) (g j)) (concat (map k xs))"
  using assms(1,3)
proof (induction xs)
  case (Cons x xs)
  have "sorted_wrt (\<lambda>i j. R (g i) (g j)) (k x)"
    using Cons.prems(2) [of x] assms(2) by (auto simp: sorted_wrt_iff_nth_less)
  moreover have "R (g i) (g j)" if i: "i \<in> set (k x)" and j: "j \<in> set (concat (map k xs))" for i j
  proof -
    obtain y where "y \<in> set xs" "j \<in> set (k y)" using j by auto
    with i Cons.prems(2) [of x i] Cons.prems(2) [of y j] Cons.prems(1) show ?thesis by simp
  qed
  ultimately show ?case using Cons by (auto simp: sorted_wrt_append)
qed simp

lemma set_blockIds:
  assumes "blocksOk s"
  shows "set (concat (map blockIds (filter (\<lambda>hb. P (fst hb)) (ForEach (blocks s))))) =
     {(h, Some b) | h b. (h, b) \<in> mdom s \<and> P (bHeight b)}" (is "?L = ?R")
proof
  show "?L \<subseteq> ?R"
  proof
    fix i assume "i \<in> ?L"
    then obtain ht br h where hb: "(ht, br) \<in> set (ForEach (blocks s))" "P ht" "h \<in> set (transactions br)"
      "i = (h, Some (Block ht (brHash br)))" by (auto simp: blockIds_def)
    then have "(h, Block ht (brHash br)) \<in> mdom s"
      using assms unfolding blocksOk_def bkt.forEach_iff by blast
    with hb show "i \<in> ?R" by auto
  qed
  show "?R \<subseteq> ?L"
  proof
    fix i assume "i \<in> ?R"
    then obtain h b where i: "i = (h, Some b)" "(h, b) \<in> mdom s" "P (bHeight b)" by blast
    obtain br where br: "Get (blocks s) (bHeight b) = Some br" "brHash br = bHash b" "h \<in> set (transactions br)"
      using assms i(2) unfolding blocksOk_def by blast
    then have "i \<in> set (blockIds (bHeight b, br))" using i by (cases b) (auto simp: blockIds_def)
    with br i(3) show "i \<in> ?L" by (auto simp: bkt.forEach_iff [symmetric] intro!: bexI [of _ "(bHeight b, br)"])
  qed
qed

lemma distinct_blockIds:
  assumes "blocksOk s"
  shows "distinct (concat (map blockIds (filter P (ForEach (blocks s)))))"
proof -
  have "distinct (concat (map blockIds xs))"
    if "distinct (map fst xs)" "\<And>hb. hb \<in> set xs \<Longrightarrow> distinct (transactions (snd hb))" for xs
    using that
  proof (induction xs)
    case (Cons x xs)
    have "set (blockIds x) \<inter> set (concat (map blockIds xs)) = {}"
      using Cons.prems(1) by (force simp: blockIds_def)
    moreover have "distinct (blockIds x)"
      using Cons.prems(2) [of x] by (simp add: blockIds_def distinct_map inj_on_def)
    ultimately show ?case using Cons by simp
  qed simp
  note main = this [of "filter P (ForEach (blocks s))"]
  have "distinct (transactions (snd hb))" if "hb \<in> set (filter P (ForEach (blocks s)))" for hb
    using assms that bkt.forEach_iff [of "fst hb" "snd hb"] unfolding blocksOk_def by auto
  with main show ?thesis by (simp only: distinct_map_filter bkt.distinct_keys)
qed

text \<open>The order in which a range query presents its results: upwards when \<open>begin\<close> comes before
  \<open>end\<close>, downwards otherwise.\<close>

definition rangeOrder :: "uint32 \<Rightarrow> uint32 \<Rightarrow> int \<Rightarrow> int \<Rightarrow> bool" where
  "rangeOrder begin end x y \<longleftrightarrow>
     (if sint (highBound begin) < sint (highBound end) then x \<le> y else y \<le> x)"

lemma highBound_range: "0 \<le> sint (highBound h)" "sint (highBound h) \<le> 2147483647"
  using int32_range [of "sint h"] by (auto simp: highBound_def int32_def)

lemma sortHeight_le: "sortHeight i \<le> 2147483647"
  using int32_range [of "sint (bHeight (the (snd i)))"]
  by (auto simp: sortHeight_def int32_def split: option.split)

lemma range_blocks_sorted:
  assumes ok: "blocksOk s"
  shows "sorted_wrt (\<lambda>i j. rangeOrder begin end (sortHeight i) (sortHeight j))
     (concat (map blockIds (blockRange s (highBound begin) (highBound end))))"
proof (rule concat_sorted [where f = "\<lambda>hb. sint (fst hb)"])
  let ?xs = "ForEach (blocks s)"
  have nnb: "0 \<le> sint (fst hb)" if "hb \<in> set ?xs" for hb
    using ok that bkt.forEach_iff [of "fst hb" "snd hb" "blocks s"] unfolding blocksOk_def by auto
  have "sorted_wrt (\<lambda>x y. sint (fst x) \<le> sint (fst y)) ?xs"
  proof (rule sorted_wrt_mono_rel)
    show "sorted_wrt (\<lambda>x y. fst x < fst y) ?xs"
      using bkt.forEach_sorted [of "blocks s"] by (simp add: sorted_wrt_map)
    show "sint (fst x) \<le> sint (fst y)" if "x \<in> set ?xs" "y \<in> set ?xs" "fst x < fst y" for x y
      using that word_less_sint_nonneg [OF nnb nnb] by fastforce
  qed
  then show "sorted_wrt (\<lambda>x y. rangeOrder begin end (sint (fst x)) (sint (fst y)))
      (blockRange s (highBound begin) (highBound end))"
    unfolding blockRange_eq [OF ok highBound_range(1) highBound_range(1)]
    by (auto simp: rangeOrder_def sorted_wrt_rev intro: sorted_wrt_filter)
  show "rangeOrder begin end a a" for a by (simp add: rangeOrder_def)
  show "sortHeight i = sint (fst hb)" if "i \<in> set (blockIds hb)" for hb i
    using that by (auto simp: blockIds_def sortHeight_def)
qed

text \<open>The mined and the unmined part of a range, and how the query joins them.\<close>

definition minedPart :: "ns \<Rightarrow> uint32 \<Rightarrow> uint32 \<Rightarrow> (hash \<times> Block option) list" where
  "minedPart s begin end = concat (map blockIds (blockRange s (highBound begin) (highBound end)))"

definition unminedPart :: "ns \<Rightarrow> (hash \<times> Block option) list" where
  "unminedPart s = map (\<lambda>h. (h, None)) (map fst (ForEach (unmined s)))"

lemma RangeTransactions_visits:
  assumes inv: "storeInv isCB T s"
  shows "\<exists>ds. RangeTransactions s begin end visitAll [] = (Inr (), ds) \<and>
     map txid ds = (if sint begin < 0 then unminedPart s @ minedPart s begin end
                    else if sint end < 0 then minedPart s begin end @ unminedPart s
                    else minedPart s begin end)"
proof -
  have ok: "blocksOk s" using inv by (simp add: storeInv_def)
  let ?bs = "blockRange s (highBound begin) (highBound end)"
  have "set ?bs \<subseteq> set (ForEach (blocks s))"
    unfolding blockRange_eq [OF ok highBound_range(1) highBound_range(1)] by auto
  note walk = rangeBlocks_all [OF inv this, folded minedPart_def]
  note unm = rangeUnmined_all [OF inv, of "[]", folded unminedPart_def]
  obtain us where us: "rangeUnminedTransactions s visitAll [] [] = (Inr False, us)"
    "map txid us = unminedPart s" using unm [of "[]"] by auto
  obtain vs where vs: "rangeBlocks s visitAll ?bs us = (Inr False, us @ vs)"
    "map txid vs = minedPart s begin end" using walk [of us] by blast
  obtain vs' where vs': "rangeBlocks s visitAll ?bs [] = (Inr False, vs')"
    "map txid vs' = minedPart s begin end" using walk [of "[]"] by auto
  obtain us' where us': "rangeUnminedTransactions s visitAll [] vs' = (Inr False, vs' @ us')"
    "map txid us' = unminedPart s" using unm [of vs'] by auto
  show ?thesis
    by (intro exI [of _ "if sint begin < 0 then us @ vs else if sint end < 0 then vs' @ us' else vs'"])
      (simp add: RangeTransactions_def rangeBlockTransactions_def us vs vs' us')
qed

lemma set_minedPart:
  assumes ok: "blocksOk s"
  shows "set (minedPart s begin end) =
    {(h, Some b) | h b. (h, b) \<in> mdom s \<and> inRange (highBound begin) (highBound end) (bHeight b)}"
  unfolding set_blockIds [OF ok, symmetric] minedPart_def
  by (auto simp: blockRange_eq [OF ok highBound_range(1) highBound_range(1)])

lemma distinct_minedPart:
  assumes ok: "blocksOk s"
  shows "distinct (minedPart s begin end)"
  using distinct_blockIds [OF ok, of "\<lambda>hb. inRange (highBound begin) (highBound end) (fst hb)"]
  by (auto simp: minedPart_def blockRange_eq [OF ok highBound_range(1) highBound_range(1)]
      simp flip: rev_map)

lemma unminedPart_facts:
  "set (unminedPart s) = {(h, None) | h. h \<in> udom s}" "distinct (unminedPart s)"
  "sorted_wrt (\<lambda>i j. rangeOrder begin end (sortHeight i) (sortHeight j)) (unminedPart s)"
  "i \<in> set (unminedPart s) \<Longrightarrow> sortHeight i = 2147483647"
proof -
  show "distinct (unminedPart s)"
    unfolding unminedPart_def
    by (subst distinct_map) (blast intro: bkt.distinct_keys inj_onI)
qed (auto simp: unminedPart_def bkt.dom_get sorted_wrt_iff_nth_less sortHeight_def rangeOrder_def)

lemma parts_ordered:
  assumes ok: "blocksOk s" and u: "u \<in> set (unminedPart s)" and v: "v \<in> set (minedPart s begin end)"
  shows "sint begin < 0 \<Longrightarrow> rangeOrder begin end (sortHeight u) (sortHeight v)"
    and "sint end < 0 \<Longrightarrow> rangeOrder begin end (sortHeight v) (sortHeight u)"
proof -
  note h = unminedPart_facts(4) [OF u] sortHeight_le [of v]
  show "rangeOrder begin end (sortHeight u) (sortHeight v)" if "sint begin < 0"
    using h highBound_range(2) [of "end"] that by (simp add: rangeOrder_def highBound_def)
  show "rangeOrder begin end (sortHeight v) (sortHeight u)" if "sint end < 0"
  proof -
    have "min (sint (highBound begin)) 2147483647 \<le> sortHeight v"
      using v that unfolding set_minedPart [OF ok]
      by (auto simp: inRange_def sortHeight_def highBound_def)
    then show ?thesis using h highBound_range(2) [of "begin"] that
      by (simp add: rangeOrder_def highBound_def)
  qed
qed

section \<open>Properties\<close>

text \<open>C16.  \<open>RangeTransactions\<close> on a consistent store never fails and presents every transaction of
  the height range exactly once, and no other: the mined ones of the blocks between \<open>begin\<close>
  and \<open>end\<close> (either order, a negative height reading as the highest), and the unmined ones
  exactly when one of the bounds is negative; in ascending order of height when \<open>begin\<close>
  comes first, in descending order otherwise, unmined transactions counting as the highest.\<close>

theorem range_transactions_complete:
  assumes inv: "storeInv isCB T s"
  shows "\<exists>ds. RangeTransactions s begin end visitAll [] = (Inr (), ds) \<and>
     distinct (map txid ds) \<and>
     set (map txid ds) =
       {(h, Some b) | h b. (h, b) \<in> mdom s \<and> inRange (highBound begin) (highBound end) (bHeight b)} \<union>
       (if sint begin < 0 \<or> sint end < 0 then {(h, None) | h. h \<in> udom s} else {}) \<and>
     sorted_wrt (\<lambda>i j. rangeOrder begin end (sortHeight i) (sortHeight j)) (map txid ds)"
proof -
  have ok: "blocksOk s" using inv by (simp add: storeInv_def)
  let ?B = "minedPart s begin end" and ?U = "unminedPart s"
  let ?R = "\<lambda>i j. rangeOrder begin end (sortHeight i) (sortHeight j)"
  obtain ds where ds: "RangeTransactions s begin end visitAll [] = (Inr (), ds)"
    "map txid ds = (if sint begin < 0 then ?U @ ?B else if sint end < 0 then ?B @ ?U else ?B)"
    using RangeTransactions_visits [OF inv] by blast
  have disj: "set ?U \<inter> set ?B = {}" "set ?B \<inter> set ?U = {}"
    unfolding set_minedPart [OF ok] unminedPart_facts(1) by auto
  have "sorted_wrt ?R ?B" using range_blocks_sorted [OF ok] by (simp add: minedPart_def)
  then have "sorted_wrt ?R (map txid ds)"
    unfolding ds(2) using unminedPart_facts(3) parts_ordered [OF ok]
    by (simp add: sorted_wrt_append)
  moreover have "distinct (map txid ds)"
    unfolding ds(2) using distinct_minedPart [OF ok] unminedPart_facts(2) disj by simp
  moreover have "set (map txid ds) = set ?B \<union> (if sint begin < 0 \<or> sint end < 0 then set ?U else {})"
    unfolding ds(2) by auto
  ultimately show ?thesis
    using ds(1) unfolding set_minedPart [OF ok] unminedPart_facts(1) by blast
qed

theorem range_transactions_complete_witness:
  "\<exists>ds. RangeTransactions demo4 0 (-1) visitAll [] = (Inr (), ds) \<and>
     set (map txid ds) = {(1, Some (block (demoBlock 1))), (3, None), (4, None)} \<and>
     sorted_wrt (\<lambda>i j. sortHeight i \<le> sortHeight j) (map txid ds)"
proof -
  have "rangeOrder 0 (-1) x y \<longleftrightarrow> x \<le> y" for x y by (simp add: rangeOrder_def highBound_def)
  moreover have "{(h, Some b) | h b. (h, b) \<in> mdom demo4 \<and>
      inRange (highBound 0) (highBound (-1)) (bHeight b)} = {(1, Some (block (demoBlock 1)))}"
  proof -
    have "inRange (highBound 0) (highBound (-1)) (bHeight (Block 1 101))" by code_simp
    moreover have "block (demoBlock 1) = Block 1 101" by code_simp
    ultimately show ?thesis by (auto simp: demo_mdom)
  qed
  moreover have "{(h, None :: Block option) | h. h \<in> udom demo4} = {(3, None), (4, None)}"
    by (auto simp: demo_udom)
  moreover have "sint (-1 :: uint32) < 0" by simp
  ultimately show ?thesis
    using range_transactions_complete [OF demo_inv, of 0 "-1"]
    by (simp only: simp_thms if_True insert_is_Un [symmetric] Un_insert_left Un_empty_left) blast
qed

text \<open>C17.  \<open>UnminedTxs\<close> on a consistent store returns every unmined transaction exactly once, each
  after the unmined transactions it spends from, whatever the order in which Go visits the
  maps involved.\<close>

theorem unmined_txs_sorted:
  assumes univ: "universe isCB T rk" and inv: "storeInv isCB T s"
    and TH: "\<And>h. h \<in> udom s \<Longrightarrow> TH (T h) = h"
    and shuffle: "\<And>xs. mset (shuffle xs) = mset xs"
    and ord: "distinct ord" "set ord = udom s"
  shows "\<exists>txs. UnminedTxs TH shuffle ord s = Some txs \<and>
     mset txs = mset (map T (UnminedTxHashes s)) \<and> dependencyOrder TH txs"
proof -
  define xs where "xs = map (\<lambda>(h, rec). (h, msgTx rec)) (unminedTxRecords s)"
  have known: "tvTx v = T h" if "(h, v) \<in> set (ForEach (unmined s))" for h v
    using that inv unfolding bkt.forEach_iff storeInv_def unminedInv_def unminedKnown_def by blast
  have xs: "xs = map (\<lambda>h. (h, T h)) (UnminedTxHashes s)"
    using known by (auto simp: xs_def unminedTxRecords_def UnminedTxHashes_def comp_def)
  have dom: "set (UnminedTxHashes s) = udom s" by (simp add: UnminedTxHashes_def bkt.dom_get)
  have "distinct (map fst xs)" by (simp add: xs comp_def UnminedTxHashes_def bkt.distinct_keys)
  then have "distinct (map fst (shuffle xs))"
    using mset_eq_imp_distinct_iff [of "map fst (shuffle xs)" "map fst xs"] shuffle [of xs] by simp
  moreover have same: "set (shuffle xs) = set xs" using shuffle [of xs] by (rule mset_eq_setD)
  ultimately have "dagSet TH rk (shuffle xs)"
    using TH universeD(3) [OF univ] by (auto simp: dagSet_def xs dom)
  moreover have "set ord = fst ` set (shuffle xs)" using ord(2) same by (simp add: xs dom image_comp comp_def)
  ultimately obtain out where "DependencySort TH (shuffle xs) ord = Some out"
    "mset out = mset (map snd (shuffle xs))" "dependencyOrder TH out"
    using DependencySort_ok [of TH rk "shuffle xs" ord] ord(1) by blast
  moreover have "mset (map snd (shuffle xs)) = mset (map T (UnminedTxHashes s))"
    using shuffle [of xs] by (simp add: xs image_mset.compositionality comp_def)
  ultimately show ?thesis by (simp add: UnminedTxs_def xs_def)
qed

definition demoTH :: "MsgTx \<Rightarrow> hash" where
  "demoTH tx = (if tx = demoT 3 then 3 else if tx = demoT 4 then 4 else 0)"

theorem unmined_txs_sorted_witness:
  "\<exists>txs. UnminedTxs demoTH rev [4, 3] demo4 = Some txs \<and>
     mset txs = {#demoT 3, demoT 4#} \<and> dependencyOrder demoTH txs"
proof -
  have "demoTH (demoT h) = h" if "h \<in> udom demo4" for h
    using that by (auto simp: demo_udom demoTH_def demoT_def)
  moreover have "set [4, 3] = udom demo4" by (auto simp: demo_udom)
  moreover have "UnminedTxHashes demo4 = [3, 4]" by code_simp
  ultimately show ?thesis
    using unmined_txs_sorted [OF demo_universe demo_inv, of demoTH rev "[4, 3]"] by simp
qed



end
