(* ===== verification/Expiry.thy ===== *)
theory Expiry
  imports Prelude
begin

text \<open>
  Output expiry (\<^verbatim>\<open>wallet/expiry.go\<close>) and the expiry policy (\<^verbatim>\<open>wallet/expiry_policy.go\<close>).
  Heights and block counts are \<open>int32\<close> and amounts \<open>int64\<close>: every sum and difference the code
  takes at that width is wrapped by \<open>int32\<close> or \<open>int64\<close>.  The chain parameters come from
  \<^verbatim>\<open>chaincfg\<close>: \<open>GetExpiryParams\<close> of the wallet's parameters is a value of type
  \<open>ExpiryParams option\<close> (nil for other networks and for nil parameters), and its method
  \<open>CalculateExpiryKey\<close> is a function in it.
\<close>

section \<open>Data\<close>

datatype ExpiryStatus = ExpiryStatusOK | ExpiryStatusExpiring | ExpiryStatusExpired

datatype RenewalRisk =
  RenewalRiskOK | RenewalRiskNearExpiry | RenewalRiskTooLateNextBlock | RenewalRiskExpired

record RenewalRiskInfo =
  rrWarningBlocks :: int
  rrLatestRenewHeight :: int
  rrBlocksUntilLatest :: int
  rrRenewableInNextBlock :: bool
  rrNearExpiryWarning :: bool
  rrRisk :: RenewalRisk

record ExpiryInfo =
  CreateHeight :: int
  ExpiryHeight :: int
  BlocksToExpiry :: int
  DaysToExpiry :: int
  Status :: ExpiryStatus
  DustRisk :: bool
  RenewWarningBlocks :: int
  LatestRenewHeight :: int
  BlocksUntilLatestRenew :: int
  RenewableInNextBlock :: bool
  NearExpiryWarning :: bool
  Risk :: RenewalRisk

datatype expiry_error =
  InvalidCreateHeight int | WindowTooLarge int | ExpiryOverflow int | NegativeAmount

record ExpiryParams =
  epWindowBlocks :: int
  epEnableAtHeight :: int
  epReapDustThresholdSat :: int
  epReapTaxNumerator :: int
  epReapTaxDenominator :: int
  epCalculateExpiryKey :: "int \<Rightarrow> int"

section \<open>Expiry (\<^verbatim>\<open>expiry.go\<close>)\<close>

definition maxUint32 :: int where "maxUint32 = 4294967295"

definition CalculateExpiryHeight :: "int \<Rightarrow> int \<Rightarrow> expiry_error + int" where
  "CalculateExpiryHeight createHeight windowBlocks =
     (if createHeight < 0 then Inl (InvalidCreateHeight createHeight)
      else if windowBlocks > maxUint32 then Inl (WindowTooLarge windowBlocks)
      else let expiry = int64 (createHeight + int64 windowBlocks)
           in if expiry > maxUint32 then Inl (ExpiryOverflow expiry)
              else Inr (int32 expiry))"

definition ClassifyExpiryStatus :: "int \<Rightarrow> int \<Rightarrow> int \<Rightarrow> ExpiryStatus" where
  "ClassifyExpiryStatus tipHeight expiryHeight threshold =
     (if tipHeight \<ge> expiryHeight then ExpiryStatusExpired
      else let threshold = (if threshold < 0 then 0 else threshold)
           in if int32 (expiryHeight - tipHeight) \<le> threshold then ExpiryStatusExpiring
              else ExpiryStatusOK)"

definition EstimateDaysToExpiry :: "int \<Rightarrow> int" where
  "EstimateDaysToExpiry blocksToExpiry =
     (if blocksToExpiry \<le> 0 then 0 else quot blocksToExpiry 144)"

definition EvaluateRenewalRisk :: "int \<Rightarrow> int \<Rightarrow> int \<Rightarrow> RenewalRiskInfo" where
  "EvaluateRenewalRisk tipHeight expiryHeight warningBlocks =
     (let warningBlocks = (if warningBlocks < 0 then 0 else warningBlocks);
          latest = (if expiryHeight = minInt32 then expiryHeight else int32 (expiryHeight - 1));
          until = int32 (latest - tipHeight);
          until = (if until < 0 then 0 else until);
          next = (if tipHeight = maxInt32 then tipHeight else int32 (tipHeight + 1));
          info = \<lparr>rrWarningBlocks = warningBlocks, rrLatestRenewHeight = latest,
                  rrBlocksUntilLatest = until, rrRenewableInNextBlock = False,
                  rrNearExpiryWarning = False, rrRisk = RenewalRiskOK\<rparr>
      in if tipHeight \<ge> expiryHeight then info\<lparr>rrRisk := RenewalRiskExpired\<rparr>
         else if next \<ge> expiryHeight
         then info\<lparr>rrRisk := RenewalRiskTooLateNextBlock, rrNearExpiryWarning := True\<rparr>
         else let info = info\<lparr>rrRenewableInNextBlock := True\<rparr>
              in if int32 (expiryHeight - tipHeight) \<le> warningBlocks
                 then info\<lparr>rrRisk := RenewalRiskNearExpiry, rrNearExpiryWarning := True\<rparr>
                 else info)"

definition BuildExpiryInfoWithRenewWarning ::
  "int \<Rightarrow> int \<Rightarrow> int \<Rightarrow> int \<Rightarrow> int \<Rightarrow> int \<Rightarrow> int \<Rightarrow> int \<Rightarrow> expiry_error + ExpiryInfo" where
  "BuildExpiryInfoWithRenewWarning createHeight tipHeight windowBlocks threshold renewWarning
     amountSat projectedReclaimSat dustThresholdSat =
     (case CalculateExpiryHeight createHeight windowBlocks of
        Inl e \<Rightarrow> Inl e
      | Inr expiryHeight \<Rightarrow>
          let status = ClassifyExpiryStatus tipHeight expiryHeight threshold;
              blocksToExpiry = (if status = ExpiryStatusExpired then 0
                                else int32 (expiryHeight - tipHeight))
          in if amountSat < 0 \<or> projectedReclaimSat < 0 \<or> dustThresholdSat < 0
             then Inl NegativeAmount
             else let rr = EvaluateRenewalRisk tipHeight expiryHeight renewWarning
                  in Inr \<lparr>CreateHeight = createHeight, ExpiryHeight = expiryHeight,
                          BlocksToExpiry = blocksToExpiry,
                          DaysToExpiry = EstimateDaysToExpiry blocksToExpiry,
                          Status = status, DustRisk = (projectedReclaimSat < dustThresholdSat),
                          RenewWarningBlocks = rrWarningBlocks rr,
                          LatestRenewHeight = rrLatestRenewHeight rr,
                          BlocksUntilLatestRenew = rrBlocksUntilLatest rr,
                          RenewableInNextBlock = rrRenewableInNextBlock rr,
                          NearExpiryWarning = rrNearExpiryWarning rr, Risk = rrRisk rr\<rparr>)"

definition DefaultRenewWarningBlocks :: int where "DefaultRenewWarningBlocks = 12"

definition BuildExpiryInfo ::
  "int \<Rightarrow> int \<Rightarrow> int \<Rightarrow> int \<Rightarrow> int \<Rightarrow> int \<Rightarrow> int \<Rightarrow> expiry_error + ExpiryInfo" where
  "BuildExpiryInfo createHeight tipHeight windowBlocks threshold amountSat reclaim dust =
     BuildExpiryInfoWithRenewWarning createHeight tipHeight windowBlocks threshold
       DefaultRenewWarningBlocks amountSat reclaim dust"

definition IsExpiredForSpending :: "ExpiryParams option \<Rightarrow> int \<Rightarrow> int \<Rightarrow> bool" where
  "IsExpiredForSpending ep createHeight tipHeight =
     (case ep of
        None \<Rightarrow> False
      | Some p \<Rightarrow>
          if createHeight < 0 then False
          else let spendHeight = (if tipHeight = maxInt32 then tipHeight else int32 (tipHeight + 1))
               in if spendHeight < epEnableAtHeight p then False
                  else spendHeight \<ge> int32 (epCalculateExpiryKey p createHeight))"

section \<open>Policy (\<^verbatim>\<open>expiry_policy.go\<close>)\<close>

definition CompatibilityExpiryWindowBlocks :: int where "CompatibilityExpiryWindowBlocks = 3679200"
definition CompatibilityDustThresholdSat :: int where "CompatibilityDustThresholdSat = 546"
definition DefaultProjectedReclaimRatioBps :: int where "DefaultProjectedReclaimRatioBps = 7000"
definition maxDefaultExpiringThresholdBlocks :: int where
  "maxDefaultExpiringThresholdBlocks = 144 * 180"

datatype policy_source = ObtcdChaincfg | CompatibilityDefault
datatype policy_warning = InvalidReapTax | NotObtcNetwork

record ResolvedExpiryPolicy =
  rpWindowBlocks :: int
  rpExpiringThresholdBlocks :: int
  rpRenewWarningBlocks :: int
  rpDustThresholdSat :: int
  rpProjectedReclaimRatioBps :: int
  rpSource :: policy_source

definition defaultExpiringThresholdBlocks :: "int \<Rightarrow> int" where
  "defaultExpiringThresholdBlocks windowBlocks =
     (if windowBlocks = 0 then maxDefaultExpiringThresholdBlocks
      else let threshold = windowBlocks div 4;
               threshold = (if threshold = 0 then 1 else threshold);
               threshold = (if threshold > maxDefaultExpiringThresholdBlocks
                            then maxDefaultExpiringThresholdBlocks else threshold)
           in int32 threshold)"

definition projectedReclaimRatioFromTax :: "ExpiryParams option \<Rightarrow> int \<times> bool" where
  "projectedReclaimRatioFromTax ep =
     (case ep of
        None \<Rightarrow> (DefaultProjectedReclaimRatioBps, False)
      | Some p \<Rightarrow>
          if epReapTaxDenominator p \<le> 0 \<or> epReapTaxNumerator p < 0 \<or>
             epReapTaxNumerator p > epReapTaxDenominator p
          then (DefaultProjectedReclaimRatioBps, False)
          else let reclaim = int64 (epReapTaxDenominator p - epReapTaxNumerator p)
               in (quot (int64 (reclaim * 10000)) (epReapTaxDenominator p) mod 4294967296, True))"

definition ResolveExpiryPolicy ::
  "ExpiryParams option \<Rightarrow> ResolvedExpiryPolicy \<times> policy_warning list" where
  "ResolveExpiryPolicy ep =
     (let (window, dust, ratio, source, warnings) =
            (case ep of
               Some p \<Rightarrow>
                 (case projectedReclaimRatioFromTax (Some p) of (ratio, ok) \<Rightarrow>
                    (epWindowBlocks p, epReapDustThresholdSat p,
                     if ok then ratio else DefaultProjectedReclaimRatioBps, ObtcdChaincfg,
                     if ok then [] else [InvalidReapTax]))
             | None \<Rightarrow>
                 (CompatibilityExpiryWindowBlocks, CompatibilityDustThresholdSat,
                  DefaultProjectedReclaimRatioBps, CompatibilityDefault, [NotObtcNetwork]))
      in (\<lparr>rpWindowBlocks = window,
           rpExpiringThresholdBlocks = defaultExpiringThresholdBlocks window,
           rpRenewWarningBlocks = DefaultRenewWarningBlocks, rpDustThresholdSat = dust,
           rpProjectedReclaimRatioBps = ratio, rpSource = source\<rparr>, warnings))"

definition ProjectedReclaimSat :: "int \<Rightarrow> int \<Rightarrow> int" where
  "ProjectedReclaimSat amountSat ratioBps = quot (int64 (amountSat * ratioBps)) 10000"

section \<open>Properties\<close>

lemma int32_wrap_high: "2147483648 \<le> x \<Longrightarrow> x \<le> 4294967295 \<Longrightarrow> int32 x = x - 4294967296"
proof -
  assume a: "2147483648 \<le> x" "x \<le> 4294967295"
  have "x + 2147483648 = x - 2147483648 + 4294967296" by simp
  then have "(x + 2147483648) mod 4294967296 = (x - 2147483648) mod 4294967296"
    by (simp only: mod_add_self2)
  then show ?thesis using a by (simp add: int32_eq)
qed

text \<open>C19.  \<open>CalculateExpiryHeight\<close> on every input of its types (\<open>int32\<close> height, \<open>uint64\<close> window):
  the exact sum when it fits \<open>int32\<close>; an error for a negative height and for a window or a
  sum above \<open>2\<^sup>3\<^sup>2 - 1\<close>; and for a sum between \<open>2\<^sup>3\<^sup>1\<close> and \<open>2\<^sup>3\<^sup>2 - 1\<close>, which the overflow guard
  lets through, a negative height, so that such an output counts as expired at every tip.\<close>

theorem expiry_height_exact:
  assumes "in32 createHeight" and "0 \<le> windowBlocks" and "windowBlocks < 18446744073709551616"
  shows "CalculateExpiryHeight createHeight windowBlocks =
     (if createHeight < 0 then Inl (InvalidCreateHeight createHeight)
      else if windowBlocks > maxUint32 then Inl (WindowTooLarge windowBlocks)
      else if createHeight + windowBlocks > maxUint32
      then Inl (ExpiryOverflow (createHeight + windowBlocks))
      else if createHeight + windowBlocks > maxInt32
      then Inr (createHeight + windowBlocks - 4294967296)
      else Inr (createHeight + windowBlocks)) \<and>
     (0 \<le> createHeight \<and> maxInt32 < createHeight + windowBlocks \<and>
      createHeight + windowBlocks \<le> maxUint32 \<and> 0 \<le> tipHeight \<longrightarrow>
      ClassifyExpiryStatus tipHeight (projr (CalculateExpiryHeight createHeight windowBlocks)) threshold
        = ExpiryStatusExpired)"
proof -
  have "CalculateExpiryHeight createHeight windowBlocks =
     (if createHeight < 0 then Inl (InvalidCreateHeight createHeight)
      else if windowBlocks > maxUint32 then Inl (WindowTooLarge windowBlocks)
      else if createHeight + windowBlocks > maxUint32
      then Inl (ExpiryOverflow (createHeight + windowBlocks))
      else if createHeight + windowBlocks > maxInt32
      then Inr (createHeight + windowBlocks - 4294967296)
      else Inr (createHeight + windowBlocks))"
    using assms by (simp add: CalculateExpiryHeight_def maxInt32_def maxUint32_def Let_def int32_wrap_high)
  then show ?thesis
    using assms by (auto simp: ClassifyExpiryStatus_def maxInt32_def maxUint32_def)
qed

theorem expiry_height_exact_witness:
  "CalculateExpiryHeight 800000 52560 = Inr 852560 \<and>
   CalculateExpiryHeight 800000 4294967295 = Inl (ExpiryOverflow 4295767295) \<and>
   CalculateExpiryHeight 800000 2147483647 = Inr (-2146683649) \<and>
   ClassifyExpiryStatus 800000 (projr (CalculateExpiryHeight 800000 2147483647)) 144 = ExpiryStatusExpired"
  using expiry_height_exact [of 800000 52560] expiry_height_exact [of 800000 4294967295]
    expiry_height_exact [of 800000 2147483647 800000 144]
  by (auto simp: maxInt32_def maxUint32_def)


definition demoParams :: ExpiryParams where
  "demoParams = \<lparr>epWindowBlocks = 52560, epEnableAtHeight = 1000, epReapDustThresholdSat = 546,
     epReapTaxNumerator = 3, epReapTaxDenominator = 10, epCalculateExpiryKey = (\<lambda>h. h + 52560)\<rparr>"


text \<open>Whatever chain parameters are given, the resolved policy is usable: the expiring threshold
  lies between 1 block and 180 days, the reclaim ratio between 0 and 10000 basis points (for
  a tax denominator below \<open>9 * 10\<^sup>1\<^sup>4\<close>), and the projected reclaim of an amount up to \<open>9 * 10\<^sup>1\<^sup>4\<close>
  satoshis lies between 0 and that amount; invalid tax parameters and other networks are
  flagged.  Above these bounds the product of the code wraps around.\<close>

theorem expiry_policy_bounds:
  assumes window: "\<And>p. ep = Some p \<Longrightarrow> 0 \<le> epWindowBlocks p"
    and den: "\<And>p. ep = Some p \<Longrightarrow> epReapTaxDenominator p \<le> 900000000000000"
    and amount: "0 \<le> amountSat" "amountSat \<le> 900000000000000"
  shows "1 \<le> rpExpiringThresholdBlocks (fst (ResolveExpiryPolicy ep)) \<and>
     rpExpiringThresholdBlocks (fst (ResolveExpiryPolicy ep)) \<le> 25920 \<and>
     0 \<le> rpProjectedReclaimRatioBps (fst (ResolveExpiryPolicy ep)) \<and>
     rpProjectedReclaimRatioBps (fst (ResolveExpiryPolicy ep)) \<le> 10000 \<and>
     0 \<le> ProjectedReclaimSat amountSat (rpProjectedReclaimRatioBps (fst (ResolveExpiryPolicy ep))) \<and>
     ProjectedReclaimSat amountSat (rpProjectedReclaimRatioBps (fst (ResolveExpiryPolicy ep))) \<le> amountSat \<and>
     (snd (ResolveExpiryPolicy ep) = [] \<longleftrightarrow>
        (\<exists>p. ep = Some p \<and> 0 < epReapTaxDenominator p \<and> 0 \<le> epReapTaxNumerator p \<and>
             epReapTaxNumerator p \<le> epReapTaxDenominator p))"
proof -
  let ?r = "rpProjectedReclaimRatioBps (fst (ResolveExpiryPolicy ep))"
  have thr: "1 \<le> defaultExpiringThresholdBlocks w \<and> defaultExpiringThresholdBlocks w \<le> 25920"
    if "0 \<le> w" for w
    using that by (auto simp: defaultExpiringThresholdBlocks_def maxDefaultExpiringThresholdBlocks_def Let_def)
  have tax: "0 \<le> quot (int64 (int64 (d - n) * 10000)) d mod 4294967296 \<and>
      quot (int64 (int64 (d - n) * 10000)) d mod 4294967296 \<le> 10000"
    if "0 < d" "0 \<le> n" "n \<le> d" "d \<le> 900000000000000" for d n
  proof -
    have "(d - n) * 10000 div d \<le> d * 10000 div d" using that by (intro zdiv_mono1) auto
    then have "0 \<le> (d - n) * 10000 div d" "(d - n) * 10000 div d \<le> 10000"
      using that by (simp_all add: pos_imp_zdiv_nonneg_iff)
    then show ?thesis using that by simp
  qed
  have ratio: "0 \<le> ?r \<and> ?r \<le> 10000"
    using tax den
    by (cases ep) (auto simp: ResolveExpiryPolicy_def projectedReclaimRatioFromTax_def
        DefaultProjectedReclaimRatioBps_def Let_def)
  have "amountSat * ?r \<le> amountSat * 10000" using ratio amount by (intro mult_left_mono) auto
  moreover have "0 \<le> amountSat * ?r" using ratio amount by simp
  ultimately have "0 \<le> ProjectedReclaimSat amountSat ?r" "ProjectedReclaimSat amountSat ?r \<le> amountSat"
    using amount by (simp_all add: ProjectedReclaimSat_def)
  moreover have "1 \<le> rpExpiringThresholdBlocks (fst (ResolveExpiryPolicy ep)) \<and>
      rpExpiringThresholdBlocks (fst (ResolveExpiryPolicy ep)) \<le> 25920"
    using thr window by (cases ep)
      (auto simp: ResolveExpiryPolicy_def CompatibilityExpiryWindowBlocks_def split: prod.splits)
  moreover have "snd (ResolveExpiryPolicy ep) = [] \<longleftrightarrow>
        (\<exists>p. ep = Some p \<and> 0 < epReapTaxDenominator p \<and> 0 \<le> epReapTaxNumerator p \<and>
             epReapTaxNumerator p \<le> epReapTaxDenominator p)"
    by (cases ep) (auto simp: ResolveExpiryPolicy_def projectedReclaimRatioFromTax_def Let_def)
  ultimately show ?thesis using ratio by blast
qed

theorem expiry_policy_bounds_witness:
  "rpProjectedReclaimRatioBps (fst (ResolveExpiryPolicy (Some demoParams))) \<le> 10000 \<and>
   ProjectedReclaimSat 500000 (rpProjectedReclaimRatioBps (fst (ResolveExpiryPolicy (Some demoParams)))) \<le> 500000 \<and>
   snd (ResolveExpiryPolicy (Some demoParams)) = []"
  using expiry_policy_bounds [of "Some demoParams" 500000] by (simp add: demoParams_def)

end
