(* ===== verification/Wallet_Utxos.thy ===== *)
theory Wallet_Utxos
  imports Wtx_Balance Expiry
begin

text \<open>
  The wallet's view of its outputs: confirmations, manually locked outpoints, balances
  (\<^verbatim>\<open>wallet/wallet.go\<close>), \<open>UnspentOutputs\<close> (\<^verbatim>\<open>wallet/utxos.go\<close>) and the outputs eligible for
  coin selection (\<^verbatim>\<open>wallet/createtx.go\<close>).  The store is the one of \<open>Wtx_Store\<close>.  \<open>extractAddrs\<close>
  stands for \<^verbatim>\<open>txscript.ExtractPkScriptAddrs\<close> (\<open>None\<close> for its error) and \<open>addrAccount\<close> for the
  address manager's \<open>AddrAccount\<close> (the scope and the account of an address, \<open>None\<close> for its
  error); \<open>ep\<close> is \<open>GetExpiryParams\<close> of the chain parameters and \<open>maturity\<close> their coinbase
  maturity.  A view reads the clock once per output; the model reads it once, \<open>now\<close>.
\<close>

section \<open>Confirmations and locked outpoints (\<^verbatim>\<open>wallet.go\<close>)\<close>

definition calcConf :: "int \<Rightarrow> int \<Rightarrow> int" where
  "calcConf txHeight curHeight =
     (if txHeight = -1 then 0
      else if txHeight > curHeight then 0
      else int32 (int32 (curHeight - txHeight) + 1))"

definition hasMinConfs :: "int \<Rightarrow> int \<Rightarrow> int \<Rightarrow> bool" where
  "hasMinConfs minConf txHeight curHeight \<longleftrightarrow> calcConf txHeight curHeight \<ge> minConf"

type_synonym lockedOutpoints = "OutPoint set"

definition LockedOutpoint :: "lockedOutpoints \<Rightarrow> OutPoint \<Rightarrow> bool" where
  "LockedOutpoint m op \<longleftrightarrow> op \<in> m"

definition LockOutpoint :: "lockedOutpoints \<Rightarrow> OutPoint \<Rightarrow> lockedOutpoints" where
  "LockOutpoint m op = insert op m"

definition UnlockOutpoint :: "lockedOutpoints \<Rightarrow> OutPoint \<Rightarrow> lockedOutpoints" where
  "UnlockOutpoint m op = m - {op}"

definition ResetLockedOutpoints :: "lockedOutpoints \<Rightarrow> lockedOutpoints" where
  "ResetLockedOutpoints m = {}"

definition coHeight :: "CreditOut \<Rightarrow> int" where
  "coHeight c = sint (bHeight (coBlock c))"

section \<open>Balances (\<^verbatim>\<open>wallet.go\<close>)\<close>

text \<open>The three tests the balance and selection loops share.\<close>

definition notExpired :: "ExpiryParams option \<Rightarrow> int \<Rightarrow> CreditOut \<Rightarrow> bool" where
  "notExpired ep curHeight c \<longleftrightarrow> \<not> IsExpiredForSpending ep (coHeight c) curHeight"

definition matured :: "int \<Rightarrow> int \<Rightarrow> CreditOut \<Rightarrow> bool" where
  "matured maturity curHeight c \<longleftrightarrow>
     \<not> (coFromCoinBase c \<and> \<not> hasMinConfs maturity (coHeight c) curHeight)"

definition CalculateBalance ::
  "(MsgTx \<Rightarrow> bool) \<Rightarrow> ExpiryParams option \<Rightarrow> int \<Rightarrow> ns \<Rightarrow> int \<Rightarrow> int \<Rightarrow> int \<Rightarrow> store_error + amount" where
  "CalculateBalance isCB ep maturity s now syncHeight confirms =
     (case UnspentOutputs isCB s now of
        Inl e \<Rightarrow> Inl e
      | Inr outs \<Rightarrow>
          Inr (fold (\<lambda>c balance.
                 if \<not> notExpired ep syncHeight c then balance
                 else if \<not> hasMinConfs confirms (coHeight c) syncHeight then balance
                 else if \<not> matured maturity syncHeight c then balance
                 else balance + coAmount c) outs 0))"

record Balances =
  Total :: amount
  Spendable :: amount
  ImmatureReward :: amount

text \<open>The account of an output: with no address it stays 0.\<close>

definition outputAcct ::
  "(script \<Rightarrow> 'addr list option) \<Rightarrow> ('addr \<Rightarrow> ('scope \<times> uint32) option) \<Rightarrow> CreditOut \<Rightarrow> uint32 option" where
  "outputAcct extractAddrs addrAccount c =
     (case extractAddrs (coPkScript c) of
        None \<Rightarrow> None
      | Some [] \<Rightarrow> Some 0
      | Some (a # as) \<Rightarrow> map_option snd (addrAccount a))"

definition accountStep ::
  "(CreditOut \<Rightarrow> uint32 option) \<Rightarrow> ExpiryParams option \<Rightarrow> int \<Rightarrow> int \<Rightarrow> uint32 \<Rightarrow> int \<Rightarrow> CreditOut \<Rightarrow>
   Balances \<Rightarrow> Balances" where
  "accountStep acctOf ep maturity syncHeight account confirms c bals =
     (if acctOf c \<noteq> Some account then bals
      else
        let bals = bals\<lparr>Total := Total bals + coAmount c\<rparr>
        in if \<not> notExpired ep syncHeight c then bals
           else if \<not> matured maturity syncHeight c
           then bals\<lparr>ImmatureReward := ImmatureReward bals + coAmount c\<rparr>
           else if hasMinConfs confirms (coHeight c) syncHeight
           then bals\<lparr>Spendable := Spendable bals + coAmount c\<rparr>
           else bals)"

definition CalculateAccountBalances ::
  "(MsgTx \<Rightarrow> bool) \<Rightarrow> (CreditOut \<Rightarrow> uint32 option) \<Rightarrow> ExpiryParams option \<Rightarrow> int \<Rightarrow> ns \<Rightarrow> int \<Rightarrow> int \<Rightarrow>
   uint32 \<Rightarrow> int \<Rightarrow> store_error + Balances" where
  "CalculateAccountBalances isCB acctOf ep maturity s now syncHeight account confirms =
     (case UnspentOutputs isCB s now of
        Inl e \<Rightarrow> Inl e
      | Inr outs \<Rightarrow>
          Inr (fold (accountStep acctOf ep maturity syncHeight account confirms) outs
                 \<lparr>Total = 0, Spendable = 0, ImmatureReward = 0\<rparr>))"

section \<open>Unspent outputs (\<^verbatim>\<open>utxos.go\<close>)\<close>

record OutputSelectionPolicy =
  ospAccount :: uint32
  RequiredConfirmations :: int
  IncludeExpired :: bool

datatype OutputKind = OutputKindNormal | OutputKindCoinbase

record TransactionOutput =
  toOutPoint :: OutPoint
  toOutput :: txOut
  toKind :: OutputKind
  ContainingBlock :: Block
  ReceiveTime :: "64 word"

datatype utxo_error = StoreError store_error | AddrNotFound

definition walletOutput ::
  "(script \<Rightarrow> 'addr list option) \<Rightarrow> ('addr \<Rightarrow> ('scope \<times> uint32) option) \<Rightarrow> ExpiryParams option \<Rightarrow>
   int \<Rightarrow> OutputSelectionPolicy \<Rightarrow> CreditOut \<Rightarrow> utxo_error + TransactionOutput option" where
  "walletOutput extractAddrs addrAccount ep syncHeight policy c =
     (if \<not> hasMinConfs (RequiredConfirmations policy) (coHeight c) syncHeight then Inr None
      else if \<not> IncludeExpired policy \<and> IsExpiredForSpending ep (coHeight c) syncHeight
      then Inr None
      else case extractAddrs (coPkScript c) of
             None \<Rightarrow> Inr None
           | Some [] \<Rightarrow> Inr None
           | Some (a # as) \<Rightarrow>
               (case addrAccount a of
                  None \<Rightarrow> Inl AddrNotFound
                | Some (sc, acct) \<Rightarrow>
                    if acct \<noteq> ospAccount policy then Inr None
                    else Inr (Some
                      \<lparr>toOutPoint = coOutPoint c,
                       toOutput = \<lparr>Value = coAmount c, PkScript = coPkScript c\<rparr>,
                       toKind = (if coFromCoinBase c then OutputKindCoinbase else OutputKindNormal),
                       ContainingBlock = coBlock c, ReceiveTime = coReceived c\<rparr>)))"

definition walletUnspentOutputs ::
  "(MsgTx \<Rightarrow> bool) \<Rightarrow> (script \<Rightarrow> 'addr list option) \<Rightarrow> ('addr \<Rightarrow> ('scope \<times> uint32) option) \<Rightarrow>
   ExpiryParams option \<Rightarrow> ns \<Rightarrow> int \<Rightarrow> int \<Rightarrow> OutputSelectionPolicy \<Rightarrow>
   utxo_error + TransactionOutput list" where
  "walletUnspentOutputs isCB extractAddrs addrAccount ep s now syncHeight policy =
     (case UnspentOutputs isCB s now of
        Inl e \<Rightarrow> Inl (StoreError e)
      | Inr outputs \<Rightarrow>
          collect_err (walletOutput extractAddrs addrAccount ep syncHeight policy) outputs)"

definition hasOutput :: "TxDetails \<Rightarrow> uint32 \<Rightarrow> bool" where
  "hasOutput t outputIndex \<longleftrightarrow> (\<exists>cred \<in> set (tdCredits t). outputIndex = crIndex cred)"

section \<open>Eligible outputs (\<^verbatim>\<open>createtx.go\<close>)\<close>

definition inAccount ::
  "(script \<Rightarrow> 'addr list option) \<Rightarrow> ('addr \<Rightarrow> ('scope \<times> uint32) option) \<Rightarrow> 'scope option \<Rightarrow> uint32 \<Rightarrow>
   CreditOut \<Rightarrow> bool" where
  "inAccount extractAddrs addrAccount keyScope account c =
     (case extractAddrs (coPkScript c) of
        Some [a] \<Rightarrow>
          (case addrAccount a of
             None \<Rightarrow> False
           | Some (sc, acct) \<Rightarrow>
               if (case keyScope of None \<Rightarrow> False | Some ks \<Rightarrow> sc \<noteq> ks) then False
               else acct = account)
      | _ \<Rightarrow> False)"

definition isEligible ::
  "ExpiryParams option \<Rightarrow> int \<Rightarrow> lockedOutpoints \<Rightarrow> (CreditOut \<Rightarrow> bool) \<Rightarrow> (CreditOut \<Rightarrow> bool) option \<Rightarrow>
   int \<Rightarrow> int \<Rightarrow> CreditOut \<Rightarrow> bool" where
  "isEligible ep maturity locked acct allowUtxo minconf bsHeight c =
     (if (case allowUtxo of None \<Rightarrow> False | Some f \<Rightarrow> \<not> f c) then False
      else if IsExpiredForSpending ep (coHeight c) bsHeight then False
      else if \<not> hasMinConfs minconf (coHeight c) bsHeight then False
      else if coFromCoinBase c \<and> \<not> hasMinConfs maturity (coHeight c) bsHeight then False
      else if LockedOutpoint locked (coOutPoint c) then False
      else acct c)"

definition findEligibleOutputs ::
  "(MsgTx \<Rightarrow> bool) \<Rightarrow> ExpiryParams option \<Rightarrow> int \<Rightarrow> lockedOutpoints \<Rightarrow> (CreditOut \<Rightarrow> bool) \<Rightarrow> ns \<Rightarrow>
   int \<Rightarrow> int \<Rightarrow> int \<Rightarrow> (CreditOut \<Rightarrow> bool) option \<Rightarrow> store_error + CreditOut list" where
  "findEligibleOutputs isCB ep maturity locked acct s now minconf bsHeight allowUtxo =
     (case UnspentOutputs isCB s now of
        Inl e \<Rightarrow> Inl e
      | Inr outs \<Rightarrow> Inr (filter (isEligible ep maturity locked acct allowUtxo minconf bsHeight) outs))"

section \<open>Loops as sums\<close>

lemma fold_sum_filter:
  fixes g :: "'a \<Rightarrow> 'b::comm_monoid_add"
  assumes "\<And>x b. f x b = (if P x then b + g x else b)"
  shows "fold f xs b = b + sum_list (map g (filter P xs))"
  by (induction xs arbitrary: b) (simp_all add: assms add.assoc)

definition spendableNow :: "ExpiryParams option \<Rightarrow> int \<Rightarrow> int \<Rightarrow> int \<Rightarrow> CreditOut \<Rightarrow> bool" where
  "spendableNow ep maturity syncHeight confirms c \<longleftrightarrow>
     notExpired ep syncHeight c \<and> hasMinConfs confirms (coHeight c) syncHeight \<and>
     matured maturity syncHeight c"

lemma CalculateBalance_sum:
  assumes "UnspentOutputs isCB s now = Inr outs"
  shows "CalculateBalance isCB ep maturity s now syncHeight confirms =
     Inr (sum_list (map coAmount (filter (spendableNow ep maturity syncHeight confirms) outs)))"
  unfolding CalculateBalance_def assms sum.case(2)
  by (subst fold_sum_filter [where P = "spendableNow ep maturity syncHeight confirms" and g = coAmount])
    (simp_all add: spendableNow_def)

lemma accountStep_parts:
  "Total (fold (accountStep acctOf ep m h a n) xs b) =
     Total b + sum_list (map coAmount (filter (\<lambda>c. acctOf c = Some a) xs))"
  "Spendable (fold (accountStep acctOf ep m h a n) xs b) =
     Spendable b + sum_list (map coAmount (filter (\<lambda>c. acctOf c = Some a \<and> spendableNow ep m h n c) xs))"
  "ImmatureReward (fold (accountStep acctOf ep m h a n) xs b) = ImmatureReward b +
     sum_list (map coAmount (filter (\<lambda>c. acctOf c = Some a \<and> notExpired ep h c \<and> \<not> matured m h c) xs))"
  by (induction xs arbitrary: b)
    (simp_all add: accountStep_def spendableNow_def Let_def add.assoc)

lemma CalculateAccountBalances_parts:
  assumes "UnspentOutputs isCB s now = Inr outs"
  shows "\<exists>b. CalculateAccountBalances isCB acctOf ep m s now h a n = Inr b \<and>
     Total b = sum_list (map coAmount (filter (\<lambda>c. acctOf c = Some a) outs)) \<and>
     Spendable b = sum_list (map coAmount (filter (\<lambda>c. acctOf c = Some a \<and> spendableNow ep m h n c) outs)) \<and>
     ImmatureReward b =
       sum_list (map coAmount (filter (\<lambda>c. acctOf c = Some a \<and> notExpired ep h c \<and> \<not> matured m h c) outs))"
  by (simp add: CalculateAccountBalances_def assms accountStep_parts)

lemma sum_by_account:
  fixes g :: "'c \<Rightarrow> 'b::comm_monoid_add"
  assumes "distinct as" and "\<And>c. c \<in> set xs \<Longrightarrow> P c \<Longrightarrow> \<exists>a \<in> set as. f c = Some a"
  shows "sum_list (map (\<lambda>a. sum_list (map g (filter (\<lambda>c. f c = Some a \<and> P c) xs))) as) =
     sum_list (map g (filter P xs))"
  using assms(2)
proof (induction xs)
  case (Cons x xs)
  have split: "sum_list (map g (filter (\<lambda>c. f c = Some a \<and> P c) (x # xs))) =
      (if f x = Some a \<and> P x then g x else 0) +
      sum_list (map g (filter (\<lambda>c. f c = Some a \<and> P c) xs))" for a by simp
  have one: "sum_list (map (\<lambda>a. if f x = Some a \<and> P x then g x else 0) as) = (if P x then g x else 0)"
  proof (cases "P x")
    case True
    then obtain a where a: "a \<in> set as" "f x = Some a" using Cons.prems by auto
    have "sum_list (map (\<lambda>b. if f x = Some b \<and> P x then g x else 0) as) =
        (\<Sum>b\<in>set as. if b = a then g x else 0)"
      using a True assms(1) by (auto simp: sum_list_distinct_conv_sum_set intro!: sum.cong)
    also have "\<dots> = g x" using a by (simp add: sum.delta)
    finally show ?thesis using True by simp
  qed simp
  show ?case
    unfolding split sum_list_addf one using Cons by simp
qed simp

section \<open>Properties\<close>

lemma int32_conf:
  assumes "in32 ht" "0 \<le> ht" "0 \<le> cur" "cur < maxInt32"
  shows "int32 (int32 (cur - ht) + 1) = cur - ht + 1"
  using assms by (simp add: maxInt32_def)

lemma list_all2_right: "list_all2 R xs ys \<Longrightarrow> y \<in> set ys \<Longrightarrow> \<exists>x \<in> set xs. R x y"
  by (induction rule: list_all2_induct) auto

text \<open>What \<open>UnspentOutputs\<close> says of the block of each output it lists.\<close>

lemma UnspentOutputs_blocks:
  assumes inv: "storeInv isCB T s" and outs: "UnspentOutputs isCB s now = Inr outs" and c: "c \<in> set outs"
  shows "(opHash (coOutPoint c), coBlock c) \<in> mdom s \<and> coFromCoinBase c = isCB (T (opHash (coOutPoint c))) \<or>
     coBlock c = Block (-1) 0 \<and> opHash (coOutPoint c) \<in> udom s \<and>
     coFromCoinBase c = isCB (T (opHash (coOutPoint c)))"
proof -
  obtain cs us where o: "UnspentOutputs isCB s now = Inr (cs @ us)"
    and cs: "list_all2 (\<lambda>(op, b) c. listed isCB T op b c)
      (filter (\<lambda>(op, b). free T s now op) (ForEach (unspent s))) cs"
    and us: "list_all2 (\<lambda>(op, u) c. listed isCB T op (Block (-1) 0) c)
      (filter (\<lambda>(op, u). free T s now op) (ForEach (unminedCredits s))) us"
    using UnspentOutputs_lists [OF inv] by blast
  have L: "ledgerOf isCB T (mdom s) (spentBy isCB T (mdom s)) s" using storeInvD(1) [OF inv] .
  have "c \<in> set cs \<or> c \<in> set us" using c o outs by auto
  then show ?thesis
  proof
    assume "c \<in> set cs"
    then obtain op b where ob: "(op, b) \<in> set (ForEach (unspent s))" "listed isCB T op b c"
      using list_all2_right [OF cs, of c] by auto
    have "Get (unspent s) (OutPoint (opHash op) (opIndex op)) = Some b"
      using ob(1) by (simp add: bkt.forEach_iff)
    then have "(opHash op, b) \<in> mdom s" using ledgerD(1,2) [OF L] by blast
    then show ?thesis using ob(2) by (auto simp: listed_def)
  next
    assume "c \<in> set us"
    then obtain op u where ou: "(op, u) \<in> set (ForEach (unminedCredits s))"
      "listed isCB T op (Block (-1) 0) c"
      using list_all2_right [OF us, of c] by auto
    then have "opHash op \<in> udom s"
      using storeInvD(4) [OF inv] unfolding bkt.forEach_iff unminedInv_def unminedCreditsOk_def by blast
    then show ?thesis using ou(2) by (auto simp: listed_def)
  qed
qed

text \<open>C21.  On a chain without expiry, the wallet's \<open>CalculateBalance\<close> (which sums the listed outputs)
  and the store's \<open>Balance\<close> (which corrects the stored total) agree, when no recorded block
  lies above the synced height, no unmined transaction is a coinbase and the clock does not
  move.\<close>

theorem wallet_balance_agrees:
  assumes inv: "storeInv isCB T s" and univ: "universe isCB T rk"
    and range: "0 \<le> syncHeight" "syncHeight < maxInt32" "0 \<le> confirms" "in32 confirms"
      "0 < maturity" "in32 maturity"
    and tip: "\<And>h b. (h, b) \<in> mdom s \<Longrightarrow> sint (bHeight b) \<le> syncHeight"
    and nocb: "\<And>h. h \<in> udom s \<Longrightarrow> \<not> isCB (T h)"
  shows "CalculateBalance isCB None maturity s now syncHeight confirms =
     Balance isCB maturity s (\<lambda>_. now) (\<lambda>_. now) (\<lambda>_. now) confirms syncHeight"
proof -
  obtain outs where outs: "UnspentOutputs isCB s now = Inr outs"
    and bal: "Balance isCB maturity s (\<lambda>_. now) (\<lambda>_. now) (\<lambda>_. now) confirms syncHeight =
      Inr (sum_list (map coAmount (filter (eligible maturity confirms syncHeight) outs)))"
    using Balance_listed [OF inv univ range(1-4) _ range(6), of now] range(5) by auto
  have "spendableNow None maturity syncHeight confirms c = eligible maturity confirms syncHeight c"
    if c: "c \<in> set outs" for c
    using UnspentOutputs_blocks [OF inv outs c]
  proof (elim disjE conjE)
    assume m: "(opHash (coOutPoint c), coBlock c) \<in> mdom s"
    then have "0 \<le> coHeight c" "coHeight c \<le> syncHeight"
      using tip storeInvD(3) [OF inv] unfolding blocksOk_def coHeight_def by blast+
    moreover have "bHeight (coBlock c) \<noteq> -1" using calculation(1) by (auto simp: coHeight_def)
    moreover have "in32 (coHeight c)"
      using int32_range [of "coHeight c"] by (simp add: coHeight_def int32_def)
    ultimately show ?thesis
      using int32_conf [of "coHeight c" syncHeight] range
      by (auto simp: spendableNow_def notExpired_def IsExpiredForSpending_def hasMinConfs_def
          calcConf_def matured_def eligible_def immature_def Let_def simp flip: coHeight_def)
  next
    assume "coBlock c = Block (-1) 0" "opHash (coOutPoint c) \<in> udom s"
      "coFromCoinBase c = isCB (T (opHash (coOutPoint c)))"
    then show ?thesis using nocb range
      by (auto simp: spendableNow_def notExpired_def IsExpiredForSpending_def hasMinConfs_def
          calcConf_def matured_def eligible_def coHeight_def)
  qed
  then have "filter (spendableNow None maturity syncHeight confirms) outs =
      filter (eligible maturity confirms syncHeight) outs" by (rule filter_cong [OF refl])
  then show ?thesis by (simp add: CalculateBalance_sum [OF outs] bal)
qed

theorem wallet_balance_agrees_witness:
  "CalculateBalance demoCB None 100 demo2 0 101 1 =
     Balance demoCB 100 demo2 (\<lambda>_. 0) (\<lambda>_. 0) (\<lambda>_. 0) 1 101 \<and>
   CalculateBalance demoCB None 100 demo2 0 101 1 = Inr 50"
proof -
  have "map fst (ForEach (txRecords demo2)) = [(1, Block 1 101)]" "map fst (ForEach (unmined demo2)) = []"
    by code_simp+
  then have d: "mdom demo2 = {(1, Block 1 101)}" "udom demo2 = {}"
    by (simp_all only: mdom_list udom_list) simp_all
  have "CalculateBalance demoCB None 100 demo2 0 101 1 = Inr 50" by code_simp
  moreover have "CalculateBalance demoCB None 100 demo2 0 101 1 =
     Balance demoCB 100 demo2 (\<lambda>_. 0) (\<lambda>_. 0) (\<lambda>_. 0) 1 101"
    by (rule wallet_balance_agrees [OF demo2_inv demo_universe]) (simp_all add: d maxInt32_def)
  ultimately show ?thesis by blast
qed

text \<open>The account balances partition the wallet's: if every spendable output's account is among the
  distinct accounts \<open>as\<close>, the spendable balances of these accounts add up to
  \<open>CalculateBalance\<close>, at every confirmation requirement, expiry and maturity rule.\<close>

theorem account_balances_partition:
  assumes inv: "storeInv isCB T s" and outs: "UnspentOutputs isCB s now = Inr outs"
    and as: "distinct as"
    and covered: "\<And>c. c \<in> set outs \<Longrightarrow> spendableNow ep maturity syncHeight confirms c \<Longrightarrow>
       \<exists>a \<in> set as. acctOf c = Some a"
  shows "Inr (sum_list (map (\<lambda>a. Spendable (projr
       (CalculateAccountBalances isCB acctOf ep maturity s now syncHeight a confirms))) as)) =
     CalculateBalance isCB ep maturity s now syncHeight confirms"
proof -
  have "Spendable (projr (CalculateAccountBalances isCB acctOf ep maturity s now syncHeight a confirms)) =
      sum_list (map coAmount (filter (\<lambda>c. acctOf c = Some a \<and>
        spendableNow ep maturity syncHeight confirms c) outs))" for a
    using CalculateAccountBalances_parts [OF outs, of acctOf ep maturity syncHeight a confirms] by auto
  moreover have "sum_list (map (\<lambda>a. sum_list (map coAmount (filter (\<lambda>c. acctOf c = Some a \<and>
        spendableNow ep maturity syncHeight confirms c) outs))) as) =
      sum_list (map coAmount (filter (spendableNow ep maturity syncHeight confirms) outs))"
    by (rule sum_by_account [OF as covered])
  ultimately show ?thesis by (simp add: CalculateBalance_sum [OF outs])
qed

theorem account_balances_partition_witness:
  "\<exists>outs. UnspentOutputs demoCB demo2 0 = Inr outs \<and>
   Inr (sum_list (map (\<lambda>a. Spendable (projr
       (CalculateAccountBalances demoCB (\<lambda>c. Some 7) (Some demoParams) 100 demo2 0 101 a 1))) [0, 7])) =
     CalculateBalance demoCB (Some demoParams) 100 demo2 0 101 1 \<and>
   CalculateBalance demoCB (Some demoParams) 100 demo2 0 101 1 = Inr 50"
proof -
  obtain outs where outs: "UnspentOutputs demoCB demo2 0 = Inr outs"
    using UnspentOutputs_free [OF demo2_inv] by blast
  have "CalculateBalance demoCB (Some demoParams) 100 demo2 0 101 1 = Inr 50" by code_simp
  moreover have "Inr (sum_list (map (\<lambda>a. Spendable (projr
       (CalculateAccountBalances demoCB (\<lambda>c. Some 7) (Some demoParams) 100 demo2 0 101 a 1))) [0, 7])) =
     CalculateBalance demoCB (Some demoParams) 100 demo2 0 101 1"
    by (rule account_balances_partition [OF demo2_inv outs]) simp_all
  ultimately show ?thesis using outs by blast
qed



end
