(* ===== verification/Autorenew.thy ===== *)
theory Autorenew
  imports Wallet_Utxos "HOL-Library.Multiset" "HOL-Library.List_Lexorder" "HOL-Library.Char_ord"
begin

text \<open>
  Automatic renewal of expiring outputs (\<^verbatim>\<open>wallet/autorenew.go\<close>): the policy and its
  validation, the choice of candidates, the budget, and the scheduling loop with its
  failure backoff as a state machine.  \<open>opString\<close> stands for \<^verbatim>\<open>wire.OutPoint.String\<close>; the send
  of one renewal transaction (\<open>renewAutoCandidate\<close>) is a parameter that tells whether it
  succeeded.  Durations and times are in nanoseconds.
\<close>

section \<open>Configuration\<close>

record AutoRenewPolicy =
  arEnabled :: bool
  WindowStartBlocks :: int
  WindowEndBlocks :: int
  MaxUtxosPerRun :: int
  MaxFeeRateSatPerKB :: int

record AutoRenewRuntimeConfig =
  arPolicy :: AutoRenewPolicy
  arInterval :: int
  FailureBackoff :: int
  arAmount :: int
  MaxRenewAmountPerRun :: int
  arMinConf :: int
  arAccount :: uint32
  ExpiryWindowBlocks :: int
  ExpiringThresholdBlocks :: int
  arLabel :: string

datatype config_error =
    WindowNegative | WindowOrder | MaxUtxosNotPositive | MaxFeeNotPositive | IntervalNotPositive
  | BackoffNegative | MaxRenewNegative | MinConfNegative | WindowZero | ThresholdNegative
  | AmountNotPositive | MaxRenewBelowAmount

definition defaultAutoRenewInterval :: int where
  "defaultAutoRenewInterval = 30 * 60 * 1000000000"
definition defaultAutoRenewFailureBackoff :: int where
  "defaultAutoRenewFailureBackoff = 15 * 60 * 1000000000"
definition defaultAutoRenewLabel :: string where
  "defaultAutoRenewLabel = ''obtc.autorenew''"

definition DefaultAutoRenewPolicy :: AutoRenewPolicy where
  "DefaultAutoRenewPolicy =
     \<lparr>arEnabled = False, WindowStartBlocks = 144 * 365, WindowEndBlocks = 144 * 180,
      MaxUtxosPerRun = 100, MaxFeeRateSatPerKB = 5000\<rparr>"

definition DefaultAutoRenewRuntimeConfig :: AutoRenewRuntimeConfig where
  "DefaultAutoRenewRuntimeConfig =
     \<lparr>arPolicy = DefaultAutoRenewPolicy, arInterval = defaultAutoRenewInterval,
      FailureBackoff = defaultAutoRenewFailureBackoff, arAmount = 0, MaxRenewAmountPerRun = 0,
      arMinConf = 0, arAccount = 0, ExpiryWindowBlocks = CompatibilityExpiryWindowBlocks,
      ExpiringThresholdBlocks = maxDefaultExpiringThresholdBlocks,
      arLabel = defaultAutoRenewLabel\<rparr>"

definition ValidateAutoRenewPolicy :: "AutoRenewPolicy \<Rightarrow> config_error option" where
  "ValidateAutoRenewPolicy p =
     (if WindowStartBlocks p < 0 \<or> WindowEndBlocks p < 0 then Some WindowNegative
      else if WindowStartBlocks p < WindowEndBlocks p then Some WindowOrder
      else if MaxUtxosPerRun p \<le> 0 then Some MaxUtxosNotPositive
      else if MaxFeeRateSatPerKB p \<le> 0 then Some MaxFeeNotPositive
      else None)"

definition ValidateAutoRenewRuntimeConfig :: "AutoRenewRuntimeConfig \<Rightarrow> config_error option" where
  "ValidateAutoRenewRuntimeConfig c =
     (case ValidateAutoRenewPolicy (arPolicy c) of
        Some e \<Rightarrow> Some e
      | None \<Rightarrow>
          if arInterval c \<le> 0 then Some IntervalNotPositive
          else if FailureBackoff c < 0 then Some BackoffNegative
          else if MaxRenewAmountPerRun c < 0 then Some MaxRenewNegative
          else if arMinConf c < 0 then Some MinConfNegative
          else if ExpiryWindowBlocks c = 0 then Some WindowZero
          else if ExpiringThresholdBlocks c < 0 then Some ThresholdNegative
          else if arEnabled (arPolicy c) \<and> arAmount c \<le> 0 then Some AmountNotPositive
          else if arEnabled (arPolicy c) \<and> MaxRenewAmountPerRun c > 0 \<and>
                  MaxRenewAmountPerRun c < arAmount c then Some MaxRenewBelowAmount
          else None)"

definition normalizeAutoRenewRuntimeConfig :: "AutoRenewRuntimeConfig \<Rightarrow> AutoRenewRuntimeConfig" where
  "normalizeAutoRenewRuntimeConfig c =
     (let c = (if arInterval c \<le> 0 then c\<lparr>arInterval := defaultAutoRenewInterval\<rparr> else c);
          c = (if ExpiryWindowBlocks c = 0
               then c\<lparr>ExpiryWindowBlocks := CompatibilityExpiryWindowBlocks\<rparr> else c);
          c = (if ExpiringThresholdBlocks c < 0
               then c\<lparr>ExpiringThresholdBlocks := maxDefaultExpiringThresholdBlocks\<rparr> else c)
      in if arLabel c = [] then c\<lparr>arLabel := defaultAutoRenewLabel\<rparr> else c)"

section \<open>Candidates\<close>

definition IsInAutoRenewWindow :: "int \<Rightarrow> AutoRenewPolicy \<Rightarrow> bool" where
  "IsInAutoRenewWindow blocksToExpiry p =
     (if \<not> arEnabled p then False
      else blocksToExpiry \<le> WindowStartBlocks p \<and> blocksToExpiry \<ge> WindowEndBlocks p)"

text \<open>The loop of \<open>SelectAutoRenewCandidates\<close>: \<open>i\<close> is the index, \<open>n\<close> the number selected so far.\<close>

fun selectFrom :: "AutoRenewPolicy \<Rightarrow> nat \<Rightarrow> int \<Rightarrow> ExpiryInfo list \<Rightarrow> nat list" where
  "selectFrom p i n [] = []"
| "selectFrom p i n (it # its) =
     (if IsInAutoRenewWindow (BlocksToExpiry it) p
      then i # (if n + 1 \<ge> MaxUtxosPerRun p then [] else selectFrom p (Suc i) (n + 1) its)
      else selectFrom p (Suc i) n its)"

definition SelectAutoRenewCandidates :: "ExpiryInfo list \<Rightarrow> AutoRenewPolicy \<Rightarrow> nat list" where
  "SelectAutoRenewCandidates items p =
     (if \<not> arEnabled p \<or> length items = 0 then [] else selectFrom p 0 0 items)"

record autoRenewCandidate =
  acOutpoint :: OutPoint
  acAmountSat :: int
  acBlocksToExpiry :: int

definition limitAutoRenewCandidatesByBudget ::
  "autoRenewCandidate list \<Rightarrow> int \<Rightarrow> int \<Rightarrow> autoRenewCandidate list" where
  "limitAutoRenewCandidatesByBudget candidates renewAmount maxRenewAmountPerRun =
     (if maxRenewAmountPerRun \<le> 0 \<or> renewAmount \<le> 0 \<or> length candidates = 0 then candidates
      else let maxByBudget = quot maxRenewAmountPerRun renewAmount
           in if maxByBudget \<le> 0 then []
              else if int (length candidates) > maxByBudget then take (nat maxByBudget) candidates
              else candidates)"

text \<open>One output of \<open>buildAutoRenewCandidates\<close>.\<close>

definition autoCandidate ::
  "ExpiryParams option \<Rightarrow> AutoRenewRuntimeConfig \<Rightarrow> int \<Rightarrow> TransactionOutput \<Rightarrow> autoRenewCandidate option" where
  "autoCandidate ep cfg tipHeight out =
     (let createHeight = sint (bHeight (ContainingBlock out)) in
      if createHeight < 0 then None
      else
        let amountSat = sint (Value (toOutput out));
            policy = fst (ResolveExpiryPolicy ep);
            reclaim = ProjectedReclaimSat amountSat (rpProjectedReclaimRatioBps policy)
        in case BuildExpiryInfo createHeight tipHeight (ExpiryWindowBlocks cfg)
                  (ExpiringThresholdBlocks cfg) amountSat reclaim (rpDustThresholdSat policy) of
             Inl e \<Rightarrow> None
           | Inr info \<Rightarrow>
               if \<not> IsInAutoRenewWindow (BlocksToExpiry info) (arPolicy cfg) then None
               else if amountSat \<le> arAmount cfg then None
               else Some \<lparr>acOutpoint = toOutPoint out, acAmountSat = amountSat,
                          acBlocksToExpiry = BlocksToExpiry info\<rparr>)"

definition candidateKey :: "(OutPoint \<Rightarrow> string) \<Rightarrow> autoRenewCandidate \<Rightarrow> int \<times> string" where
  "candidateKey opString c = (acBlocksToExpiry c, opString (acOutpoint c))"

text \<open>The outputs are those of \<open>walletUnspentOutputs\<close> for the configured account and confirmations.\<close>

definition buildAutoRenewCandidates ::
  "(OutPoint \<Rightarrow> string) \<Rightarrow> ExpiryParams option \<Rightarrow> AutoRenewRuntimeConfig \<Rightarrow> int \<Rightarrow>
   (OutputSelectionPolicy \<Rightarrow> utxo_error + TransactionOutput list) \<Rightarrow>
   utxo_error + autoRenewCandidate list" where
  "buildAutoRenewCandidates opString ep cfg tipHeight unspentOutputs =
     (case unspentOutputs \<lparr>ospAccount = arAccount cfg, RequiredConfirmations = arMinConf cfg,
                           IncludeExpired = False\<rparr> of
        Inl e \<Rightarrow> Inl e
      | Inr outputs \<Rightarrow>
          let candidates = sort_key (candidateKey opString)
                (List.map_filter (autoCandidate ep cfg tipHeight) outputs)
          in if int (length candidates) > MaxUtxosPerRun (arPolicy cfg)
             then Inr (take (nat (MaxUtxosPerRun (arPolicy cfg))) candidates)
             else Inr candidates)"

text \<open>One run: the pair of succeeded and failed renewals, and the outpoints it tried to renew.\<close>

definition runAutoRenewOnce ::
  "(autoRenewCandidate \<Rightarrow> bool) \<Rightarrow> AutoRenewRuntimeConfig \<Rightarrow> utxo_error + autoRenewCandidate list \<Rightarrow>
   (nat \<times> nat) \<times> autoRenewCandidate list" where
  "runAutoRenewOnce renew cfg built =
     (case built of
        Inl e \<Rightarrow> ((0, 1), [])
      | Inr candidates \<Rightarrow>
          if length candidates = 0 then ((0, 0), [])
          else
            let candidates = limitAutoRenewCandidatesByBudget candidates (arAmount cfg)
                  (MaxRenewAmountPerRun cfg)
            in if length candidates = 0 then ((0, 0), [])
               else ((length (filter renew candidates), length (filter (\<lambda>c. \<not> renew c) candidates)),
                     candidates))"

section \<open>Scheduling\<close>

text \<open>The part of the wallet's state that the scheduler keeps, guarded by \<open>autoRenewMu\<close>;
  \<open>None\<close> is Go's zero time.  \<open>loopCfg\<close> is the configuration the loop has read and now waits
  with: \<open>Some cfg\<close> while the timer runs.\<close>

record renewState =
  autoRenewCfg :: AutoRenewRuntimeConfig
  autoRenewConfigured :: bool
  autoRenewNextAllowedRun :: "int option"
  autoRenewLoopRunning :: bool
  walletStarted :: bool
  loopCfg :: "AutoRenewRuntimeConfig option"

definition startAutoRenewLoopLocked :: "renewState \<Rightarrow> renewState" where
  "startAutoRenewLoopLocked w =
     (if autoRenewLoopRunning w then w else w\<lparr>autoRenewLoopRunning := True, loopCfg := None\<rparr>)"

definition resolvedConfig :: "ExpiryParams option \<Rightarrow> AutoRenewRuntimeConfig \<Rightarrow> AutoRenewRuntimeConfig" where
  "resolvedConfig ep cfg =
     (let cfg = normalizeAutoRenewRuntimeConfig cfg;
          policy = fst (ResolveExpiryPolicy ep);
          cfg = (if ExpiryWindowBlocks cfg = CompatibilityExpiryWindowBlocks
                 then cfg\<lparr>ExpiryWindowBlocks := rpWindowBlocks policy\<rparr> else cfg)
      in if ExpiringThresholdBlocks cfg = maxDefaultExpiringThresholdBlocks
         then cfg\<lparr>ExpiringThresholdBlocks := rpExpiringThresholdBlocks policy\<rparr> else cfg)"

definition ConfigureAutoRenew ::
  "ExpiryParams option \<Rightarrow> AutoRenewRuntimeConfig \<Rightarrow> renewState \<Rightarrow> config_error + renewState" where
  "ConfigureAutoRenew ep cfg w =
     (case ValidateAutoRenewRuntimeConfig cfg of
        Some e \<Rightarrow> Inl e
      | None \<Rightarrow>
          let cfg = resolvedConfig ep cfg;
              w = w\<lparr>autoRenewCfg := cfg, autoRenewConfigured := True\<rparr>;
              w = (if \<not> arEnabled (arPolicy cfg) then w\<lparr>autoRenewNextAllowedRun := None\<rparr> else w)
          in Inr (if walletStarted w \<and> arEnabled (arPolicy cfg) \<and> \<not> autoRenewLoopRunning w
                  then startAutoRenewLoopLocked w else w))"

definition autoRenewConfigSnapshot :: "renewState \<Rightarrow> AutoRenewRuntimeConfig option" where
  "autoRenewConfigSnapshot w = (if \<not> autoRenewConfigured w then None else Some (autoRenewCfg w))"

definition autoRenewBackoffRemaining :: "renewState \<Rightarrow> int \<Rightarrow> int" where
  "autoRenewBackoffRemaining w now =
     (case autoRenewNextAllowedRun w of
        None \<Rightarrow> 0
      | Some t \<Rightarrow> if \<not> now < t then 0 else min maxInt64 (t - now))"

definition updateAutoRenewBackoff ::
  "AutoRenewRuntimeConfig \<Rightarrow> int \<Rightarrow> nat \<Rightarrow> renewState \<Rightarrow> renewState" where
  "updateAutoRenewBackoff cfg now failed w =
     (if failed > 0 \<and> FailureBackoff cfg > 0
      then w\<lparr>autoRenewNextAllowedRun := Some (now + FailureBackoff cfg)\<rparr>
      else w\<lparr>autoRenewNextAllowedRun := None\<rparr>)"

text \<open>One iteration of \<open>autoRenewLoop\<close> in two moves: \<open>loopTop\<close> reads the configuration and starts the
  timer (or ends the loop when none is configured); \<open>loopFire\<close> is what follows when the timer
  fires at \<open>now\<close>.  It returns the attempted renewals when a run takes place.\<close>

definition loopTop :: "renewState \<Rightarrow> renewState" where
  "loopTop w =
     (case autoRenewConfigSnapshot w of
        None \<Rightarrow> w\<lparr>autoRenewLoopRunning := False, loopCfg := None\<rparr>
      | Some cfg \<Rightarrow> w\<lparr>loopCfg := Some (normalizeAutoRenewRuntimeConfig cfg)\<rparr>)"

definition loopFire ::
  "(AutoRenewRuntimeConfig \<Rightarrow> (nat \<times> nat) \<times> autoRenewCandidate list) \<Rightarrow> bool \<Rightarrow> bool \<Rightarrow> int \<Rightarrow>
   AutoRenewRuntimeConfig \<Rightarrow> renewState \<Rightarrow> renewState \<times> autoRenewCandidate list option" where
  "loopFire run chainSynced locked now cfg w =
     (let w = w\<lparr>loopCfg := None\<rparr> in
      if \<not> arEnabled (arPolicy cfg) then (w, None)
      else if \<not> chainSynced then (w, None)
      else if locked then (w, None)
      else if autoRenewBackoffRemaining w now > 0 then (w, None)
      else case run cfg of ((ok, failed), tried) \<Rightarrow>
             (updateAutoRenewBackoff cfg now failed w, Some tried))"

definition loopQuit :: "renewState \<Rightarrow> renewState" where
  "loopQuit w = w\<lparr>autoRenewLoopRunning := False, loopCfg := None\<rparr>"

text \<open>The events of the scheduler, in any interleaving of the loop with reconfigurations.  An
  event carries the time at which it happens; a run reports what it tried and how many
  attempts failed.\<close>

datatype renewEvent =
    EvConfigure AutoRenewRuntimeConfig
  | EvTop
  | EvSkip
  | EvRun "autoRenewCandidate list" nat
  | EvQuit

inductive renew_step ::
  "ExpiryParams option \<Rightarrow> renewState \<Rightarrow> int \<Rightarrow> renewEvent \<Rightarrow> renewState \<Rightarrow> bool"
  for ep where
  configure: "ConfigureAutoRenew ep cfg w = Inr w' \<Longrightarrow> renew_step ep w t (EvConfigure cfg) w'"
| configure_error: "ConfigureAutoRenew ep cfg w = Inl e \<Longrightarrow> renew_step ep w t (EvConfigure cfg) w"
| top: "autoRenewLoopRunning w \<Longrightarrow> loopCfg w = None \<Longrightarrow> renew_step ep w t EvTop (loopTop w)"
| skip: "autoRenewLoopRunning w \<Longrightarrow> loopCfg w = Some cfg \<Longrightarrow>
    loopFire run synced locked t cfg w = (w', None) \<Longrightarrow> renew_step ep w t EvSkip w'"
| run: "autoRenewLoopRunning w \<Longrightarrow> loopCfg w = Some cfg \<Longrightarrow>
    loopFire run synced locked t cfg w = (w', Some tried) \<Longrightarrow>
    failed = snd (fst (run cfg)) \<Longrightarrow> renew_step ep w t (EvRun tried failed) w'"
| quit: "autoRenewLoopRunning w \<Longrightarrow> renew_step ep w t EvQuit (loopQuit w)"

inductive_cases renew_stepE [elim]:
  "renew_step ep w t (EvConfigure cfg) w'" "renew_step ep w t EvTop w'"
  "renew_step ep w t EvSkip w'" "renew_step ep w t (EvRun tried failed) w'"
  "renew_step ep w t EvQuit w'"

inductive renew_run ::
  "ExpiryParams option \<Rightarrow> renewState \<Rightarrow> (int \<times> renewEvent) list \<Rightarrow> renewState \<Rightarrow> bool"
  for ep where
  Nil: "renew_run ep w [] w"
| Cons: "renew_step ep w t e w' \<Longrightarrow> renew_run ep w' evs w'' \<Longrightarrow> renew_run ep w ((t, e) # evs) w''"

section \<open>Lemmas\<close>

lemma ValidateD:
  assumes "ValidateAutoRenewRuntimeConfig cfg = None"
  shows "0 \<le> WindowEndBlocks (arPolicy cfg)" "WindowEndBlocks (arPolicy cfg) \<le> WindowStartBlocks (arPolicy cfg)"
    "0 < MaxUtxosPerRun (arPolicy cfg)" "0 < arInterval cfg" "0 \<le> MaxRenewAmountPerRun cfg"
    "arEnabled (arPolicy cfg) \<Longrightarrow> 0 < arAmount cfg"
    "arEnabled (arPolicy cfg) \<Longrightarrow> 0 < MaxRenewAmountPerRun cfg \<Longrightarrow> arAmount cfg \<le> MaxRenewAmountPerRun cfg"
  using assms
  by (auto simp: ValidateAutoRenewRuntimeConfig_def ValidateAutoRenewPolicy_def
      split: option.splits if_splits)

lemma normalize_policy [simp]: "arPolicy (normalizeAutoRenewRuntimeConfig c) = arPolicy c"
  by (simp add: normalizeAutoRenewRuntimeConfig_def Let_def)

lemma resolved_policy [simp]: "arPolicy (resolvedConfig ep c) = arPolicy c"
  by (simp add: resolvedConfig_def Let_def)

lemma autoCandidate_Some:
  assumes "autoCandidate ep cfg tip out = Some c"
  shows "acOutpoint c = toOutPoint out" "acAmountSat c = sint (Value (toOutput out))"
    "arAmount cfg < acAmountSat c" "arEnabled (arPolicy cfg)"
    "WindowEndBlocks (arPolicy cfg) \<le> acBlocksToExpiry c"
    "acBlocksToExpiry c \<le> WindowStartBlocks (arPolicy cfg)"
  using assms
  by (auto simp: autoCandidate_def IsInAutoRenewWindow_def Let_def split: if_splits sum.splits)

lemma take_drop_sorted:
  assumes "length xs = n"
  shows "\<exists>rest. mset (take k (sort_key f xs) @ rest) = mset xs \<and>
     sorted (map f (take k (sort_key f xs) @ rest)) \<and> length (take k (sort_key f xs)) = min k n"
  using assms by (intro exI [of _ "drop k (sort_key f xs)"]) (simp add: min.commute del: map_append)

lemma quot_mult_le: "0 < a \<Longrightarrow> 0 \<le> m \<Longrightarrow> quot m a * a \<le> m"
proof -
  assume a: "0 < a" "0 \<le> m"
  have "m div a * a + m mod a = m" by (rule div_mult_mod_eq)
  moreover have "0 \<le> m mod a" using a by simp
  ultimately have "m div a * a \<le> m" by linarith
  then show ?thesis using a by simp
qed

lemma limit_budget:
  assumes "0 < amount" "0 < budget" "amount \<le> budget"
  shows "int (length (limitAutoRenewCandidatesByBudget cs amount budget)) * amount \<le> budget"
    and "cs \<noteq> [] \<Longrightarrow> limitAutoRenewCandidatesByBudget cs amount budget \<noteq> []"
proof -
  have q: "quot budget amount * amount \<le> budget" "1 \<le> quot budget amount"
    using assms quot_mult_le [of amount budget] zdiv_mono1 [of amount budget amount] by simp_all
  have "int (length (limitAutoRenewCandidatesByBudget cs amount budget)) \<le> quot budget amount"
    using q(2) assms by (auto simp: limitAutoRenewCandidatesByBudget_def Let_def)
  then have "int (length (limitAutoRenewCandidatesByBudget cs amount budget)) * amount \<le>
      quot budget amount * amount"
    using assms by (intro mult_right_mono) auto
  then show "int (length (limitAutoRenewCandidatesByBudget cs amount budget)) * amount \<le> budget"
    using q(1) by linarith
  show "cs \<noteq> [] \<Longrightarrow> limitAutoRenewCandidatesByBudget cs amount budget \<noteq> []"
    using assms q(2) by (auto simp: limitAutoRenewCandidatesByBudget_def Let_def)
qed

lemma limit_prefix: "\<exists>rest. cs = limitAutoRenewCandidatesByBudget cs a b @ rest"
proof -
  have "\<exists>rest. cs = take n cs @ rest" for n by (metis append_take_drop_id)
  then show ?thesis by (simp add: limitAutoRenewCandidatesByBudget_def Let_def)
qed

section \<open>Properties\<close>

text \<open>C23.  For a validated configuration the candidates are the right ones: up to the limit per run,
  in the order of expiry and then of outpoint, and the soonest to expire: the candidates
  followed by what was left out are a sorted arrangement of all the outputs that qualify.
  Every candidate lies in the renewal window and is worth more than the renewal amount.\<close>

theorem auto_renew_candidates_correct:
  assumes valid: "ValidateAutoRenewRuntimeConfig cfg = None"
    and outs: "unspentOutputs \<lparr>ospAccount = arAccount cfg, RequiredConfirmations = arMinConf cfg,
                 IncludeExpired = False\<rparr> = Inr outputs"
  shows "\<exists>cs rest. buildAutoRenewCandidates opString ep cfg tip unspentOutputs = Inr cs \<and>
     mset (cs @ rest) = mset (List.map_filter (autoCandidate ep cfg tip) outputs) \<and>
     sorted (map (candidateKey opString) (cs @ rest)) \<and>
     int (length cs) =
       min (MaxUtxosPerRun (arPolicy cfg)) (int (length (List.map_filter (autoCandidate ep cfg tip) outputs))) \<and>
     (\<forall>c \<in> set cs. (\<exists>out \<in> set outputs. acOutpoint c = toOutPoint out) \<and>
        WindowEndBlocks (arPolicy cfg) \<le> acBlocksToExpiry c \<and>
        acBlocksToExpiry c \<le> WindowStartBlocks (arPolicy cfg) \<and> arAmount cfg < acAmountSat c)"
proof -
  let ?all = "List.map_filter (autoCandidate ep cfg tip) outputs"
  let ?k = "nat (MaxUtxosPerRun (arPolicy cfg))"
  let ?cs = "take ?k (sort_key (candidateKey opString) ?all)"
  have max: "0 < MaxUtxosPerRun (arPolicy cfg)" by (rule ValidateD(3) [OF valid])
  have built: "buildAutoRenewCandidates opString ep cfg tip unspentOutputs = Inr ?cs"
    using max by (auto simp: buildAutoRenewCandidates_def outs Let_def)
  obtain rest where rest: "mset (?cs @ rest) = mset ?all"
    "sorted (map (candidateKey opString) (?cs @ rest))" "length ?cs = min ?k (length ?all)"
    using take_drop_sorted by metis
  have "(\<exists>out \<in> set outputs. acOutpoint c = toOutPoint out) \<and>
        WindowEndBlocks (arPolicy cfg) \<le> acBlocksToExpiry c \<and>
        acBlocksToExpiry c \<le> WindowStartBlocks (arPolicy cfg) \<and> arAmount cfg < acAmountSat c"
    if "c \<in> set ?cs" for c
  proof -
    have "c \<in> set ?all" using in_set_takeD [OF that] by simp
    then obtain out where out: "out \<in> set outputs" "autoCandidate ep cfg tip out = Some c"
      by (auto simp: map_filter_def)
    then show ?thesis using autoCandidate_Some [OF out(2)] by blast
  qed
  moreover have "int (length ?cs) = min (MaxUtxosPerRun (arPolicy cfg)) (int (length ?all))"
    using rest(3) max by simp
  ultimately show ?thesis using built rest(1,2) by blast
qed

definition demoCfg :: AutoRenewRuntimeConfig where
  "demoCfg = DefaultAutoRenewRuntimeConfig
     \<lparr>arPolicy := DefaultAutoRenewPolicy
        \<lparr>arEnabled := True, WindowStartBlocks := 100, WindowEndBlocks := 1, MaxUtxosPerRun := 2\<rparr>,
      arAmount := 1000, MaxRenewAmountPerRun := 1500, ExpiryWindowBlocks := 50\<rparr>"

definition demoOutput :: "hash \<Rightarrow> uint32 \<Rightarrow> TransactionOutput" where
  "demoOutput h ht = \<lparr>toOutPoint = OutPoint h 0, toOutput = \<lparr>Value = 5000, PkScript = []\<rparr>,
     toKind = OutputKindNormal, ContainingBlock = Block ht 0, ReceiveTime = 0\<rparr>"

definition demoOutputs :: "TransactionOutput list" where
  "demoOutputs = [demoOutput 1 100, demoOutput 2 90, demoOutput 3 95]"

theorem auto_renew_candidates_correct_witness:
  "ValidateAutoRenewRuntimeConfig demoCfg = None \<and>
   (\<exists>cs rest. buildAutoRenewCandidates (\<lambda>_. []) None demoCfg 101 (\<lambda>_. Inr demoOutputs) = Inr cs \<and>
     mset (cs @ rest) = mset (List.map_filter (autoCandidate None demoCfg 101) demoOutputs) \<and>
     int (length cs) = 2) \<and>
   map_sum id (map (\<lambda>c. opHash (acOutpoint c)))
     (buildAutoRenewCandidates (\<lambda>_. []) None demoCfg 101 (\<lambda>_. Inr demoOutputs)) = Inr [2, 3]"
proof -
  have v: "ValidateAutoRenewRuntimeConfig demoCfg = None" by code_simp
  have "map_sum id (map (\<lambda>c. opHash (acOutpoint c)))
     (buildAutoRenewCandidates (\<lambda>_. []) None demoCfg 101 (\<lambda>_. Inr demoOutputs)) = Inr [2, 3]"
    "min (MaxUtxosPerRun (arPolicy demoCfg))
       (int (length (List.map_filter (autoCandidate None demoCfg 101) demoOutputs))) = 2"
    by code_simp+
  with auto_renew_candidates_correct [where cfg = demoCfg and outputs = demoOutputs and unspentOutputs = "\<lambda>_. Inr demoOutputs" and opString = "\<lambda>_. []" and ep = None and tip = 101, OF v refl] v
  show ?thesis by metis
qed

text \<open>C24.  A run of a validated, enabled configuration respects its budget: it attempts a prefix of the
  candidates, whose renewal amounts add up to at most \<open>MaxRenewAmountPerRun\<close> when that is
  set; it attempts at least one when there are candidates; and every attempt is counted as
  succeeded or failed.\<close>

theorem auto_renew_budget:
  assumes valid: "ValidateAutoRenewRuntimeConfig cfg = None" and on: "arEnabled (arPolicy cfg)"
    and run: "runAutoRenewOnce renew cfg (Inr cs) = ((ok, failed), tried)"
  shows "(\<exists>rest. cs = tried @ rest) \<and>
     (0 < MaxRenewAmountPerRun cfg \<longrightarrow> int (length tried) * arAmount cfg \<le> MaxRenewAmountPerRun cfg) \<and>
     (cs \<noteq> [] \<longrightarrow> tried \<noteq> []) \<and> ok + failed = length tried"
proof -
  let ?l = "limitAutoRenewCandidatesByBudget cs (arAmount cfg) (MaxRenewAmountPerRun cfg)"
  have amt: "0 < arAmount cfg" by (rule ValidateD(6) [OF valid on])
  have tried: "tried = ?l" "ok + failed = length tried"
    using run sum_length_filter_compl [of renew ?l]
    by (auto simp: runAutoRenewOnce_def limitAutoRenewCandidatesByBudget_def Let_def split: if_splits)
  show ?thesis
  proof (cases "0 < MaxRenewAmountPerRun cfg")
    case True
    note lim = limit_budget [OF amt True ValidateD(7) [OF valid on True], of cs]
    then show ?thesis using tried limit_prefix [of cs] by simp
  next
    case False
    then have "?l = cs" by (simp add: limitAutoRenewCandidatesByBudget_def)
    with tried False show ?thesis by simp
  qed
qed

theorem auto_renew_budget_witness:
  "\<exists>ok failed tried. runAutoRenewOnce (\<lambda>_. True) demoCfg
       (buildAutoRenewCandidates (\<lambda>_. []) None demoCfg 101 (\<lambda>_. Inr demoOutputs)) = ((ok, failed), tried) \<and>
     int (length tried) * arAmount demoCfg \<le> MaxRenewAmountPerRun demoCfg \<and> tried \<noteq> [] \<and>
     ok + failed = length tried"
proof -
  have v: "ValidateAutoRenewRuntimeConfig demoCfg = None" and e: "arEnabled (arPolicy demoCfg)"
    and m: "0 < MaxRenewAmountPerRun demoCfg" by code_simp+
  have "\<not> isl (buildAutoRenewCandidates (\<lambda>_. []) None demoCfg 101 (\<lambda>_. Inr demoOutputs)) \<and>
    projr (buildAutoRenewCandidates (\<lambda>_. []) None demoCfg 101 (\<lambda>_. Inr demoOutputs)) \<noteq> []" by code_simp
  then obtain cs where cs: "buildAutoRenewCandidates (\<lambda>_. []) None demoCfg 101 (\<lambda>_. Inr demoOutputs) = Inr cs"
    "cs \<noteq> []" by (metis sum.collapse(2))
  obtain ok failed tried where r: "runAutoRenewOnce (\<lambda>_. True) demoCfg (Inr cs) = ((ok, failed), tried)"
    by (metis surj_pair)
  from auto_renew_budget [OF v e r] cs m r show ?thesis by auto
qed

lemma backoff_kept:
  assumes "renew_step ep w t e w'" and "autoRenewNextAllowedRun w = Some u"
    and "\<And>tried failed. e \<noteq> EvRun tried failed"
    and "\<And>cfg. e = EvConfigure cfg \<Longrightarrow> arEnabled (arPolicy cfg)"
  shows "autoRenewNextAllowedRun w' = Some u"
  using assms
proof (cases rule: renew_step.cases)
  case (configure cfg)
  then show ?thesis using assms(2,4)
    by (auto simp: ConfigureAutoRenew_def startAutoRenewLoopLocked_def Let_def split: option.splits)
next
  case (skip cfg run synced locked)
  then show ?thesis using assms(2)
    by (auto simp: loopFire_def Let_def split: if_splits prod.splits)
qed (auto simp: loopTop_def loopQuit_def split: option.splits)


definition demoRenew :: renewState where
  "demoRenew = \<lparr>autoRenewCfg = demoCfg, autoRenewConfigured = True, autoRenewNextAllowedRun = None,
     autoRenewLoopRunning = True, walletStarted = True, loopCfg = Some demoCfg\<rparr>"


end
