(* ===== verification/Txauthor.thy ===== *)
theory Txauthor
  imports Wallet_Utxos "HOL-Library.Multiset"
begin

text \<open>
  Authoring of transactions: sizes (\<^verbatim>\<open>wallet/txsizes/size.go\<close>), fee and dust rules
  (\<^verbatim>\<open>wallet/txrules/rules.go\<close>), \<open>NewUnsignedTransaction\<close> (\<^verbatim>\<open>wallet/txauthor/author.go\<close>) and the input
  sources and coin selectors of \<^verbatim>\<open>wallet/createtx.go\<close>.  Amounts are \<open>int64\<close> and wrap; sizes are
  Go's 64-bit \<open>int\<close> and stay small.  What the code calls of \<^verbatim>\<open>btcd\<close> is the record \<open>wireFns\<close>.

  An input source is a closure: a state and a function that advances it.  The contract
  \<open>input_source\<close> is what \<open>NewUnsignedTransaction\<close> relies on; both sources of the wallet are
  interpretations of it, and the loop of \<open>NewUnsignedTransaction\<close>, a partial function, is
  shown to end for every source that keeps the contract.
\<close>

section \<open>Third-party functions\<close>

record wireFns =
  varIntSize :: "int \<Rightarrow> int"            \<comment> \<open>\<^verbatim>\<open>wire.VarIntSerializeSize\<close>\<close>
  txOutSize :: "txOut \<Rightarrow> int"           \<comment> \<open>\<^verbatim>\<open>wire.TxOut.SerializeSize\<close>\<close>
  isP2SH :: "script \<Rightarrow> bool"
  isP2WPKH :: "script \<Rightarrow> bool"
  isP2TR :: "script \<Rightarrow> bool"
  isNullData :: "script \<Rightarrow> bool"
  mempoolIsDust :: "txOut \<Rightarrow> int \<Rightarrow> bool"
  maxSatoshi :: int
  witnessScaleFactor :: int

section \<open>Sizes (\<^verbatim>\<open>size.go\<close>)\<close>

definition RedeemP2PKHSigScriptSize :: int where "RedeemP2PKHSigScriptSize = 1 + 73 + 1 + 33"
definition P2PKHPkScriptSize :: int where "P2PKHPkScriptSize = 1 + 1 + 1 + 20 + 1 + 1"
definition RedeemP2PKHInputSize :: int where
  "RedeemP2PKHInputSize = 32 + 4 + 1 + RedeemP2PKHSigScriptSize + 4"
definition P2PKHOutputSize :: int where "P2PKHOutputSize = 8 + 1 + P2PKHPkScriptSize"
definition RedeemP2WPKHInputSize :: int where "RedeemP2WPKHInputSize = 32 + 4 + 1 + 0 + 4"
definition RedeemP2TRInputSize :: int where "RedeemP2TRInputSize = 32 + 4 + 1 + 0 + 4"
definition RedeemNestedP2WPKHScriptSize :: int where
  "RedeemNestedP2WPKHScriptSize = 1 + 1 + 1 + 20"
definition RedeemNestedP2WPKHInputSize :: int where
  "RedeemNestedP2WPKHInputSize = 32 + 4 + 1 + RedeemNestedP2WPKHScriptSize + 4"
definition RedeemP2WPKHInputWitnessWeight :: int where
  "RedeemP2WPKHInputWitnessWeight = 1 + 1 + 73 + 1 + 33"
definition RedeemP2TRInputWitnessWeight :: int where "RedeemP2TRInputWitnessWeight = 1 + 1 + 65"

lemmas size_consts = RedeemP2PKHSigScriptSize_def P2PKHPkScriptSize_def RedeemP2PKHInputSize_def
  P2PKHOutputSize_def RedeemP2WPKHInputSize_def RedeemP2TRInputSize_def
  RedeemNestedP2WPKHScriptSize_def RedeemNestedP2WPKHInputSize_def
  RedeemP2WPKHInputWitnessWeight_def RedeemP2TRInputWitnessWeight_def

definition SumOutputSerializeSizes :: "wireFns \<Rightarrow> txOut list \<Rightarrow> int" where
  "SumOutputSerializeSizes W outs = fold (\<lambda>out n. n + txOutSize W out) outs 0"

definition EstimateSerializeSize :: "wireFns \<Rightarrow> int \<Rightarrow> txOut list \<Rightarrow> bool \<Rightarrow> int" where
  "EstimateSerializeSize W inputCount outs addChange =
     (let changeSize = (if addChange then P2PKHOutputSize else 0);
          outputCount = int (length outs) + (if addChange then 1 else 0)
      in 8 + varIntSize W inputCount + varIntSize W outputCount +
         inputCount * RedeemP2PKHInputSize + SumOutputSerializeSizes W outs + changeSize)"

definition EstimateVirtualSize ::
  "wireFns \<Rightarrow> int \<Rightarrow> int \<Rightarrow> int \<Rightarrow> int \<Rightarrow> txOut list \<Rightarrow> int \<Rightarrow> int" where
  "EstimateVirtualSize W p2pkh p2tr p2wpkh nested outs changeScriptSize =
     (let changeOutputSize =
            (if changeScriptSize > 0 then 8 + varIntSize W changeScriptSize + changeScriptSize else 0);
          baseSize = 8 + varIntSize W (p2pkh + p2tr + p2wpkh + nested) +
            varIntSize W (int (length outs)) +
            p2pkh * RedeemP2PKHInputSize + p2wpkh * RedeemP2WPKHInputSize +
            p2tr * RedeemP2TRInputSize + nested * RedeemNestedP2WPKHInputSize +
            SumOutputSerializeSizes W outs + changeOutputSize;
          witnessWeight =
            (if p2wpkh + nested + p2tr > 0
             then 2 + varIntSize W (p2wpkh + nested + p2tr) +
                  p2wpkh * RedeemP2WPKHInputWitnessWeight + p2tr * RedeemP2TRInputWitnessWeight +
                  nested * RedeemP2WPKHInputWitnessWeight
             else 0)
      in baseSize + quot (witnessWeight + 3) (witnessScaleFactor W))"

definition GetMinInputVirtualSize :: "wireFns \<Rightarrow> script \<Rightarrow> int" where
  "GetMinInputVirtualSize W pkScript =
     (let (baseSize, witnessWeight) =
            (if isP2SH W pkScript then (RedeemNestedP2WPKHInputSize, RedeemP2WPKHInputWitnessWeight)
             else if isP2WPKH W pkScript then (RedeemP2WPKHInputSize, RedeemP2WPKHInputWitnessWeight)
             else if isP2TR W pkScript then (RedeemP2TRInputSize, RedeemP2TRInputWitnessWeight)
             else (RedeemP2PKHInputSize, 0))
      in baseSize + quot (witnessWeight + witnessScaleFactor W - 1) (witnessScaleFactor W))"

section \<open>Rules (\<^verbatim>\<open>rules.go\<close>)\<close>

definition DefaultRelayFeePerKb :: int where "DefaultRelayFeePerKb = 1000"

definition IsDustOutput :: "wireFns \<Rightarrow> txOut \<Rightarrow> int \<Rightarrow> bool" where
  "IsDustOutput W out relayFeePerKb =
     (if isNullData W (PkScript out) then False else mempoolIsDust W out relayFeePerKb)"

datatype rule_error = ErrAmountNegative | ErrAmountExceedsMax | ErrOutputIsDust

definition CheckOutput :: "wireFns \<Rightarrow> txOut \<Rightarrow> int \<Rightarrow> rule_error option" where
  "CheckOutput W out relayFeePerKb =
     (if sint (Value out) < 0 then Some ErrAmountNegative
      else if sint (Value out) > maxSatoshi W then Some ErrAmountExceedsMax
      else if IsDustOutput W out relayFeePerKb then Some ErrOutputIsDust
      else None)"

definition FeeForSerializeSize :: "wireFns \<Rightarrow> int \<Rightarrow> int \<Rightarrow> int" where
  "FeeForSerializeSize W relayFeePerKb txSerializeSize =
     (let fee = quot (int64 (relayFeePerKb * int64 txSerializeSize)) 1000;
          fee = (if fee = 0 \<and> relayFeePerKb > 0 then relayFeePerKb else fee)
      in if fee < 0 \<or> fee > maxSatoshi W then maxSatoshi W else fee)"

section \<open>Authoring (\<^verbatim>\<open>author.go\<close>)\<close>

definition SumOutputValues :: "txOut list \<Rightarrow> int" where
  "SumOutputValues outs = fold (\<lambda>out n. int64 (n + sint (Value out))) outs 0"

record fetched =
  fTotal :: int
  fInputs :: "OutPoint list"
  fValues :: "int list"
  fScripts :: "script list"

datatype author_error = InsufficientFunds | ChangeScriptError | SourceError

record AuthoredTx =
  authTx :: MsgTx
  PrevScripts :: "script list"
  PrevInputValues :: "int list"
  TotalInput :: int
  ChangeIndex :: int

record ChangeSource =
  NewScript :: "author_error + script"
  ScriptSize :: int

text \<open>The numbers of P2PKH, P2TR, P2WPKH and nested inputs, and the fee of the signed transaction.\<close>

definition countScripts :: "wireFns \<Rightarrow> script list \<Rightarrow> int \<times> int \<times> int \<times> int" where
  "countScripts W scripts =
     fold (\<lambda>pk (p2pkh, p2tr, p2wpkh, nested).
             if isP2SH W pk then (p2pkh, p2tr, p2wpkh, nested + 1)
             else if isP2WPKH W pk then (p2pkh, p2tr, p2wpkh + 1, nested)
             else if isP2TR W pk then (p2pkh, p2tr + 1, p2wpkh, nested)
             else (p2pkh + 1, p2tr, p2wpkh, nested)) scripts (0, 0, 0, 0)"

definition requiredFee :: "wireFns \<Rightarrow> txOut list \<Rightarrow> int \<Rightarrow> int \<Rightarrow> script list \<Rightarrow> int" where
  "requiredFee W outs feeRate scriptSize scripts =
     (case countScripts W scripts of (p2pkh, p2tr, p2wpkh, nested) \<Rightarrow>
        FeeForSerializeSize W feeRate
          (EstimateVirtualSize W p2pkh p2tr p2wpkh nested outs scriptSize))"

definition finishTx ::
  "wireFns \<Rightarrow> txOut list \<Rightarrow> ChangeSource \<Rightarrow> int \<Rightarrow> int \<Rightarrow> fetched \<Rightarrow> author_error + AuthoredTx" where
  "finishTx W outs cs targetAmount maxRequiredFee f =
     (let changeAmount = int64 (int64 (fTotal f - targetAmount) - maxRequiredFee) in
      case NewScript cs of
        Inl e \<Rightarrow> Inl e
      | Inr changeScript \<Rightarrow>
          let change = \<lparr>Value = word_of_int changeAmount, PkScript = changeScript\<rparr>;
              hasChange = (changeAmount \<noteq> 0 \<and> \<not> IsDustOutput W change DefaultRelayFeePerKb)
          in Inr \<lparr>authTx = \<lparr>TxIn = fInputs f, TxOut = (if hasChange then outs @ [change] else outs)\<rparr>,
                  PrevScripts = fScripts f, PrevInputValues = fValues f, TotalInput = fTotal f,
                  ChangeIndex = (if hasChange then int (length outs) else -1)\<rparr>)"

partial_function (option) authorLoop ::
  "wireFns \<Rightarrow> txOut list \<Rightarrow> int \<Rightarrow> ('st \<Rightarrow> int \<Rightarrow> (author_error + fetched) \<times> 'st) \<Rightarrow> ChangeSource \<Rightarrow>
   int \<Rightarrow> 'st \<Rightarrow> int \<Rightarrow> ((author_error + AuthoredTx) \<times> 'st) option" where
  [code]: "authorLoop W outs feeRate fetch cs targetAmount st targetFee =
     (case fetch st (int64 (targetAmount + targetFee)) of
        (r, st') \<Rightarrow>
          (case r of
             Inl e \<Rightarrow> Some (Inl e, st')
           | Inr f \<Rightarrow>
               if fTotal f < int64 (targetAmount + targetFee) then Some (Inl InsufficientFunds, st')
               else
                 let maxRequiredFee = requiredFee W outs feeRate (ScriptSize cs) (fScripts f)
                 in if int64 (fTotal f - targetAmount) < maxRequiredFee
                    then authorLoop W outs feeRate fetch cs targetAmount st' maxRequiredFee
                    else Some (finishTx W outs cs targetAmount maxRequiredFee f, st')))"

definition NewUnsignedTransaction ::
  "wireFns \<Rightarrow> txOut list \<Rightarrow> int \<Rightarrow> ('st \<Rightarrow> int \<Rightarrow> (author_error + fetched) \<times> 'st) \<Rightarrow> 'st \<Rightarrow> ChangeSource \<Rightarrow>
   ((author_error + AuthoredTx) \<times> 'st) option" where
  "NewUnsignedTransaction W outs feeRate fetch st cs =
     authorLoop W outs feeRate fetch cs (SumOutputValues outs) st
       (FeeForSerializeSize W feeRate (EstimateVirtualSize W 0 0 1 0 outs (ScriptSize cs)))"

text \<open>\<open>r\<close> is the random index drawn by \<open>cprng\<close>.\<close>

definition RandomizeChangePosition :: "nat \<Rightarrow> AuthoredTx \<Rightarrow> AuthoredTx" where
  "RandomizeChangePosition r tx =
     (let outs = TxOut (authTx tx); i = nat (ChangeIndex tx)
      in tx\<lparr>authTx := (authTx tx)\<lparr>TxOut := outs[r := outs ! i, i := outs ! r]\<rparr>, ChangeIndex := int r\<rparr>)"

section \<open>Input sources and coin selection (\<^verbatim>\<open>createtx.go\<close>)\<close>

record Coin =
  cOutPoint :: OutPoint
  cTxOut :: txOut

definition coinValue :: "Coin \<Rightarrow> int" where "coinValue c = sint (Value (cTxOut c))"

record coinSource =
  srcEligible :: "Coin list"
  srcView :: fetched

definition noInputs :: fetched where
  "noInputs = \<lparr>fTotal = 0, fInputs = [], fValues = [], fScripts = []\<rparr>"

definition addCoin :: "Coin \<Rightarrow> fetched \<Rightarrow> fetched" where
  "addCoin c f =
     \<lparr>fTotal = int64 (fTotal f + coinValue c), fInputs = fInputs f @ [cOutPoint c],
      fValues = fValues f @ [coinValue c], fScripts = fScripts f @ [PkScript (cTxOut c)]\<rparr>"

definition makeInputSource :: "Coin list \<Rightarrow> coinSource" where
  "makeInputSource elig = \<lparr>srcEligible = elig, srcView = noInputs\<rparr>"

fun takeCoins :: "Coin list \<Rightarrow> fetched \<Rightarrow> int \<Rightarrow> coinSource" where
  "takeCoins [] f target = \<lparr>srcEligible = [], srcView = f\<rparr>"
| "takeCoins (c # cs) f target =
     (if fTotal f < target then takeCoins cs (addCoin c f) target
      else \<lparr>srcEligible = c # cs, srcView = f\<rparr>)"

definition fetchCoins :: "coinSource \<Rightarrow> int \<Rightarrow> (author_error + fetched) \<times> coinSource" where
  "fetchCoins st target =
     (let st' = takeCoins (srcEligible st) (srcView st) target in (Inr (srcView st'), st'))"

definition constantInputSource :: "Coin list \<Rightarrow> fetched" where
  "constantInputSource elig = fold addCoin elig noInputs"

definition fetchConstant :: "fetched \<Rightarrow> int \<Rightarrow> (author_error + fetched) \<times> fetched" where
  "fetchConstant st target = (Inr st, st)"

definition inputYieldsPositively :: "wireFns \<Rightarrow> txOut \<Rightarrow> int \<Rightarrow> bool" where
  "inputYieldsPositively W credit feeRatePerKb =
     (quot (int64 (feeRatePerKb * int64 (GetMinInputVirtualSize W (PkScript credit)))) 1000
        < sint (Value credit))"

text \<open>The largest-first selector sorts in place by decreasing value; \<^verbatim>\<open>sort.Sort\<close> leaves the order of
  equal values open, so the arrangement is any permutation in that order, and
  \<open>arrangeLargest\<close> is one.  The random selector keeps the coins worth their own fee, in the
  order that \<open>shuffle\<close> (\<^verbatim>\<open>rand.Shuffle\<close>) gives them.\<close>

definition isLargestFirst :: "Coin list \<Rightarrow> Coin list \<Rightarrow> bool" where
  "isLargestFirst elig arranged \<longleftrightarrow>
     mset arranged = mset elig \<and> sorted_wrt (\<lambda>a b. coinValue b \<le> coinValue a) arranged"

definition arrangeLargest :: "Coin list \<Rightarrow> Coin list" where
  "arrangeLargest elig = sort_key (\<lambda>c. - coinValue c) elig"

definition arrangeRandom :: "wireFns \<Rightarrow> (Coin list \<Rightarrow> Coin list) \<Rightarrow> Coin list \<Rightarrow> int \<Rightarrow> Coin list" where
  "arrangeRandom W shuffle elig feeSatPerKb =
     shuffle (filter (\<lambda>c. inputYieldsPositively W (cTxOut c) feeSatPerKb) elig)"

text \<open>The choice of the input source in \<open>txToOutputs\<close>: the caller's outpoints if there are any, all
  of them eligible and without repetition, or else the arranged eligible coins.\<close>

datatype select_error = DuplicateUtxos | NotEligible OutPoint

definition creditCoin :: "CreditOut \<Rightarrow> Coin" where
  "creditCoin c =
     \<lparr>cOutPoint = coOutPoint c, cTxOut = \<lparr>Value = coAmount c, PkScript = coPkScript c\<rparr>\<rparr>"

definition selectedCoins :: "CreditOut list \<Rightarrow> OutPoint list \<Rightarrow> select_error + Coin list" where
  "selectedCoins elig selected =
     (if \<not> distinct selected then Inl DuplicateUtxos
      else collect_err
             (\<lambda>op. case map_of (rev (map (\<lambda>c. (coOutPoint c, c)) elig)) op of
                     None \<Rightarrow> Inl (NotEligible op)
                   | Some c \<Rightarrow> Inr (Some (creditCoin c))) selected)"

section \<open>The contract of an input source\<close>

text \<open>Amounts up to this bound cannot wrap around when three of them are added.\<close>

definition amountCap :: int where "amountCap = 2000000000000000000"

locale input_source =
  fixes fetch :: "'st \<Rightarrow> int \<Rightarrow> (author_error + fetched) \<times> 'st"
    and adv :: "'st \<Rightarrow> int \<Rightarrow> 'st"
    and view :: "'st \<Rightarrow> fetched"
    and left :: "'st \<Rightarrow> nat"
    and inv :: "'st \<Rightarrow> bool"
  assumes fetch_adv: "inv st \<Longrightarrow> fetch st t = (Inr (view (adv st t)), adv st t)"
    and inv_adv: "inv st \<Longrightarrow> inv (adv st t)"
    and progress: "inv st \<Longrightarrow> fTotal (view st) < t \<Longrightarrow> t \<le> fTotal (view (adv st t)) \<Longrightarrow>
      left (adv st t) < left st"
    and bounded: "inv st \<Longrightarrow> 0 \<le> fTotal (view st) \<and> fTotal (view st) \<le> amountCap"
begin

text \<open>The two ways the loop ends: the source is short of a target it was asked for, or it covers
  the outputs and the fee for exactly the inputs it gave.\<close>

definition feeOk :: "wireFns \<Rightarrow> txOut list \<Rightarrow> int \<Rightarrow> ChangeSource \<Rightarrow> int \<Rightarrow> int \<Rightarrow> bool" where
  "feeOk W outs feeRate cs fee0 fee \<longleftrightarrow> fee = fee0 \<or>
     (\<exists>st. inv st \<and> fee = requiredFee W outs feeRate (ScriptSize cs) (fScripts (view st)))"

definition ends ::
  "wireFns \<Rightarrow> txOut list \<Rightarrow> int \<Rightarrow> ChangeSource \<Rightarrow> int \<Rightarrow> int \<Rightarrow> author_error + AuthoredTx \<Rightarrow> 'st \<Rightarrow> bool" where
  "ends W outs feeRate cs target fee0 r st \<longleftrightarrow> inv st \<and>
     (r = Inl InsufficientFunds \<and>
        (\<exists>st0 fee. inv st0 \<and> feeOk W outs feeRate cs fee0 fee \<and> st = adv st0 (target + fee) \<and>
           fTotal (view st) < target + fee) \<or>
      (let fee = requiredFee W outs feeRate (ScriptSize cs) (fScripts (view st))
       in target + fee \<le> fTotal (view st) \<and> r = finishTx W outs cs target fee (view st)))"

lemma int64_target: "0 \<le> a \<Longrightarrow> a \<le> amountCap \<Longrightarrow> 0 \<le> b \<Longrightarrow> b \<le> amountCap \<Longrightarrow> int64 (a + b) = a + b"
  by (simp add: amountCap_def)

lemma int64_diff: "0 \<le> a \<Longrightarrow> a \<le> amountCap \<Longrightarrow> 0 \<le> b \<Longrightarrow> b \<le> amountCap \<Longrightarrow> int64 (a - b) = a - b"
  by (simp add: amountCap_def)

lemma loop_step:
  assumes "inv st" and t: "0 \<le> target" "target \<le> amountCap" and fee: "0 \<le> fee" "fee \<le> amountCap"
    and ok: "feeOk W outs feeRate cs fee0 fee"
    and loop: "\<And>st' fee'. inv st' \<Longrightarrow> st' = adv st (target + fee) \<Longrightarrow> target + fee \<le> fTotal (view st') \<Longrightarrow>
      fee' = requiredFee W outs feeRate (ScriptSize cs) (fScripts (view st')) \<Longrightarrow>
      fTotal (view st') < target + fee' \<Longrightarrow>
      \<exists>r st''. authorLoop W outs feeRate fetch cs target st' fee' = Some (r, st'') \<and>
        ends W outs feeRate cs target fee0 r st''"
  shows "\<exists>r st''. authorLoop W outs feeRate fetch cs target st fee = Some (r, st'') \<and>
     ends W outs feeRate cs target fee0 r st''"
proof -
  define st' where "st' = adv st (target + fee)"
  define fee' where "fee' = requiredFee W outs feeRate (ScriptSize cs) (fScripts (view st'))"
  have inv': "inv st'" using assms(1) by (simp add: st'_def inv_adv)
  have b: "0 \<le> fTotal (view st')" "fTotal (view st') \<le> amountCap" using bounded [OF inv'] by auto
  have f: "fetch st (target + fee) = (Inr (view st'), st')"
    using fetch_adv [OF assms(1)] by (simp add: st'_def)
  note unfold = authorLoop.simps [of W outs feeRate fetch cs target st fee]
    f int64_target [OF t fee] int64_diff [OF b t]
  consider (short) "fTotal (view st') < target + fee"
    | (more) "target + fee \<le> fTotal (view st')" "fTotal (view st') - target < fee'"
    | (enough) "target + fee \<le> fTotal (view st')" "fee' \<le> fTotal (view st') - target"
    by linarith
  then show ?thesis
  proof cases
    case short
    then show ?thesis using inv' assms(1) ok by (auto simp: unfold ends_def st'_def)
  next
    case more
    then show ?thesis using loop [OF inv' st'_def _ fee'_def] by (simp add: unfold flip: fee'_def)
  next
    case enough
    then show ?thesis using inv' by (simp add: unfold ends_def flip: fee'_def)
  qed
qed

lemma loop_ends:
  assumes t: "0 \<le> target" "target \<le> amountCap"
    and fees: "\<And>scripts. 0 \<le> requiredFee W outs feeRate (ScriptSize cs) scripts \<and>
       requiredFee W outs feeRate (ScriptSize cs) scripts \<le> amountCap"
    and st: "inv st" and fee: "0 \<le> fee" "fee \<le> amountCap" and ok: "feeOk W outs feeRate cs fee0 fee"
  shows "\<exists>r st'. authorLoop W outs feeRate fetch cs target st fee = Some (r, st') \<and>
     ends W outs feeRate cs target fee0 r st'"
proof -
  have behind: "\<exists>r st'. authorLoop W outs feeRate fetch cs target st fee = Some (r, st') \<and>
      ends W outs feeRate cs target fee0 r st'"
    if "inv st" "0 \<le> fee" "fee \<le> amountCap" "fTotal (view st) < target + fee"
      "feeOk W outs feeRate cs fee0 fee" for st fee
    using that
  proof (induction "left st" arbitrary: st fee rule: less_induct)
    case less
    show ?case
    proof (rule loop_step [OF less.prems(1) t less.prems(2,3,5)])
      fix st' fee' assume s: "inv st'" "st' = adv st (target + fee)" "target + fee \<le> fTotal (view st')"
        "fee' = requiredFee W outs feeRate (ScriptSize cs) (fScripts (view st'))"
        "fTotal (view st') < target + fee'"
      have "left st' < left st" using progress [OF less.prems(1,4)] s(2,3) by blast
      then show "\<exists>r st''. authorLoop W outs feeRate fetch cs target st' fee' = Some (r, st'') \<and>
          ends W outs feeRate cs target fee0 r st''"
        using less.hyps [of st' fee'] s fees unfolding feeOk_def by blast
    qed
  qed
  show ?thesis
    by (rule loop_step [OF st t fee ok]) (use behind fees in \<open>unfold feeOk_def, blast\<close>)
qed

end

section \<open>The wallet's sources keep the contract\<close>

lemma takeCoins_spec:
  fixes cs f t
  defines "r \<equiv> takeCoins cs f t"
  shows "\<exists>taken. cs = taken @ srcEligible r \<and> srcView r = fold addCoin taken f \<and>
     (fTotal (srcView r) < t \<longrightarrow> srcEligible r = []) \<and> (t \<le> fTotal f \<longrightarrow> taken = [])"
  unfolding r_def
proof (induction cs f t rule: takeCoins.induct)
  case (2 c cs f t)
  show ?case
  proof (cases "fTotal f < t")
    case True
    then obtain taken where "cs = taken @ srcEligible (takeCoins cs (addCoin c f) t)"
      "srcView (takeCoins cs (addCoin c f) t) = fold addCoin taken (addCoin c f)"
      "fTotal (srcView (takeCoins cs (addCoin c f) t)) < t \<longrightarrow> srcEligible (takeCoins cs (addCoin c f) t) = []"
      using 2 by blast
    with True show ?thesis by (intro exI [of _ "c # taken"]) auto
  qed simp
qed simp

text \<open>Coins whose values are not negative and add up to at most the bound.\<close>

definition validCoins :: "Coin list \<Rightarrow> bool" where
  "validCoins coins \<longleftrightarrow> (\<forall>c \<in> set coins. 0 \<le> coinValue c) \<and> sum_list (map coinValue coins) \<le> amountCap"

definition coinsView :: "Coin list \<Rightarrow> fetched" where
  "coinsView taken =
     \<lparr>fTotal = sum_list (map coinValue taken), fInputs = map cOutPoint taken,
      fValues = map coinValue taken, fScripts = map (\<lambda>c. PkScript (cTxOut c)) taken\<rparr>"

lemma validCoins_prefix: "validCoins (xs @ ys) \<Longrightarrow> validCoins xs"
proof -
  assume v: "validCoins (xs @ ys)"
  have "0 \<le> sum_list (map coinValue ys)" using v by (auto simp: validCoins_def intro!: sum_list_nonneg)
  with v show ?thesis by (auto simp: validCoins_def)
qed

lemma validCoins_total: "validCoins xs \<Longrightarrow> 0 \<le> sum_list (map coinValue xs)"
  by (auto simp: validCoins_def intro!: sum_list_nonneg)

lemma fold_addCoin: "validCoins (xs @ ys) \<Longrightarrow> fold addCoin ys (coinsView xs) = coinsView (xs @ ys)"
proof (induction ys arbitrary: xs)
  case (Cons c ys)
  have "validCoins (xs @ [c])" using Cons.prems validCoins_prefix [of "xs @ [c]" ys] by simp
  then have "sum_list (map coinValue xs) + coinValue c \<le> amountCap"
    "0 \<le> sum_list (map coinValue xs) + coinValue c"
    using validCoins_total by (fastforce simp: validCoins_def)+
  then have "addCoin c (coinsView xs) = coinsView (xs @ [c])"
    by (simp add: addCoin_def coinsView_def amountCap_def)
  then show ?case using Cons.IH [of "xs @ [c]"] Cons.prems by simp
qed simp

text \<open>The invariant of the source over \<open>coins\<close>: what it gave so far is a prefix.\<close>

definition srcInv :: "Coin list \<Rightarrow> coinSource \<Rightarrow> bool" where
  "srcInv coins st \<longleftrightarrow> validCoins coins \<and>
     (\<exists>taken. coins = taken @ srcEligible st \<and> srcView st = coinsView taken)"

lemma takeCoins_inv:
  assumes "srcInv coins st"
  shows "srcInv coins (takeCoins (srcEligible st) (srcView st) t)"
    and "fTotal (srcView (takeCoins (srcEligible st) (srcView st) t)) < t \<Longrightarrow>
      srcView (takeCoins (srcEligible st) (srcView st) t) = coinsView coins"
    and "fTotal (srcView st) < t \<Longrightarrow> t \<le> fTotal (srcView (takeCoins (srcEligible st) (srcView st) t)) \<Longrightarrow>
      length (srcEligible (takeCoins (srcEligible st) (srcView st) t)) < length (srcEligible st)"
proof -
  let ?r = "takeCoins (srcEligible st) (srcView st) t"
  obtain taken where coins: "coins = taken @ srcEligible st" and v: "srcView st = coinsView taken"
    and valid: "validCoins coins" using assms by (auto simp: srcInv_def)
  obtain more where more: "srcEligible st = more @ srcEligible ?r" "srcView ?r = fold addCoin more (srcView st)"
    "fTotal (srcView ?r) < t \<longrightarrow> srcEligible ?r = []"
    using takeCoins_spec [of "srcEligible st" "srcView st" t] by blast
  have all: "coins = (taken @ more) @ srcEligible ?r" using coins more(1) by simp
  have view: "srcView ?r = coinsView (taken @ more)"
    using fold_addCoin [of taken more] validCoins_prefix [of "taken @ more"] valid all more(2) v by simp
  show "srcInv coins ?r" unfolding srcInv_def using valid all view by blast
  show "srcView ?r = coinsView coins" if "fTotal (srcView ?r) < t" using that more(3) all view by simp
  show "length (srcEligible ?r) < length (srcEligible st)"
    if "fTotal (srcView st) < t" "t \<le> fTotal (srcView ?r)"
  proof -
    have "more \<noteq> []" using that more(2) by auto
    moreover have "length (srcEligible st) = length more + length (srcEligible ?r)"
      using arg_cong [OF more(1), of length] by simp
    ultimately show ?thesis by simp
  qed
qed

interpretation coins: input_source fetchCoins
  "\<lambda>st t. takeCoins (srcEligible st) (srcView st) t" srcView "\<lambda>st. length (srcEligible st)" "srcInv coins"
  for coins
proof
  fix st t assume inv: "srcInv coins st"
  show "fetchCoins st t = (Inr (srcView (takeCoins (srcEligible st) (srcView st) t)),
      takeCoins (srcEligible st) (srcView st) t)" by (simp add: fetchCoins_def Let_def)
  show "srcInv coins (takeCoins (srcEligible st) (srcView st) t)" by (rule takeCoins_inv(1) [OF inv])
  show "length (srcEligible (takeCoins (srcEligible st) (srcView st) t)) < length (srcEligible st)"
    if "fTotal (srcView st) < t" "t \<le> fTotal (srcView (takeCoins (srcEligible st) (srcView st) t))"
    using takeCoins_inv(3) [OF inv that] .
  obtain taken where "coins = taken @ srcEligible st" "srcView st = coinsView taken" "validCoins coins"
    using inv by (auto simp: srcInv_def)
  then show "0 \<le> fTotal (srcView st) \<and> fTotal (srcView st) \<le> amountCap"
    using validCoins_prefix validCoins_total by (auto simp: coinsView_def validCoins_def)
qed

interpretation fixed: input_source fetchConstant "\<lambda>st t. st" id "\<lambda>st. 0"
  "\<lambda>st. 0 \<le> fTotal st \<and> fTotal st \<le> amountCap"
  by unfold_locales (auto simp: fetchConstant_def)

section \<open>Fees and sums\<close>

lemma fee_range:
  assumes "0 \<le> maxSatoshi W"
  shows "0 \<le> FeeForSerializeSize W rate n" "FeeForSerializeSize W rate n \<le> maxSatoshi W"
  using assms by (auto simp: FeeForSerializeSize_def Let_def)

lemma requiredFee_range:
  assumes "0 \<le> maxSatoshi W" "maxSatoshi W \<le> amountCap"
  shows "0 \<le> requiredFee W outs rate sz scripts \<and> requiredFee W outs rate sz scripts \<le> amountCap"
proof -
  have "FeeForSerializeSize W rate n \<le> amountCap" for n
    using fee_range(2) [OF assms(1), of rate n] assms(2) by linarith
  then show ?thesis using fee_range(1) [OF assms(1)] by (simp add: requiredFee_def split: prod.split)
qed

text \<open>Outputs with non-negative values that add up to at most the bound.\<close>

definition validOuts :: "txOut list \<Rightarrow> bool" where
  "validOuts outs \<longleftrightarrow> (\<forall>out \<in> set outs. 0 \<le> sint (Value out)) \<and>
     sum_list (map (\<lambda>out. sint (Value out)) outs) \<le> amountCap"

lemma SumOutputValues_sum:
  assumes "validOuts outs"
  shows "SumOutputValues outs = sum_list (map (\<lambda>out. sint (Value out)) outs)"
proof -
  have "fold (\<lambda>out n. int64 (n + sint (Value out))) xs a = a + sum_list (map (\<lambda>out. sint (Value out)) xs)"
    if "0 \<le> a" "\<forall>out \<in> set xs. 0 \<le> sint (Value out)"
      "a + sum_list (map (\<lambda>out. sint (Value out)) xs) \<le> amountCap" for a xs
    using that
  proof (induction xs arbitrary: a)
    case (Cons x xs)
    have "0 \<le> sum_list (map (\<lambda>out. sint (Value out)) xs)"
      using Cons.prems(2) by (intro sum_list_nonneg) auto
    then have "int64 (a + sint (Value x)) = a + sint (Value x)"
      using Cons.prems by (intro int64_id) (auto simp: amountCap_def)
    with Cons show ?case by simp
  qed simp
  from this [of 0 outs] assms show ?thesis by (simp add: SumOutputValues_def validOuts_def)
qed

lemma finishTx_spec:
  assumes "NewScript cs = Inr pk" "0 \<le> target" "target \<le> amountCap" "0 \<le> fee" "fee \<le> amountCap"
    and f: "0 \<le> fTotal f" "fTotal f \<le> amountCap" and enough: "target + fee \<le> fTotal f"
  shows "\<exists>tx change. finishTx W outs cs target fee f = Inr tx \<and> TxIn (authTx tx) = fInputs f \<and>
     TotalInput tx = fTotal f \<and> PrevInputValues tx = fValues f \<and> PrevScripts tx = fScripts f \<and>
     PkScript change = pk \<and> sint (Value change) = fTotal f - target - fee \<and>
     (ChangeIndex tx = int (length outs) \<and> TxOut (authTx tx) = outs @ [change] \<and>
        \<not> IsDustOutput W change DefaultRelayFeePerKb \<and> 0 < sint (Value change) \<or>
      ChangeIndex tx = -1 \<and> TxOut (authTx tx) = outs \<and>
        (sint (Value change) = 0 \<or> IsDustOutput W change DefaultRelayFeePerKb))"
proof -
  define a where "a = fTotal f - target - fee"
  have a: "int64 (int64 (fTotal f - target) - fee) = a" "in64 a"
    using assms by (simp_all add: a_def amountCap_def)
  define change where "change = \<lparr>Value = word_of_int a, PkScript = pk\<rparr>"
  have v: "sint (Value change) = a" using int64_id [OF a(2)] by (simp add: change_def int64_def)
  define tx where "tx = \<lparr>authTx = \<lparr>TxIn = fInputs f, TxOut = (if a \<noteq> 0 \<and> \<not> IsDustOutput W change DefaultRelayFeePerKb
              then outs @ [change] else outs)\<rparr>,
           PrevScripts = fScripts f, PrevInputValues = fValues f, TotalInput = fTotal f,
           ChangeIndex = (if a \<noteq> 0 \<and> \<not> IsDustOutput W change DefaultRelayFeePerKb
              then int (length outs) else -1)\<rparr>"
  have "finishTx W outs cs target fee f = Inr tx"
    by (simp add: finishTx_def a(1) assms(1) change_def tx_def Let_def)
  moreover have "0 \<le> a" using enough by (simp add: a_def)
  ultimately show ?thesis using v
    by (intro exI [of _ tx] exI [of _ change]) (auto simp: tx_def change_def simp flip: a_def)
qed

section \<open>Properties\<close>


text \<open>A concrete instance of the third-party functions, for the witnesses.\<close>

definition demoWire :: wireFns where
  "demoWire = \<lparr>varIntSize = (\<lambda>n. if n < 253 then 1 else if n < 65536 then 3 else if n < 4294967296 then 5 else 9),
     txOutSize = (\<lambda>out. 9 + int (length (PkScript out))), isP2SH = (\<lambda>_. False),
     isP2WPKH = (\<lambda>pk. length pk = 22), isP2TR = (\<lambda>_. False), isNullData = (\<lambda>_. False),
     mempoolIsDust = (\<lambda>out fee. sint (Value out) < 294), maxSatoshi = 2100000000000000,
     witnessScaleFactor = 4\<rparr>"

definition demoCoin :: "hash \<Rightarrow> amount \<Rightarrow> Coin" where
  "demoCoin h v = \<lparr>cOutPoint = OutPoint h 0, cTxOut = \<lparr>Value = v, PkScript = replicate 22 0\<rparr>\<rparr>"

definition demoCS :: ChangeSource where
  "demoCS = \<lparr>NewScript = Inr (replicate 22 1), ScriptSize = 22\<rparr>"

definition demoPay :: "txOut list" where
  "demoPay = [\<lparr>Value = 10000, PkScript = replicate 22 2\<rparr>]"


section \<open>Largest-first selection\<close>

lemma arrangeLargest_ok: "isLargestFirst elig (arrangeLargest elig)"
proof -
  have "sorted (map (\<lambda>c. - coinValue c) (arrangeLargest elig))" by (simp add: arrangeLargest_def)
  then show ?thesis by (simp add: isLargestFirst_def arrangeLargest_def sorted_wrt_map)
qed

text \<open>The source stops as soon as the target is reached.\<close>

lemma takeCoins_minimal:
  assumes "srcView (takeCoins cs f t) = fold addCoin taken f" "cs = taken @ srcEligible (takeCoins cs f t)"
    and "taken = ys @ [c]"
  shows "fTotal (fold addCoin ys f) < t"
  using assms
proof (induction cs f t arbitrary: taken ys rule: takeCoins.induct)
  case step: (2 x cs f t)
  show ?case
  proof (cases "fTotal f < t")
    case True
    show ?thesis
    proof (cases ys)
      case (Cons y ys')
      have "y = x" "cs = (ys' @ [c]) @ srcEligible (takeCoins cs (addCoin x f) t)"
        using step.prems(2,3) True Cons by auto
      moreover have "srcView (takeCoins cs (addCoin x f) t) = fold addCoin (ys' @ [c]) (addCoin x f)"
        using step.prems(1,3) True Cons \<open>y = x\<close> by simp
      ultimately show ?thesis using step.IH [OF True] Cons by simp
    qed (use True in simp)
  next
    case False
    then show ?thesis using step.prems by simp
  qed
qed simp

lemma top_sum:
  fixes v :: "'a \<Rightarrow> int"
  assumes "sorted_wrt (\<lambda>a b. v b \<le> v a) xs" "\<forall>x \<in> set xs. 0 \<le> v x" "A \<subseteq># mset xs" "size A \<le> n"
  shows "(\<Sum>x\<in>#A. v x) \<le> sum_list (map v (take n xs))"
  using assms
proof (induction xs arbitrary: n A)
  case (Cons x xs)
  show ?case
  proof (cases "A = {#}")
    case True
    have "0 \<le> v z" if "z \<in> set (take n (x # xs))" for z
      using Cons.prems(2) in_set_takeD [OF that] by blast
    then show ?thesis using True by (auto intro!: sum_list_nonneg)
  next
    case False
    then obtain m where n: "n = Suc m" using Cons.prems(4) by (cases n) auto
    obtain y where y: "y \<in># A" "x \<in># A \<longrightarrow> y = x" using False by (metis multiset_nonemptyE)
    define B where "B = A - {#y#}"
    have A: "A = add_mset y B" using y(1) by (simp add: B_def)
    have "y \<in> set (x # xs)" using Cons.prems(3) y(1) by (metis mset_subset_eqD set_mset_mset)
    then have vy: "v y \<le> v x" using Cons.prems(1) by auto
    have sub: "B \<subseteq># mset xs"
    proof (cases "x \<in># A")
      case True
      then show ?thesis using Cons.prems(3) A y(2) by simp
    next
      case False
      then have "A \<subseteq># mset xs" using Cons.prems(3)
        by (metis diff_single_trivial insert_DiffM mset.simps(2) subset_eq_diff_conv add_mset_add_single)
      then show ?thesis unfolding B_def by (rule subset_mset.order_trans [OF diff_subset_eq_self])
    qed
    have "size B \<le> m" using Cons.prems(4) A n by simp
    then have "(\<Sum>x\<in>#B. v x) \<le> sum_list (map v (take m xs))"
      using Cons.IH [of B m] Cons.prems sub by simp
    then show ?thesis using vy A n by simp
  qed
qed simp

text \<open>C27.  Largest-first selection uses as few inputs as possible: when the source over coins arranged by
  decreasing value reaches a target, no smaller collection of the eligible coins reaches it.\<close>

theorem largest_first_minimal:
  assumes arranged: "isLargestFirst elig arranged" and valid: "validCoins arranged"
    and fetch: "fetchCoins (makeInputSource arranged) target = (Inr f, st)"
    and other: "A \<subseteq># mset elig" "target \<le> (\<Sum>c\<in>#A. coinValue c)"
  shows "length (fInputs f) \<le> size A"
proof (rule ccontr)
  assume "\<not> length (fInputs f) \<le> size A"
  have empty: "noInputs = coinsView []" by (simp add: noInputs_def coinsView_def)
  obtain taken where tk: "arranged = taken @ srcEligible (takeCoins arranged noInputs target)"
    "srcView (takeCoins arranged noInputs target) = fold addCoin taken noInputs"
    using takeCoins_spec [of arranged noInputs target] by blast
  have view: "fold addCoin xs noInputs = coinsView xs" if "arranged = xs @ ys" for xs ys
    unfolding empty using fold_addCoin [of "[]" xs] validCoins_prefix [of xs ys] valid that by simp
  have "f = coinsView taken"
    using fetch tk view by (auto simp: fetchCoins_def makeInputSource_def Let_def)
  then have len: "size A < length taken" using \<open>\<not> length (fInputs f) \<le> size A\<close> by (simp add: coinsView_def)
  then obtain ys c where ys: "taken = ys @ [c]" by (metis list.size(3) not_less_zero rev_exhaust)
  have pre: "arranged = ys @ c # srcEligible (takeCoins arranged noInputs target)" using tk(1) ys by simp
  have "fTotal (fold addCoin ys noInputs) < target" by (rule takeCoins_minimal [OF tk(2,1) ys])
  then have "sum_list (map coinValue ys) < target" by (simp add: view [OF pre] coinsView_def)
  moreover have "(\<Sum>c\<in>#A. coinValue c) \<le> sum_list (map coinValue (take (length ys) arranged))"
    using arranged valid other(1) len ys by (intro top_sum) (auto simp: isLargestFirst_def validCoins_def)
  moreover have "take (length ys) arranged = ys" using pre by (metis append_eq_conv_conj)
  ultimately show False using other(2) by simp
qed

theorem largest_first_minimal_witness:
  "isLargestFirst [demoCoin 1 5, demoCoin 2 9, demoCoin 3 7] [demoCoin 2 9, demoCoin 3 7, demoCoin 1 5] \<and>
   fst (fetchCoins (makeInputSource [demoCoin 2 9, demoCoin 3 7, demoCoin 1 5]) 12) =
     Inr (coinsView [demoCoin 2 9, demoCoin 3 7]) \<and>
   length (fInputs (coinsView [demoCoin 2 9, demoCoin 3 7])) \<le> size {#demoCoin 1 5, demoCoin 3 7#}"
proof -
  let ?elig = "[demoCoin 1 5, demoCoin 2 9, demoCoin 3 7]" and ?arr = "[demoCoin 2 9, demoCoin 3 7, demoCoin 1 5]"
  have v: "coinValue (demoCoin 1 5) = 5" "coinValue (demoCoin 2 9) = 9" "coinValue (demoCoin 3 7) = 7"
    "validCoins ?arr" by code_simp+
  have a: "isLargestFirst ?elig ?arr" by (simp add: isLargestFirst_def v add_mset_commute)
  have "fst (fetchCoins (makeInputSource ?arr) 12) = Inr (coinsView [demoCoin 2 9, demoCoin 3 7])" by code_simp
  then obtain st where f: "fetchCoins (makeInputSource ?arr) 12 = (Inr (coinsView [demoCoin 2 9, demoCoin 3 7]), st)"
    by (metis prod.collapse)
  have "{#demoCoin 1 5, demoCoin 3 7#} \<subseteq># mset ?elig" by (simp add: subseteq_mset_def)
  moreover have "(12 :: int) \<le> (\<Sum>c\<in>#{#demoCoin 1 5, demoCoin 3 7#}. coinValue c)" by (simp add: v)
  ultimately have "length (fInputs (coinsView [demoCoin 2 9, demoCoin 3 7])) \<le> size {#demoCoin 1 5, demoCoin 3 7#}"
    by (rule largest_first_minimal [OF a v(4) f])
  with a f show ?thesis by simp
qed

section \<open>The two size estimates\<close>

text \<open>For P2PKH inputs and a P2PKH change output the two estimators differ in one place only:
  \<open>EstimateVirtualSize\<close> writes the number of outputs without the change output it adds, so
  when the change crosses a boundary of the variable-length count (252 outputs) its
  estimate, which is meant to be the worst case, is below that of \<open>EstimateSerializeSize\<close>.\<close>

theorem size_estimates_differ:
  assumes "varIntSize W P2PKHPkScriptSize = 1" and "3 < witnessScaleFactor W"
  shows "EstimateVirtualSize W n 0 0 0 outs P2PKHPkScriptSize =
     EstimateSerializeSize W n outs True -
       (varIntSize W (int (length outs) + 1) - varIntSize W (int (length outs)))"
  using assms by (simp add: EstimateVirtualSize_def EstimateSerializeSize_def Let_def size_consts)

theorem size_estimates_differ_witness:
  "EstimateVirtualSize demoWire 1 0 0 0 (replicate 252 (hd demoPay)) P2PKHPkScriptSize + 2 =
     EstimateSerializeSize demoWire 1 (replicate 252 (hd demoPay)) True"
  using size_estimates_differ [of demoWire 1 "replicate 252 (hd demoPay)"]
  by (simp add: demoWire_def size_consts)

end
