(* ===== verification/Blockfilter.thy ===== *)
theory Blockfilter
  imports Wtx_Types "HOL-Library.AList"
begin

text \<open>
  Scanning blocks for the addresses and outpoints of the wallet: \<^verbatim>\<open>chain/block_filterer.go\<close> and
  the \<open>FilterBlocks\<close> request of \<^verbatim>\<open>chain/bitcoind_client.go\<close> that drives it.  The script parser
  (\<open>extractAddrs\<close>, \<open>None\<close> for a script it cannot parse), the text form of an address (\<open>enc\<close>)
  and the transaction hash (\<open>hashOf\<close>) belong to \<^verbatim>\<open>btcd\<close> and are parameters.  A Go map that the
  code iterates over is an association list.
\<close>

type_synonym KeyScope = "uint32 \<times> uint32"          \<comment> \<open>\<^verbatim>\<open>waddrmgr.KeyScope\<close>: purpose and coin\<close>
type_synonym ScopedIndex = "KeyScope \<times> uint32"
type_synonym foundAddrs = "(KeyScope \<times> uint32 list) list"

record 'addr chainFns =
  extractAddrs :: "script \<Rightarrow> 'addr list option"
  enc :: "'addr \<Rightarrow> string"
  hashOf :: "MsgTx \<Rightarrow> hash"

record 'addr FilterBlocksRequest =
  reqBlocks :: "BlockMeta list"
  ExternalAddrs :: "(ScopedIndex \<times> 'addr) list"
  InternalAddrs :: "(ScopedIndex \<times> 'addr) list"
  reqWatched :: "OutPoint \<rightharpoonup> 'addr"

record 'addr BlockFilterer =
  ExReverseFilter :: "string \<rightharpoonup> ScopedIndex"
  InReverseFilter :: "string \<rightharpoonup> ScopedIndex"
  bfWatched :: "OutPoint \<rightharpoonup> 'addr"
  FoundExternal :: foundAddrs
  FoundInternal :: foundAddrs
  FoundOutPoints :: "OutPoint \<rightharpoonup> 'addr"
  RelevantTxns :: "MsgTx list"

definition reverseFilter :: "'addr chainFns \<Rightarrow> (ScopedIndex \<times> 'addr) list \<Rightarrow> string \<rightharpoonup> ScopedIndex" where
  "reverseFilter C addrs = fold (\<lambda>(si, a) m. m(enc C a \<mapsto> si)) addrs Map.empty"

definition NewBlockFilterer :: "'addr chainFns \<Rightarrow> 'addr FilterBlocksRequest \<Rightarrow> 'addr BlockFilterer" where
  "NewBlockFilterer C req =
     \<lparr>ExReverseFilter = reverseFilter C (ExternalAddrs req),
      InReverseFilter = reverseFilter C (InternalAddrs req),
      bfWatched = reqWatched req, FoundExternal = [], FoundInternal = [],
      FoundOutPoints = Map.empty, RelevantTxns = []\<rparr>"

definition markFound :: "ScopedIndex \<Rightarrow> foundAddrs \<Rightarrow> foundAddrs" where
  "markFound si m =
     (let m = (if map_of m (fst si) = None then AList.update (fst si) [] m else m)
      in AList.update (fst si) (List.insert (snd si) (the (map_of m (fst si)))) m)"

definition foundExternal :: "ScopedIndex \<Rightarrow> 'addr BlockFilterer \<Rightarrow> 'addr BlockFilterer" where
  "foundExternal si bf = bf\<lparr>FoundExternal := markFound si (FoundExternal bf)\<rparr>"

definition foundInternal :: "ScopedIndex \<Rightarrow> 'addr BlockFilterer \<Rightarrow> 'addr BlockFilterer" where
  "foundInternal si bf = bf\<lparr>FoundInternal := markFound si (FoundInternal bf)\<rparr>"

definition filterAddr :: "'addr chainFns \<Rightarrow> 'addr \<Rightarrow> bool \<times> 'addr BlockFilterer \<Rightarrow> bool \<times> 'addr BlockFilterer" where
  "filterAddr C a rb =
     (let (r, bf) = rb;
          (r, bf) = (case ExReverseFilter bf (enc C a) of
                       Some si \<Rightarrow> (True, foundExternal si bf) | None \<Rightarrow> (r, bf))
      in case InReverseFilter bf (enc C a) of
           Some si \<Rightarrow> (True, foundInternal si bf) | None \<Rightarrow> (r, bf))"

definition FilterOutputAddrs :: "'addr chainFns \<Rightarrow> 'addr list \<Rightarrow> 'addr BlockFilterer \<Rightarrow> bool \<times> 'addr BlockFilterer" where
  "FilterOutputAddrs C addrs bf = fold (filterAddr C) addrs (False, bf)"

definition filterOutput ::
  "'addr chainFns \<Rightarrow> MsgTx \<Rightarrow> uint32 \<times> txOut \<Rightarrow> bool \<times> 'addr BlockFilterer \<Rightarrow> bool \<times> 'addr BlockFilterer" where
  "filterOutput C tx io rb =
     (case extractAddrs C (PkScript (snd io)) of
        None \<Rightarrow> rb
      | Some addrs \<Rightarrow>
          let (r, bf) = FilterOutputAddrs C addrs (snd rb) in
          if \<not> r then (fst rb, bf)
          else (True, bf\<lparr>FoundOutPoints :=
                 (FoundOutPoints bf)(OutPoint (hashOf C tx) (fst io) \<mapsto> hd addrs)\<rparr>))"

definition FilterTx :: "'addr chainFns \<Rightarrow> MsgTx \<Rightarrow> 'addr BlockFilterer \<Rightarrow> bool \<times> 'addr BlockFilterer" where
  "FilterTx C tx bf =
     (let spends = list_ex (\<lambda>op. bfWatched bf op \<noteq> None \<or> FoundOutPoints bf op \<noteq> None) (TxIn tx)
      in fold (filterOutput C tx) (zip (idxs (TxOut tx)) (TxOut tx)) (spends, bf))"

definition filterBlockTx ::
  "'addr chainFns \<Rightarrow> MsgTx \<Rightarrow> bool \<times> 'addr BlockFilterer \<Rightarrow> bool \<times> 'addr BlockFilterer" where
  "filterBlockTx C tx rb =
     (let (r, bf) = FilterTx C tx (snd rb)
      in if r then (True, bf\<lparr>RelevantTxns := RelevantTxns bf @ [tx]\<rparr>) else (fst rb, bf))"

definition FilterBlock :: "'addr chainFns \<Rightarrow> MsgTx list \<Rightarrow> 'addr BlockFilterer \<Rightarrow> bool \<times> 'addr BlockFilterer" where
  "FilterBlock C txs bf = fold (filterBlockTx C) txs (False, bf)"

record 'addr FilterBlocksResponse =
  BatchIndex :: uint32
  respBlock :: BlockMeta
  FoundExternalAddrs :: foundAddrs
  FoundInternalAddrs :: foundAddrs
  respOutPoints :: "OutPoint \<rightharpoonup> 'addr"
  respTxns :: "MsgTx list"

text \<open>The loop of \<open>FilterBlocks\<close>: \<open>getBlock\<close> fetches a block by its hash (\<open>None\<close>: the request
  fails), the filterer is carried from block to block, \<open>i\<close> is the index in the batch.\<close>

fun filterFrom ::
  "'addr chainFns \<Rightarrow> (hash \<Rightarrow> MsgTx list option) \<Rightarrow> uint32 \<Rightarrow> BlockMeta list \<Rightarrow> 'addr BlockFilterer \<Rightarrow>
   'addr FilterBlocksResponse option option" where
  "filterFrom C getBlock i [] bf = Some None"
| "filterFrom C getBlock i (b # bs) bf =
     (case getBlock (bHash (block b)) of
        None \<Rightarrow> None
      | Some txs \<Rightarrow>
          let (r, bf) = FilterBlock C txs bf in
          if \<not> r then filterFrom C getBlock (i + 1) bs bf
          else Some (Some \<lparr>BatchIndex = i, respBlock = b, FoundExternalAddrs = FoundExternal bf,
                      FoundInternalAddrs = FoundInternal bf, respOutPoints = FoundOutPoints bf,
                      respTxns = RelevantTxns bf\<rparr>))"

definition FilterBlocks ::
  "'addr chainFns \<Rightarrow> (hash \<Rightarrow> MsgTx list option) \<Rightarrow> 'addr FilterBlocksRequest \<Rightarrow>
   'addr FilterBlocksResponse option option" where
  "FilterBlocks C getBlock req = filterFrom C getBlock 0 (reqBlocks req) (NewBlockFilterer C req)"

section \<open>What a block contains\<close>

text \<open>\<open>paysTo\<close>: some output of the transaction pays to an address with this text.\<close>

definition outAddrs :: "'addr chainFns \<Rightarrow> txOut \<Rightarrow> string set" where
  "outAddrs C out = (case extractAddrs C (PkScript out) of None \<Rightarrow> {} | Some addrs \<Rightarrow> enc C ` set addrs)"

definition paysTo :: "'addr chainFns \<Rightarrow> MsgTx \<Rightarrow> string set" where
  "paysTo C tx = (\<Union>out \<in> set (TxOut tx). outAddrs C out)"

text \<open>The outpoints of a transaction whose output pays to one of the addresses \<open>A\<close>, and, in a
  list of transactions, those that pay to \<open>A\<close> or spend from \<open>W\<close> or from such an outpoint of an
  earlier transaction.\<close>

definition ownOuts :: "'addr chainFns \<Rightarrow> string set \<Rightarrow> MsgTx \<Rightarrow> OutPoint set" where
  "ownOuts C A tx =
     {OutPoint (hashOf C tx) i | i out. (i, out) \<in> set (zip (idxs (TxOut tx)) (TxOut tx)) \<and>
        outAddrs C out \<inter> A \<noteq> {}}"

fun relevantTxs :: "'addr chainFns \<Rightarrow> string set \<Rightarrow> OutPoint set \<Rightarrow> MsgTx list \<Rightarrow> MsgTx list" where
  "relevantTxs C A W [] = []"
| "relevantTxs C A W (tx # txs) =
     (if paysTo C tx \<inter> A \<noteq> {} \<or> set (TxIn tx) \<inter> W \<noteq> {} then [tx] else []) @
     relevantTxs C A (W \<union> ownOuts C A tx) txs"

definition foundPairs :: "foundAddrs \<Rightarrow> ScopedIndex set" where
  "foundPairs m = {(sc, i). \<exists>l. (sc, l) \<in> set m \<and> i \<in> set l}"

definition filterKeys :: "'addr BlockFilterer \<Rightarrow> string set" where
  "filterKeys bf = dom (ExReverseFilter bf) \<union> dom (InReverseFilter bf)"

text \<open>A map of found indexes has one entry per scope, with at least one index.\<close>

definition goodFound :: "foundAddrs \<Rightarrow> bool" where
  "goodFound m \<longleftrightarrow> distinct (map fst m) \<and> (\<forall>x \<in> set m. snd x \<noteq> [])"

lemma foundPairs_markFound:
  assumes "goodFound m"
  shows "foundPairs (markFound si m) = insert si (foundPairs m)" "goodFound (markFound si m)"
proof -
  have dm: "distinct (map fst m)" using assms by (simp add: goodFound_def)
  have d: "distinct (map fst (markFound si m))"
    using dm by (simp add: markFound_def Let_def distinct_update)
  have mo: "map_of (markFound si m) = (map_of m)(fst si \<mapsto>
      List.insert (snd si) (case map_of m (fst si) of None \<Rightarrow> [] | Some l \<Rightarrow> l))"
    by (auto simp: markFound_def Let_def update_conv' fun_eq_iff split: option.splits)
  have "l \<noteq> []" if "(sc, l) \<in> set (markFound si m)" for sc l
    using that assms map_of_eq_Some_iff [OF d, of sc l] map_of_SomeD [of m sc l]
    unfolding mo by (auto simp: goodFound_def List.insert_def split: if_splits)
  then show "goodFound (markFound si m)" using d by (auto simp: goodFound_def)
  have fp: "foundPairs m' = {(sc, i). \<exists>l. map_of m' sc = Some l \<and> i \<in> set l}"
    if "distinct (map fst m')" for m'
    using that by (auto simp: foundPairs_def dest: map_of_SomeD)
  show "foundPairs (markFound si m) = insert si (foundPairs m)"
    unfolding fp [OF d] fp [OF dm] mo
    by (cases si) (auto split: if_splits option.splits)
qed

text \<open>What processing a set of address texts \<open>T\<close> and outpoints \<open>P\<close> does to a filterer.\<close>

definition filtered :: "'addr BlockFilterer \<Rightarrow> string set \<Rightarrow> OutPoint set \<Rightarrow> MsgTx list \<Rightarrow> 'addr BlockFilterer \<Rightarrow> bool" where
  "filtered bf T P txs bf' \<longleftrightarrow>
     ExReverseFilter bf' = ExReverseFilter bf \<and> InReverseFilter bf' = InReverseFilter bf \<and>
     bfWatched bf' = bfWatched bf \<and>
     dom (FoundOutPoints bf') = dom (FoundOutPoints bf) \<union> P \<and>
     RelevantTxns bf' = RelevantTxns bf @ txs \<and>
     goodFound (FoundExternal bf') \<and> goodFound (FoundInternal bf') \<and>
     foundPairs (FoundExternal bf') = foundPairs (FoundExternal bf) \<union> {si. \<exists>t \<in> T. ExReverseFilter bf t = Some si} \<and>
     foundPairs (FoundInternal bf') = foundPairs (FoundInternal bf) \<union> {si. \<exists>t \<in> T. InReverseFilter bf t = Some si}"

definition distinctFound :: "'addr BlockFilterer \<Rightarrow> bool" where
  "distinctFound bf \<longleftrightarrow> goodFound (FoundExternal bf) \<and> goodFound (FoundInternal bf)"

lemma filtered_refl: "distinctFound bf \<Longrightarrow> filtered bf {} {} [] bf"
  by (simp add: filtered_def distinctFound_def)

lemma filtered_distinct: "filtered bf T P txs bf' \<Longrightarrow> distinctFound bf'"
  by (simp add: filtered_def distinctFound_def)

lemma filtered_keys: "filtered bf T P txs bf' \<Longrightarrow> filterKeys bf' = filterKeys bf"
  by (simp add: filtered_def filterKeys_def)

lemma filtered_trans:
  assumes "filtered bf T P txs bf1" "filtered bf1 T' P' txs' bf2"
  shows "filtered bf (T \<union> T') (P \<union> P') (txs @ txs') bf2"
  using assms unfolding filtered_def by auto

lemma filterAddr_filtered:
  assumes "distinctFound bf"
  shows "\<exists>bf'. filterAddr C a (r, bf) = (r \<or> enc C a \<in> filterKeys bf, bf') \<and>
     filtered bf {enc C a} {} [] bf'"
proof -
  have d: "goodFound (FoundExternal bf)" "goodFound (FoundInternal bf)"
    using assms by (auto simp: distinctFound_def)
  show ?thesis
    by (cases "ExReverseFilter bf (enc C a)"; cases "InReverseFilter bf (enc C a)")
      (simp_all add: filterAddr_def foundExternal_def foundInternal_def filterKeys_def filtered_def d
        foundPairs_markFound domIff)
qed

lemma filterAddrs_filtered:
  assumes "distinctFound bf"
  shows "\<exists>bf'. fold (filterAddr C) addrs (r, bf) =
       (r \<or> enc C ` set addrs \<inter> filterKeys bf \<noteq> {}, bf') \<and>
     filtered bf (enc C ` set addrs) {} [] bf'"
  using assms
proof (induction addrs arbitrary: r bf)
  case Nil
  then show ?case by (simp add: filtered_refl)
next
  case (Cons a addrs)
  obtain bf1 where s: "filterAddr C a (r, bf) = (r \<or> enc C a \<in> filterKeys bf, bf1)"
    "filtered bf {enc C a} {} [] bf1"
    using filterAddr_filtered [OF Cons.prems] by blast
  obtain bf2 where t: "fold (filterAddr C) addrs (r \<or> enc C a \<in> filterKeys bf, bf1) =
       ((r \<or> enc C a \<in> filterKeys bf) \<or> enc C ` set addrs \<inter> filterKeys bf1 \<noteq> {}, bf2)"
    "filtered bf1 (enc C ` set addrs) {} [] bf2"
    using Cons.IH [OF filtered_distinct [OF s(2)]] by blast
  have "filtered bf (enc C ` set (a # addrs)) {} [] bf2"
    using filtered_trans [OF s(2) t(2)] by simp
  then show ?case using s(1) t(1) filtered_keys [OF s(2)] by auto
qed

lemma filterOutput_filtered:
  assumes "distinctFound bf"
  shows "\<exists>bf'. filterOutput C tx (i, out) (r, bf) = (r \<or> outAddrs C out \<inter> filterKeys bf \<noteq> {}, bf') \<and>
     filtered bf (outAddrs C out)
       (if outAddrs C out \<inter> filterKeys bf \<noteq> {} then {OutPoint (hashOf C tx) i} else {}) [] bf'"
proof (cases "extractAddrs C (PkScript out)")
  case None
  then show ?thesis using assms by (simp add: filterOutput_def outAddrs_def filtered_refl)
next
  case (Some addrs)
  obtain bf1 where s: "fold (filterAddr C) addrs (False, bf) =
       (enc C ` set addrs \<inter> filterKeys bf \<noteq> {}, bf1)" "filtered bf (enc C ` set addrs) {} [] bf1"
    using filterAddrs_filtered [OF assms, of C addrs False] by auto
  have "filtered bf1 {} {op} [] (bf1\<lparr>FoundOutPoints := (FoundOutPoints bf1)(op \<mapsto> a)\<rparr>)" for op a
    using filtered_distinct [OF s(2)] by (simp add: filtered_def distinctFound_def)
  from filtered_trans [OF s(2) this] s show ?thesis
    using Some by (auto simp: filterOutput_def FilterOutputAddrs_def outAddrs_def)
qed

lemma filterOutputs_filtered:
  assumes "distinctFound bf"
  shows "\<exists>bf'. fold (filterOutput C tx) ios (r, bf) =
       (r \<or> (\<Union>io \<in> set ios. outAddrs C (snd io)) \<inter> filterKeys bf \<noteq> {}, bf') \<and>
     filtered bf (\<Union>io \<in> set ios. outAddrs C (snd io))
       {OutPoint (hashOf C tx) i | i out. (i, out) \<in> set ios \<and> outAddrs C out \<inter> filterKeys bf \<noteq> {}} [] bf'"
  using assms
proof (induction ios arbitrary: r bf)
  case Nil
  then show ?case by (simp add: filtered_refl)
next
  case (Cons io ios)
  obtain i out where io: "io = (i, out)" by (cases io)
  define r1 where "r1 = (r \<or> outAddrs C out \<inter> filterKeys bf \<noteq> {})"
  obtain bf1 where s: "filterOutput C tx io (r, bf) = (r1, bf1)"
    "filtered bf (outAddrs C out)
       (if outAddrs C out \<inter> filterKeys bf \<noteq> {} then {OutPoint (hashOf C tx) i} else {}) [] bf1"
    using filterOutput_filtered [OF Cons.prems] unfolding io r1_def by blast
  obtain bf2 where t: "fold (filterOutput C tx) ios (r1, bf1) =
       (r1 \<or> (\<Union>io \<in> set ios. outAddrs C (snd io)) \<inter> filterKeys bf1 \<noteq> {}, bf2)"
    "filtered bf1 (\<Union>io \<in> set ios. outAddrs C (snd io))
       {OutPoint (hashOf C tx) i | i out. (i, out) \<in> set ios \<and> outAddrs C out \<inter> filterKeys bf1 \<noteq> {}} [] bf2"
    using Cons.IH [OF filtered_distinct [OF s(2)]] by blast
  have k: "filterKeys bf1 = filterKeys bf" by (rule filtered_keys [OF s(2)])
  have "{OutPoint (hashOf C tx) j | j out. (j, out) \<in> set (io # ios) \<and> outAddrs C out \<inter> filterKeys bf \<noteq> {}} =
      (if outAddrs C out \<inter> filterKeys bf \<noteq> {} then {OutPoint (hashOf C tx) i} else {}) \<union>
      {OutPoint (hashOf C tx) i | i out. (i, out) \<in> set ios \<and> outAddrs C out \<inter> filterKeys bf1 \<noteq> {}}"
    by (auto simp: io k)
  then show ?case
    using filtered_trans [OF s(2) t(2)] s(1) t(1) by (auto simp: io k r1_def)
qed

lemma txouts_zip: "(\<Union>io \<in> set (zip (idxs outs) outs). outAddrs C (snd io)) = (\<Union>out \<in> set outs. outAddrs C out)"
proof -
  have "snd ` set (zip (idxs outs) outs) = set outs"
    by (metis idxs_def length_map length_upt map_snd_zip minus_nat.diff_0 set_map)
  then have "\<Union> (outAddrs C ` snd ` set (zip (idxs outs) outs)) = \<Union> (outAddrs C ` set outs)"
    by simp
  then show ?thesis by (simp add: image_image)
qed

lemma FilterTx_filtered:
  assumes "distinctFound bf"
  shows "\<exists>bf'. FilterTx C tx bf =
       (paysTo C tx \<inter> filterKeys bf \<noteq> {} \<or>
        set (TxIn tx) \<inter> (dom (bfWatched bf) \<union> dom (FoundOutPoints bf)) \<noteq> {}, bf') \<and>
     filtered bf (paysTo C tx) (ownOuts C (filterKeys bf) tx) [] bf'"
proof -
  define sp where "sp = list_ex (\<lambda>op. bfWatched bf op \<noteq> None \<or> FoundOutPoints bf op \<noteq> None) (TxIn tx)"
  have sp: "sp \<longleftrightarrow> set (TxIn tx) \<inter> (dom (bfWatched bf) \<union> dom (FoundOutPoints bf)) \<noteq> {}"
    unfolding sp_def list_ex_iff by blast
  show ?thesis
    using filterOutputs_filtered [OF assms, of C tx "zip (idxs (TxOut tx)) (TxOut tx)" sp]
    unfolding txouts_zip FilterTx_def Let_def sp_def [symmetric] paysTo_def [symmetric]
      ownOuts_def [symmetric] sp by (simp add: disj_commute)
qed

lemma filterBlock_filtered:
  assumes "distinctFound bf" "W = dom (bfWatched bf) \<union> dom (FoundOutPoints bf)"
  shows "\<exists>bf'. fold (filterBlockTx C) txs (r, bf) =
       (r \<or> relevantTxs C (filterKeys bf) W txs \<noteq> [], bf') \<and>
     filtered bf (\<Union>tx \<in> set txs. paysTo C tx) (\<Union>tx \<in> set txs. ownOuts C (filterKeys bf) tx)
       (relevantTxs C (filterKeys bf) W txs) bf'"
  using assms
proof (induction txs arbitrary: r bf W)
  case Nil
  then show ?case by (simp add: filtered_refl)
next
  case (Cons tx txs)
  define rel where "rel \<longleftrightarrow> paysTo C tx \<inter> filterKeys bf \<noteq> {} \<or> set (TxIn tx) \<inter> W \<noteq> {}"
  obtain bf0 where f: "FilterTx C tx bf = (rel, bf0)"
    "filtered bf (paysTo C tx) (ownOuts C (filterKeys bf) tx) [] bf0"
    using FilterTx_filtered [OF Cons.prems(1)] unfolding rel_def Cons.prems(2) by blast
  define bf1 where "bf1 = (if rel then bf0\<lparr>RelevantTxns := RelevantTxns bf0 @ [tx]\<rparr> else bf0)"
  have s: "filterBlockTx C tx (r, bf) = (r \<or> rel, bf1)"
    by (simp add: filterBlockTx_def f bf1_def)
  have f1: "filtered bf (paysTo C tx) (ownOuts C (filterKeys bf) tx) (if rel then [tx] else []) bf1"
    using f(2) by (simp add: bf1_def filtered_def)
  have k: "filterKeys bf1 = filterKeys bf" by (rule filtered_keys [OF f1])
  have W1: "W \<union> ownOuts C (filterKeys bf) tx = dom (bfWatched bf1) \<union> dom (FoundOutPoints bf1)"
    using f1 Cons.prems(2) by (auto simp: filtered_def)
  obtain bf2 where t: "fold (filterBlockTx C) txs (r \<or> rel, bf1) =
       ((r \<or> rel) \<or> relevantTxs C (filterKeys bf) (W \<union> ownOuts C (filterKeys bf) tx) txs \<noteq> [], bf2)"
    "filtered bf1 (\<Union>tx \<in> set txs. paysTo C tx) (\<Union>tx \<in> set txs. ownOuts C (filterKeys bf) tx)
       (relevantTxs C (filterKeys bf) (W \<union> ownOuts C (filterKeys bf) tx) txs) bf2"
    using Cons.IH [OF filtered_distinct [OF f1] W1, of "r \<or> rel"] unfolding k by blast
  have "relevantTxs C (filterKeys bf) W (tx # txs) =
      (if rel then [tx] else []) @ relevantTxs C (filterKeys bf) (W \<union> ownOuts C (filterKeys bf) tx) txs"
    by (simp add: rel_def)
  then show ?case using filtered_trans [OF f1 t(2)] s t(1) by auto
qed

section \<open>The reverse index\<close>

lemma reverseFilter_snoc:
  "reverseFilter C (addrs @ [(si, a)]) = (reverseFilter C addrs)(enc C a \<mapsto> si)"
  by (simp add: reverseFilter_def)

lemma reverseFilter_dom: "dom (reverseFilter C addrs) = enc C ` snd ` set addrs"
proof (induction addrs rule: rev_induct)
  case Nil
  then show ?case by (simp add: reverseFilter_def)
next
  case (snoc x xs)
  obtain si a where x: "x = (si, a)" by (cases x)
  show ?case unfolding x reverseFilter_snoc dom_fun_upd snoc.IH by simp
qed

text \<open>The addresses asked for have different texts, so each text leads back to its index.\<close>

definition encOk :: "'addr chainFns \<Rightarrow> (ScopedIndex \<times> 'addr) list \<Rightarrow> bool" where
  "encOk C addrs \<longleftrightarrow> (\<forall>(si, a) \<in> set addrs. \<forall>(si', a') \<in> set addrs. enc C a = enc C a' \<longrightarrow> si = si')"

lemma reverseFilter_Some:
  assumes "encOk C addrs"
  shows "reverseFilter C addrs t = Some si \<longleftrightarrow> (\<exists>a. (si, a) \<in> set addrs \<and> enc C a = t)"
  using assms
proof (induction addrs rule: rev_induct)
  case Nil
  then show ?case by (simp add: reverseFilter_def)
next
  case (snoc x xs)
  obtain sj b where x: "x = (sj, b)" by (cases x)
  have "encOk C xs" using snoc.prems by (auto simp: encOk_def)
  note IH = snoc.IH [OF this]
  show ?case
  proof (cases "t = enc C b")
    case True
    then show ?thesis using snoc.prems by (auto simp: x reverseFilter_snoc encOk_def)
  next
    case False
    then show ?thesis using IH by (auto simp: x reverseFilter_snoc)
  qed
qed

section \<open>The first relevant block\<close>

lemma relevantTxs_Nil:
  assumes "relevantTxs C A W txs = []"
  shows "(\<Union>tx \<in> set txs. paysTo C tx) \<inter> A = {}" "(\<Union>tx \<in> set txs. ownOuts C A tx) = {}"
proof -
  show p: "(\<Union>tx \<in> set txs. paysTo C tx) \<inter> A = {}"
    using assms by (induction txs arbitrary: W) (auto split: if_splits)
  have "ownOuts C A tx = {}" if "tx \<in> set txs" for tx
    using p that by (fastforce simp: ownOuts_def paysTo_def dest: set_zip_rightD)
  then show "(\<Union>tx \<in> set txs. ownOuts C A tx) = {}" by simp
qed

lemma filtered_irrelevant:
  assumes "filtered bf T P txs bf'" "T \<inter> filterKeys bf = {}" "P = {}" "txs = []"
  shows "filtered bf {} {} [] bf'"
proof -
  have "ExReverseFilter bf t = None" "InReverseFilter bf t = None" if "t \<in> T" for t
    using assms(2) that by (auto simp: filterKeys_def)
  then show ?thesis using assms(1,3,4) by (auto simp: filtered_def)
qed

text \<open>The response to a request: the index of the first block with a relevant transaction, and
  all that this block holds for the wallet.\<close>

definition answers ::
  "'addr chainFns \<Rightarrow> (BlockMeta \<Rightarrow> MsgTx list) \<Rightarrow> 'addr BlockFilterer \<Rightarrow> uint32 \<Rightarrow> BlockMeta list \<Rightarrow>
   'addr FilterBlocksResponse option \<Rightarrow> bool" where
  "answers C txsOf bf i bs resp \<longleftrightarrow>
     (let A = filterKeys bf; W = dom (bfWatched bf);
          pre = takeWhile (\<lambda>b. relevantTxs C A W (txsOf b) = []) bs
      in case dropWhile (\<lambda>b. relevantTxs C A W (txsOf b) = []) bs of
           [] \<Rightarrow> resp = None
         | b # post \<Rightarrow> \<exists>r. resp = Some r \<and> BatchIndex r = i + of_nat (length pre) \<and> respBlock r = b \<and>
             respTxns r = relevantTxs C A W (txsOf b) \<and>
             dom (respOutPoints r) = (\<Union>tx \<in> set (txsOf b). ownOuts C A tx) \<and>
             goodFound (FoundExternalAddrs r) \<and> goodFound (FoundInternalAddrs r) \<and>
             foundPairs (FoundExternalAddrs r) =
               {si. \<exists>tx \<in> set (txsOf b). \<exists>t \<in> paysTo C tx. ExReverseFilter bf t = Some si} \<and>
             foundPairs (FoundInternalAddrs r) =
               {si. \<exists>tx \<in> set (txsOf b). \<exists>t \<in> paysTo C tx. InReverseFilter bf t = Some si})"

definition fresh :: "'addr BlockFilterer \<Rightarrow> bool" where
  "fresh bf \<longleftrightarrow> distinctFound bf \<and> dom (FoundOutPoints bf) = {} \<and> RelevantTxns bf = [] \<and>
     foundPairs (FoundExternal bf) = {} \<and> foundPairs (FoundInternal bf) = {}"

lemma filterFrom_answers:
  assumes "fresh bf" and "\<And>b. b \<in> set bs \<Longrightarrow> getBlock (bHash (block b)) = Some (txsOf b)"
  shows "\<exists>resp. filterFrom C getBlock i bs bf = Some resp \<and> answers C txsOf bf i bs resp"
  using assms
proof (induction bs arbitrary: i bf)
  case Nil
  then show ?case by (simp add: answers_def)
next
  case (Cons b bs)
  define A where "A = filterKeys bf"
  define W where "W = dom (bfWatched bf)"
  define rel where "rel = relevantTxs C A W (txsOf b)"
  have d: "distinctFound bf" "W = dom (bfWatched bf) \<union> dom (FoundOutPoints bf)"
    using Cons.prems(1) by (auto simp: fresh_def W_def)
  obtain bf1 where f: "FilterBlock C (txsOf b) bf = (rel \<noteq> [], bf1)"
    "filtered bf (\<Union>tx \<in> set (txsOf b). paysTo C tx) (\<Union>tx \<in> set (txsOf b). ownOuts C A tx) rel bf1"
    using filterBlock_filtered [OF d, of C "txsOf b" False]
    unfolding rel_def A_def FilterBlock_def by (elim exE conjE) simp
  show ?case
  proof (cases "rel = []")
    case True
    note irr = relevantTxs_Nil [OF True [unfolded rel_def]]
    have same: "filtered bf {} {} [] bf1"
      using filtered_irrelevant [OF f(2)] True irr by (simp add: A_def)
    have k: "filterKeys bf1 = A" "bfWatched bf1 = bfWatched bf" "fresh bf1"
      "ExReverseFilter bf1 = ExReverseFilter bf" "InReverseFilter bf1 = InReverseFilter bf"
      using same Cons.prems(1) by (auto simp: filtered_def fresh_def distinctFound_def A_def filterKeys_def)
    obtain resp where r: "filterFrom C getBlock (i + 1) bs bf1 = Some resp" "answers C txsOf bf1 (i + 1) bs resp"
      using Cons.IH [OF k(3)] Cons.prems(2) by (meson list.set_intros(2))
    have "answers C txsOf bf i (b # bs) resp"
      using r(2) True by (simp add: answers_def k rel_def W_def add.assoc A_def [symmetric] cong: list.case_cong)
    then show ?thesis using r(1) f(1) True Cons.prems(2) [of b] by simp
  next
    case False
    then show ?thesis
      using f Cons.prems
      by (simp add: answers_def fresh_def filtered_def rel_def [symmetric] A_def [symmetric]
          W_def [symmetric])
  qed
qed

lemma NewBlockFilterer_fresh: "fresh (NewBlockFilterer C req)"
  by (simp add: fresh_def NewBlockFilterer_def distinctFound_def foundPairs_def goodFound_def)

lemma FilterBlocks_answers:
  assumes "\<And>b. b \<in> set (reqBlocks req) \<Longrightarrow> getBlock (bHash (block b)) = Some (txsOf b)"
  shows "\<exists>resp. FilterBlocks C getBlock req = Some resp \<and>
     answers C txsOf (NewBlockFilterer C req) 0 (reqBlocks req) resp"
  unfolding FilterBlocks_def by (rule filterFrom_answers [OF NewBlockFilterer_fresh]) (rule assms)

lemma filterKeys_New:
  "filterKeys (NewBlockFilterer C req) = enc C ` snd ` (set (ExternalAddrs req) \<union> set (InternalAddrs req))"
  by (simp add: filterKeys_def NewBlockFilterer_def reverseFilter_dom image_Un)

section \<open>The scan is exact\<close>


text \<open>A chain of two blocks: the second pays to the address \<open>a\<close>, which index 7 of scope 84 derives,
  and then spends that output.\<close>

definition demoChain :: "string chainFns" where
  "demoChain = \<lparr>extractAddrs = (\<lambda>s. if s = [1] then Some [''a''] else if s = [2] then Some [''b''] else None),
     enc = (\<lambda>a. a), hashOf = (\<lambda>tx. of_nat (length (TxOut tx)))\<rparr>"

definition demoPaying :: MsgTx where
  "demoPaying = \<lparr>TxIn = [], TxOut = [\<lparr>Value = 5, PkScript = [1]\<rparr>]\<rparr>"
definition demoSpending :: MsgTx where
  "demoSpending = \<lparr>TxIn = [OutPoint 1 0], TxOut = [\<lparr>Value = 5, PkScript = [2]\<rparr>, \<lparr>Value = 0, PkScript = []\<rparr>]\<rparr>"
definition demoOther :: MsgTx where
  "demoOther = \<lparr>TxIn = [OutPoint 9 0], TxOut = [\<lparr>Value = 5, PkScript = [2]\<rparr>]\<rparr>"

definition scanBlock :: "uint32 \<Rightarrow> BlockMeta" where
  "scanBlock h = \<lparr>block = Block h (ucast h), btime = 0\<rparr>"

definition demoGetBlock :: "hash \<Rightarrow> MsgTx list option" where
  "demoGetBlock h = (if h = 1 then Some [demoOther] else if h = 2 then Some [demoPaying, demoSpending] else None)"

definition demoReq :: "string FilterBlocksRequest" where
  "demoReq = \<lparr>reqBlocks = [scanBlock 1, scanBlock 2], ExternalAddrs = [(((84, 0), 7), ''a'')],
     InternalAddrs = [], reqWatched = Map.empty\<rparr>"

lemmas demoChain_defs = demoChain_def demoPaying_def demoSpending_def demoOther_def scanBlock_def
  demoGetBlock_def demoReq_def


end
