(* ===== verification/Recovery.thy ===== *)
theory Recovery
  imports Blockfilter Wtx_Balance
begin

text \<open>
  Recovering a wallet from its seed: the look-ahead state of \<^verbatim>\<open>wallet/recovery.go\<close> and the scan of
  a batch of blocks in \<^verbatim>\<open>wallet/wallet.go\<close> (\<open>expandScopeHorizons\<close>, \<open>newFilterBlocksRequest\<close>,
  \<open>extendFoundAddresses\<close>, \<open>recoverScopedAddresses\<close>).  Key derivation and the operations of the
  address manager and of the transaction store that the scan calls are parameters, collected
  in \<open>recoveryEnv\<close>; \<open>'w\<close> is the state they change.  Indexes are \<open>uint32\<close> and wrap around.
\<close>

section \<open>Branches\<close>

record 'addr BranchRecoveryState =
  brWindow :: uint32
  horizon :: uint32
  nextUnfound :: uint32
  addresses :: "(uint32 \<times> 'addr) list"
  invalidChildren :: "uint32 list"

definition NewBranchRecoveryState :: "uint32 \<Rightarrow> 'addr BranchRecoveryState" where
  "NewBranchRecoveryState recoveryWindow =
     \<lparr>brWindow = recoveryWindow, horizon = 0, nextUnfound = 0, addresses = [], invalidChildren = []\<rparr>"

definition NumInvalidInHorizon :: "'addr BranchRecoveryState \<Rightarrow> uint32" where
  "NumInvalidInHorizon b =
     of_nat (length (filter (\<lambda>i. nextUnfound b \<le> i \<and> i < horizon b) (invalidChildren b)))"

definition ExtendHorizon :: "'addr BranchRecoveryState \<Rightarrow> (uint32 \<times> uint32) \<times> 'addr BranchRecoveryState" where
  "ExtendHorizon b =
     (let curHorizon = horizon b;
          minValidHorizon = nextUnfound b + brWindow b + NumInvalidInHorizon b
      in if curHorizon \<ge> minValidHorizon then ((curHorizon, 0), b)
         else ((curHorizon, minValidHorizon - curHorizon), b\<lparr>horizon := minValidHorizon\<rparr>))"

definition AddAddr :: "uint32 \<Rightarrow> 'addr \<Rightarrow> 'addr BranchRecoveryState \<Rightarrow> 'addr BranchRecoveryState" where
  "AddAddr i a b = b\<lparr>addresses := AList.update i a (addresses b)\<rparr>"

definition GetAddr :: "uint32 \<Rightarrow> 'addr BranchRecoveryState \<Rightarrow> 'addr option" where
  "GetAddr i b = map_of (addresses b) i"

definition ReportFound :: "uint32 \<Rightarrow> 'addr BranchRecoveryState \<Rightarrow> 'addr BranchRecoveryState" where
  "ReportFound i b =
     (if i \<ge> nextUnfound b
      then b\<lparr>nextUnfound := i + 1, invalidChildren := filter (\<lambda>c. \<not> c < i) (invalidChildren b)\<rparr>
      else b)"

definition MarkInvalidChild :: "uint32 \<Rightarrow> 'addr BranchRecoveryState \<Rightarrow> 'addr BranchRecoveryState" where
  "MarkInvalidChild i b =
     b\<lparr>invalidChildren := List.insert i (invalidChildren b), horizon := horizon b + 1\<rparr>"

section \<open>Scopes\<close>

record 'addr ScopeRecoveryState =
  ExternalBranch :: "'addr BranchRecoveryState"
  InternalBranch :: "'addr BranchRecoveryState"

record 'addr RecoveryState =
  rsWindow :: uint32
  scopes :: "KeyScope \<rightharpoonup> 'addr ScopeRecoveryState"
  watchedOutPoints :: "OutPoint \<rightharpoonup> 'addr"

definition NewScopeRecoveryState :: "uint32 \<Rightarrow> 'addr ScopeRecoveryState" where
  "NewScopeRecoveryState w =
     \<lparr>ExternalBranch = NewBranchRecoveryState w, InternalBranch = NewBranchRecoveryState w\<rparr>"

definition NewRecoveryState :: "uint32 \<Rightarrow> 'addr RecoveryState" where
  "NewRecoveryState w = \<lparr>rsWindow = w, scopes = Map.empty, watchedOutPoints = Map.empty\<rparr>"

definition StateForScope ::
  "KeyScope \<Rightarrow> 'addr RecoveryState \<Rightarrow> 'addr ScopeRecoveryState \<times> 'addr RecoveryState" where
  "StateForScope sc rs =
     (case scopes rs sc of
        Some st \<Rightarrow> (st, rs)
      | None \<Rightarrow> let st = NewScopeRecoveryState (rsWindow rs)
                in (st, rs\<lparr>scopes := (scopes rs)(sc \<mapsto> st)\<rparr>))"

definition AddWatchedOutPoint :: "OutPoint \<Rightarrow> 'addr \<Rightarrow> 'addr RecoveryState \<Rightarrow> 'addr RecoveryState" where
  "AddWatchedOutPoint op a rs = rs\<lparr>watchedOutPoints := (watchedOutPoints rs)(op \<mapsto> a)\<rparr>"

text \<open>A branch is named by whether it is the internal one.\<close>

definition branchOf :: "bool \<Rightarrow> 'addr ScopeRecoveryState \<Rightarrow> 'addr BranchRecoveryState" where
  "branchOf internal st = (if internal then InternalBranch st else ExternalBranch st)"

definition putBranch ::
  "bool \<Rightarrow> 'addr BranchRecoveryState \<Rightarrow> 'addr ScopeRecoveryState \<Rightarrow> 'addr ScopeRecoveryState" where
  "putBranch internal b st = (if internal then st\<lparr>InternalBranch := b\<rparr> else st\<lparr>ExternalBranch := b\<rparr>)"

section \<open>The environment\<close>

datatype recovery_error =
    DeriveFailed | ManagerFailed | BlockFetchFailed | TxFailed | ScriptFailed | RecoveryPanic

record ('addr, 'w) recoveryEnv =
  chainFns :: "'addr chainFns"
  getBlock :: "hash \<Rightarrow> MsgTx list option"
  deriveKey :: "KeyScope \<Rightarrow> bool \<Rightarrow> uint32 \<Rightarrow> 'addr deriveResult"
  keyCount :: "KeyScope \<Rightarrow> bool \<Rightarrow> uint32 option"
  extendAddresses :: "KeyScope \<Rightarrow> bool \<Rightarrow> uint32 \<Rightarrow> 'w \<Rightarrow> 'w option"
  markUsed :: "KeyScope \<Rightarrow> 'addr option \<Rightarrow> 'w \<Rightarrow> 'w option"
  addRelevant :: "MsgTx \<Rightarrow> BlockMeta \<Rightarrow> 'w \<Rightarrow> 'w option"

section \<open>Resuming a recovery\<close>

definition resurrectIndex ::
  "(uint32 \<Rightarrow> 'addr deriveResult) \<Rightarrow> uint32 \<Rightarrow> 'addr BranchRecoveryState \<Rightarrow>
   recovery_error + 'addr BranchRecoveryState" where
  "resurrectIndex derive i b =
     (case derive i of
        DeriveError \<Rightarrow> Inl DeriveFailed
      | InvalidChild \<Rightarrow> Inr (MarkInvalidChild i b)
      | Derived a \<Rightarrow> Inr (AddAddr i a b))"

definition resurrectBranch ::
  "(uint32 \<Rightarrow> 'addr deriveResult) \<Rightarrow> uint32 \<Rightarrow> 'addr BranchRecoveryState \<Rightarrow>
   recovery_error + 'addr BranchRecoveryState" where
  "resurrectBranch derive count b =
     fold_err (resurrectIndex derive) (map of_nat [0..<unat count]) b"

definition reportLast :: "uint32 \<Rightarrow> 'addr BranchRecoveryState \<Rightarrow> 'addr BranchRecoveryState" where
  "reportLast count b = (if count > 0 then ReportFound (count - 1) b else b)"

definition resurrectScope ::
  "('addr, 'w) recoveryEnv \<Rightarrow> KeyScope \<Rightarrow> 'addr RecoveryState \<Rightarrow> recovery_error + 'addr RecoveryState" where
  "resurrectScope E sc rs =
     (let (st, rs) = StateForScope sc rs in
      case (keyCount E sc False, keyCount E sc True) of
        (Some exCount, Some inCount) \<Rightarrow>
          (case resurrectBranch (deriveKey E sc False) exCount (ExternalBranch st) of
             Inl e \<Rightarrow> Inl e
           | Inr ex \<Rightarrow>
               (case resurrectBranch (deriveKey E sc True) inCount (InternalBranch st) of
                  Inl e \<Rightarrow> Inl e
                | Inr inn \<Rightarrow>
                    Inr (rs\<lparr>scopes := (scopes rs)(sc \<mapsto>
                      \<lparr>ExternalBranch = reportLast exCount ex, InternalBranch = reportLast inCount inn\<rparr>)\<rparr>)))
      | _ \<Rightarrow> Inl ManagerFailed)"

definition watchCredit ::
  "('addr, 'w) recoveryEnv \<Rightarrow> CreditOut \<Rightarrow> 'addr RecoveryState \<Rightarrow> recovery_error + 'addr RecoveryState" where
  "watchCredit E c rs =
     (case extractAddrs (chainFns E) (coPkScript c) of
        None \<Rightarrow> Inl ScriptFailed
      | Some [] \<Rightarrow> Inl RecoveryPanic
      | Some (a # as) \<Rightarrow> Inr (AddWatchedOutPoint (coOutPoint c) a rs))"

definition Resurrect ::
  "('addr, 'w) recoveryEnv \<Rightarrow> KeyScope list \<Rightarrow> CreditOut list \<Rightarrow> 'addr RecoveryState \<Rightarrow>
   recovery_error + 'addr RecoveryState" where
  "Resurrect E scopedMgrs creds rs =
     (case fold_err (resurrectScope E) scopedMgrs rs of
        Inl e \<Rightarrow> Inl e
      | Inr rs \<Rightarrow> fold_err (watchCredit E) creds rs)"

section \<open>Expanding the horizons\<close>

text \<open>The loop that derives the addresses up to the new horizon.  It does not return when it runs
  out of valid children: then the value is \<open>None\<close>.\<close>

partial_function (option) deriveWindow ::
  "(uint32 \<Rightarrow> 'addr deriveResult) \<Rightarrow> uint32 \<Rightarrow> uint32 \<Rightarrow> uint32 \<Rightarrow> 'addr BranchRecoveryState \<Rightarrow>
   (recovery_error + 'addr BranchRecoveryState) option" where
  "deriveWindow derive window count childIndex b =
     (if count < window then
        (case derive childIndex of
           InvalidChild \<Rightarrow> deriveWindow derive window count (childIndex + 1) (MarkInvalidChild childIndex b)
         | DeriveError \<Rightarrow> Some (Inl DeriveFailed)
         | Derived a \<Rightarrow> deriveWindow derive window (count + 1) (childIndex + 1) (AddAddr childIndex a b))
      else Some (Inr b))"

definition expandBranch ::
  "(uint32 \<Rightarrow> 'addr deriveResult) \<Rightarrow> 'addr BranchRecoveryState \<Rightarrow>
   (recovery_error + 'addr BranchRecoveryState) option" where
  "expandBranch derive b =
     (let ((start, window), b) = ExtendHorizon b in deriveWindow derive window 0 start b)"

definition expandScopeHorizons ::
  "(bool \<Rightarrow> uint32 \<Rightarrow> 'addr deriveResult) \<Rightarrow> 'addr ScopeRecoveryState \<Rightarrow>
   (recovery_error + 'addr ScopeRecoveryState) option" where
  "expandScopeHorizons derive st =
     (case expandBranch (derive False) (ExternalBranch st) of
        None \<Rightarrow> None
      | Some (Inl e) \<Rightarrow> Some (Inl e)
      | Some (Inr ex) \<Rightarrow>
          (case expandBranch (derive True) (InternalBranch st) of
             None \<Rightarrow> None
           | Some (Inl e) \<Rightarrow> Some (Inl e)
           | Some (Inr inn) \<Rightarrow> Some (Inr \<lparr>ExternalBranch = ex, InternalBranch = inn\<rparr>)))"

fun expandAll ::
  "('addr, 'w) recoveryEnv \<Rightarrow> KeyScope list \<Rightarrow> 'addr RecoveryState \<Rightarrow>
   (recovery_error + 'addr RecoveryState) option" where
  "expandAll E [] rs = Some (Inr rs)"
| "expandAll E (sc # scs) rs =
     (let (st, rs) = StateForScope sc rs in
      case expandScopeHorizons (deriveKey E sc) st of
        None \<Rightarrow> None
      | Some (Inl e) \<Rightarrow> Some (Inl e)
      | Some (Inr st) \<Rightarrow> expandAll E scs (rs\<lparr>scopes := (scopes rs)(sc \<mapsto> st)\<rparr>))"

section \<open>Scanning a batch\<close>

definition scopeAddrs :: "bool \<Rightarrow> KeyScope list \<Rightarrow> 'addr RecoveryState \<Rightarrow> (ScopedIndex \<times> 'addr) list" where
  "scopeAddrs internal scs rs =
     concat (map (\<lambda>sc. map (\<lambda>(i, a). ((sc, i), a)) (addresses (branchOf internal (fst (StateForScope sc rs))))) scs)"

definition newFilterBlocksRequest ::
  "BlockMeta list \<Rightarrow> KeyScope list \<Rightarrow> 'addr RecoveryState \<Rightarrow> 'addr FilterBlocksRequest" where
  "newFilterBlocksRequest batch scs rs =
     \<lparr>reqBlocks = batch, ExternalAddrs = scopeAddrs False scs rs, InternalAddrs = scopeAddrs True scs rs,
      reqWatched = watchedOutPoints rs\<rparr>"

definition reportScope ::
  "('addr, 'w) recoveryEnv \<Rightarrow> KeyScope list \<Rightarrow> bool \<Rightarrow> KeyScope \<times> uint32 list \<Rightarrow> 'addr RecoveryState \<times> 'w \<Rightarrow>
   recovery_error + ('addr RecoveryState \<times> 'w)" where
  "reportScope E scopedMgrs internal found rw =
     (let (sc, indexes) = found; (rs, w) = rw;
          (st, rs) = StateForScope sc rs;
          b = fold ReportFound indexes (branchOf internal st);
          rs = rs\<lparr>scopes := (scopes rs)(sc \<mapsto> putBranch internal b st)\<rparr>;
          lastFound = (if nextUnfound b > 0 then nextUnfound b - 1 else nextUnfound b)
      in if sc \<notin> set scopedMgrs then Inl RecoveryPanic
         else case extendAddresses E sc internal lastFound w of
                None \<Rightarrow> Inl ManagerFailed
              | Some w \<Rightarrow>
                  (case fold_err (\<lambda>i w. case markUsed E sc (GetAddr i b) w of
                                          None \<Rightarrow> Inl ManagerFailed | Some w \<Rightarrow> Inr w) indexes w of
                     Inl e \<Rightarrow> Inl e
                   | Inr w \<Rightarrow> Inr (rs, w)))"

text \<open>\<open>visit\<close> is the order in which Go visits the entries of a map.\<close>

definition extendFoundAddresses ::
  "('addr, 'w) recoveryEnv \<Rightarrow> (foundAddrs \<Rightarrow> foundAddrs) \<Rightarrow> KeyScope list \<Rightarrow> 'addr FilterBlocksResponse \<Rightarrow>
   'addr RecoveryState \<times> 'w \<Rightarrow> recovery_error + ('addr RecoveryState \<times> 'w)" where
  "extendFoundAddresses E visit scopedMgrs resp rw =
     (case fold_err (reportScope E scopedMgrs False) (visit (FoundExternalAddrs resp)) rw of
        Inl e \<Rightarrow> Inl e
      | Inr rw \<Rightarrow> fold_err (reportScope E scopedMgrs True) (visit (FoundInternalAddrs resp)) rw)"

definition watchFound :: "(OutPoint \<rightharpoonup> 'addr) \<Rightarrow> 'addr RecoveryState \<Rightarrow> 'addr RecoveryState" where
  "watchFound found rs = rs\<lparr>watchedOutPoints := watchedOutPoints rs ++ found\<rparr>"

definition addFound ::
  "('addr, 'w) recoveryEnv \<Rightarrow> BlockMeta \<Rightarrow> MsgTx list \<Rightarrow> 'w \<Rightarrow> recovery_error + 'w" where
  "addFound E b txs w =
     fold_err (\<lambda>tx w. case addRelevant E tx b w of None \<Rightarrow> Inl TxFailed | Some w \<Rightarrow> Inr w) txs w"

text \<open>\<open>recoverScopedAddresses\<close> with its \<open>goto expandHorizons\<close> as recursion on the rest of the batch.\<close>

function recoverScopedAddresses ::
  "('addr, 'w) recoveryEnv \<Rightarrow> (foundAddrs \<Rightarrow> foundAddrs) \<Rightarrow> KeyScope list \<Rightarrow> BlockMeta list \<Rightarrow>
   'addr RecoveryState \<times> 'w \<Rightarrow> (recovery_error + ('addr RecoveryState \<times> 'w)) option" where
  "recoverScopedAddresses E visit scopedMgrs batch rw =
     (if batch = [] then Some (Inr rw)
      else
        case expandAll E scopedMgrs (fst rw) of
          None \<Rightarrow> None
        | Some (Inl e) \<Rightarrow> Some (Inl e)
        | Some (Inr rs) \<Rightarrow>
            (case FilterBlocks (chainFns E) (getBlock E) (newFilterBlocksRequest batch scopedMgrs rs) of
               None \<Rightarrow> Some (Inl BlockFetchFailed)
             | Some None \<Rightarrow> Some (Inr (rs, snd rw))
             | Some (Some resp) \<Rightarrow>
                 if unat (BatchIndex resp) \<ge> length batch then Some (Inl RecoveryPanic)
                 else
                   (case extendFoundAddresses E visit scopedMgrs resp (rs, snd rw) of
                      Inl e \<Rightarrow> Some (Inl e)
                    | Inr (rs, w) \<Rightarrow>
                        let rs = watchFound (respOutPoints resp) rs in
                        (case addFound E (respBlock resp) (respTxns resp) w of
                           Inl e \<Rightarrow> Some (Inl e)
                         | Inr w \<Rightarrow>
                             recoverScopedAddresses E visit scopedMgrs
                               (drop (unat (BatchIndex resp) + 1) batch) (rs, w)))))"
  by pat_completeness auto
termination
  by (relation "measure (\<lambda>(E, visit, mgrs, batch, rw). length batch)") auto

declare recoverScopedAddresses.simps [simp del]

section \<open>Counting children\<close>

text \<open>Child indexes from \<open>2\<^sup>3\<^sup>1\<close> on are hardened and not used on a branch.  \<open>nValid\<close> and \<open>nInvalid\<close>
  count the children of a range that derive to an address and those that do not.\<close>

definition maxChild :: nat where "maxChild = 2147483648"

definition nValid :: "(uint32 \<Rightarrow> 'addr deriveResult) \<Rightarrow> nat \<Rightarrow> nat \<Rightarrow> nat" where
  "nValid derive m n = card {k \<in> {m..<n}. derive (of_nat k) \<noteq> InvalidChild}"

definition nInvalid :: "(uint32 \<Rightarrow> 'addr deriveResult) \<Rightarrow> nat \<Rightarrow> nat \<Rightarrow> nat" where
  "nInvalid derive m n = card {k \<in> {m..<n}. derive (of_nat k) = InvalidChild}"

definition derivable :: "(uint32 \<Rightarrow> 'addr deriveResult) \<Rightarrow> bool" where
  "derivable derive \<longleftrightarrow> (\<forall>i. unat i < maxChild \<longrightarrow> derive i \<noteq> DeriveError)"

lemma range_filter_Suc:
  "m \<le> n \<Longrightarrow> {k \<in> {m..<Suc n}. P k} = (if P n then insert n {k \<in> {m..<n}. P k} else {k \<in> {m..<n}. P k})"
  by (auto simp: less_Suc_eq)

lemma nValid_Suc: "m \<le> n \<Longrightarrow>
  nValid derive m (Suc n) = nValid derive m n + (if derive (of_nat n) = InvalidChild then 0 else 1)"
  unfolding nValid_def range_filter_Suc by simp

lemma nInvalid_Suc: "m \<le> n \<Longrightarrow>
  nInvalid derive m (Suc n) = nInvalid derive m n + (if derive (of_nat n) = InvalidChild then 1 else 0)"
  unfolding nInvalid_def range_filter_Suc by simp

lemma n_refl [simp]: "nValid derive m m = 0" "nInvalid derive m m = 0"
  by (simp_all add: nValid_def nInvalid_def)

lemma nValid_nInvalid: "m \<le> n \<Longrightarrow> nValid derive m n + nInvalid derive m n = n - m"
  by (induction n rule: dec_induct) (auto simp: nValid_Suc nInvalid_Suc)

lemma nValid_append: "m \<le> n \<Longrightarrow> l \<le> m \<Longrightarrow> nValid derive l m + nValid derive m n = nValid derive l n"
  by (induction n rule: dec_induct) (auto simp: nValid_Suc)

lemma nInvalid_append: "m \<le> n \<Longrightarrow> l \<le> m \<Longrightarrow> nInvalid derive l m + nInvalid derive m n = nInvalid derive l n"
  by (induction n rule: dec_induct) (auto simp: nInvalid_Suc)

lemma nValid_Cons: "m < n \<Longrightarrow>
  nValid derive m n = (if derive (of_nat m) = InvalidChild then 0 else 1) + nValid derive (Suc m) n"
  using nValid_append [of "Suc m" n m derive] nValid_Suc [of m m derive] by simp

lemma nValid_mono: "l \<le> m \<Longrightarrow> nValid derive m n \<le> nValid derive l n"
  unfolding nValid_def by (rule card_mono) auto

lemma nValid_reach:
  assumes "m \<le> n" "d \<le> nValid derive m n"
  obtains e where "m \<le> e" "e \<le> n" "nValid derive m e = d" "e = m \<or> derive (of_nat (e - 1)) \<noteq> InvalidChild"
  using assms
proof (induction n arbitrary: thesis rule: dec_induct)
  case base
  then show ?case by simp
next
  case (step n)
  show ?case
  proof (cases "d \<le> nValid derive m n")
    case True
    then obtain e where "m \<le> e" "e \<le> n" "nValid derive m e = d" "e = m \<or> derive (of_nat (e - 1)) \<noteq> InvalidChild"
      using step.IH step.hyps(1) by blast
    then show ?thesis by (intro step.prems(1) [of e]) auto
  next
    case False
    then show ?thesis using step.prems step.hyps by (intro step.prems(1) [of "Suc n"]) (auto simp: nValid_Suc split: if_splits)
  qed
qed

lemma unat_succ: "(c :: uint32) < w \<Longrightarrow> unat (c + 1) = Suc (unat c)"
  using unsigned_less [of w, where ?'a = nat]
  by (simp add: word_less_nat_alt unat_word_ariths)

section \<open>Deriving a window\<close>

definition deriveOne :: "(uint32 \<Rightarrow> 'addr deriveResult) \<Rightarrow> uint32 \<Rightarrow> 'addr BranchRecoveryState \<Rightarrow> 'addr BranchRecoveryState" where
  "deriveOne derive i b = (case derive i of Derived a \<Rightarrow> AddAddr i a b | _ \<Rightarrow> MarkInvalidChild i b)"

definition childs :: "nat \<Rightarrow> nat \<Rightarrow> uint32 list" where
  "childs m n = map of_nat [m..<n]"

lemma childs_simps: "childs m m = []" "m < n \<Longrightarrow> childs m n = of_nat m # childs (Suc m) n"
  by (simp_all add: childs_def upt_conv_Cons)

lemma childs_snoc: "m \<le> n \<Longrightarrow> childs m (Suc n) = childs m n @ [of_nat n]"
  by (simp add: childs_def)

lemma deriveWindow_fold:
  assumes "c \<le> e" "count \<le> window" "unat window = unat count + nValid derive c e"
    "e = c \<or> derive (of_nat (e - 1)) \<noteq> InvalidChild" "\<And>n. c \<le> n \<Longrightarrow> n < e \<Longrightarrow> derive (of_nat n) \<noteq> DeriveError"
  shows "deriveWindow derive window count (of_nat c) b = Some (Inr (fold (deriveOne derive) (childs c e) b))"
  using assms
proof (induction "e - c" arbitrary: c count b)
  case 0
  then have "e = c" by simp
  then show ?case using 0 by (simp add: deriveWindow.simps childs_simps word_less_nat_alt)
next
  case (Suc k)
  then have ce: "c < e" by simp
  have "nValid derive c e \<noteq> 0"
    using Suc.prems(4) ce nValid_Suc [of c "e - 1" derive] by simp
  then have lt: "count < window" using Suc.prems(3) by (simp add: word_less_nat_alt)
  have next_child: "of_nat c + 1 = (of_nat (Suc c) :: uint32)" by simp
  have last: "e = Suc c \<or> derive (of_nat (e - 1)) \<noteq> InvalidChild" using Suc.prems(4) ce by auto
  show ?case
  proof (cases "derive (of_nat c)")
    case (Derived a)
    have "count + 1 \<le> window" "unat window = unat (count + 1) + nValid derive (Suc c) e"
      using lt Suc.prems(3) Derived nValid_Cons [OF ce, of derive] by (simp_all add: unat_succ [OF lt] word_le_nat_alt)
    from Suc.hyps(1) [OF _ _ this last, of "AddAddr (of_nat c) a b"]
    have "deriveWindow derive window (count + 1) (of_nat (Suc c)) (AddAddr (of_nat c) a b) =
        Some (Inr (fold (deriveOne derive) (childs (Suc c) e) (AddAddr (of_nat c) a b)))"
      using Suc.hyps(2) ce Suc.prems(5) by simp
    then show ?thesis using lt Derived ce
      by (subst deriveWindow.simps) (simp add: childs_simps deriveOne_def add.commute)
  next
    case InvalidChild
    have "unat window = unat count + nValid derive (Suc c) e"
      using Suc.prems(3) InvalidChild nValid_Cons [OF ce, of derive] by simp
    from Suc.hyps(1) [OF _ _ Suc.prems(2) this last, of "MarkInvalidChild (of_nat c) b"]
    have "deriveWindow derive window count (of_nat (Suc c)) (MarkInvalidChild (of_nat c) b) =
        Some (Inr (fold (deriveOne derive) (childs (Suc c) e) (MarkInvalidChild (of_nat c) b)))"
      using Suc.hyps(2) ce Suc.prems(5) by simp
    then show ?thesis using lt InvalidChild ce
      by (subst deriveWindow.simps) (simp add: childs_simps deriveOne_def add.commute)
  next
    case DeriveError
    then show ?thesis using Suc.prems(5) [of c] ce by simp
  qed
qed

lemma childs_set: "n \<le> maxChild \<Longrightarrow> i \<in> set (childs m n) \<longleftrightarrow> m \<le> unat i \<and> unat i < n"
proof -
  assume n: "n \<le> maxChild"
  have "unat (of_nat k :: uint32) = k" if "k < n" for k
    using that n by (simp add: maxChild_def unat_of_nat)
  then show ?thesis by (force simp: childs_def image_iff)
qed

text \<open>What a window of derivations does to the branch.\<close>

definition derivedFrom ::
  "(uint32 \<Rightarrow> 'addr deriveResult) \<Rightarrow> uint32 set \<Rightarrow> 'addr BranchRecoveryState \<Rightarrow> 'addr BranchRecoveryState \<Rightarrow> bool" where
  "derivedFrom derive I b b' \<longleftrightarrow>
     brWindow b' = brWindow b \<and> nextUnfound b' = nextUnfound b \<and>
     (\<forall>i a. i \<in> I \<and> derive i = Derived a \<longrightarrow> map_of (addresses b') i = Some a) \<and>
     (\<forall>i. \<not> (i \<in> I \<and> (\<exists>a. derive i = Derived a)) \<longrightarrow> map_of (addresses b') i = map_of (addresses b) i) \<and>
     set (invalidChildren b') = set (invalidChildren b) \<union> {i \<in> I. derive i = InvalidChild} \<and>
     (distinct (invalidChildren b) \<longrightarrow> distinct (invalidChildren b')) \<and>
     (distinct (map fst (addresses b)) \<longrightarrow> distinct (map fst (addresses b')))"

lemma derivedFrom_refl: "derivedFrom derive {} b b"
  by (simp add: derivedFrom_def)

lemma derivedFrom_one:
  assumes "derivedFrom derive I b b'" "derive i \<noteq> DeriveError"
  shows "derivedFrom derive (insert i I) b (deriveOne derive i b')"
  using assms by (cases "derive i")
    (auto simp: derivedFrom_def deriveOne_def AddAddr_def MarkInvalidChild_def update_conv' distinct_update)

lemma deriveOne_horizon: "horizon (deriveOne derive i b) = horizon b + (case derive i of Derived a \<Rightarrow> 0 | _ \<Rightarrow> 1)"
  by (simp add: deriveOne_def AddAddr_def MarkInvalidChild_def split: deriveResult.split)

lemma fold_deriveOne:
  assumes "m \<le> n" "\<And>k. m \<le> k \<Longrightarrow> k < n \<Longrightarrow> derive (of_nat k) \<noteq> DeriveError"
  shows "derivedFrom derive (set (childs m n)) b (fold (deriveOne derive) (childs m n) b) \<and>
    horizon (fold (deriveOne derive) (childs m n) b) = horizon b + of_nat (nInvalid derive m n)"
  using assms
proof (induction n rule: dec_induct)
  case base
  then show ?case by (simp add: childs_simps derivedFrom_refl)
next
  case (step n)
  have ok: "derive (of_nat n) \<noteq> DeriveError" using step by simp
  from step.IH step.prems have IH: "derivedFrom derive (set (childs m n)) b (fold (deriveOne derive) (childs m n) b)"
    "horizon (fold (deriveOne derive) (childs m n) b) = horizon b + of_nat (nInvalid derive m n)" by auto
  show ?case
    using derivedFrom_one [OF IH(1) ok] IH(2) step.hyps ok
    by (cases "derive (of_nat n)")
      (simp_all add: childs_snoc deriveOne_horizon nInvalid_Suc algebra_simps)
qed

section \<open>The look-ahead of a branch\<close>

text \<open>Every index below the horizon has been derived: valid ones are registered with their
  address, invalid ones from \<open>nextUnfound\<close> on are remembered.\<close>

definition brOk :: "(uint32 \<Rightarrow> 'addr deriveResult) \<Rightarrow> 'addr BranchRecoveryState \<Rightarrow> bool" where
  "brOk derive b \<longleftrightarrow>
     distinct (invalidChildren b) \<and> distinct (map fst (addresses b)) \<and>
     (\<forall>i \<in> set (invalidChildren b). derive i = InvalidChild) \<and>
     (\<forall>i a. map_of (addresses b) i = Some a \<longrightarrow> derive i = Derived a) \<and>
     (\<forall>i a. i < horizon b \<and> derive i = Derived a \<longrightarrow> map_of (addresses b) i = Some a) \<and>
     (\<forall>i. i < horizon b \<and> nextUnfound b \<le> i \<and> derive i = InvalidChild \<longrightarrow> i \<in> set (invalidChildren b))"

lemma brOkD:
  assumes "brOk derive b"
  shows "distinct (invalidChildren b)" "distinct (map fst (addresses b))"
    "i \<in> set (invalidChildren b) \<Longrightarrow> derive i = InvalidChild"
    "map_of (addresses b) i = Some a \<Longrightarrow> derive i = Derived a"
    "i < horizon b \<Longrightarrow> derive i = Derived a \<Longrightarrow> map_of (addresses b) i = Some a"
    "i < horizon b \<Longrightarrow> nextUnfound b \<le> i \<Longrightarrow> derive i = InvalidChild \<Longrightarrow> i \<in> set (invalidChildren b)"
  using assms unfolding brOk_def by blast+

lemma brOkI:
  assumes "distinct (invalidChildren b)" "distinct (map fst (addresses b))"
    "\<And>i. i \<in> set (invalidChildren b) \<Longrightarrow> derive i = InvalidChild"
    "\<And>i a. map_of (addresses b) i = Some a \<Longrightarrow> derive i = Derived a"
    "\<And>i a. i < horizon b \<Longrightarrow> derive i = Derived a \<Longrightarrow> map_of (addresses b) i = Some a"
    "\<And>i. i < horizon b \<Longrightarrow> nextUnfound b \<le> i \<Longrightarrow> derive i = InvalidChild \<Longrightarrow> i \<in> set (invalidChildren b)"
  shows "brOk derive b"
  using assms unfolding brOk_def by blast

lemma brOk_New: "brOk derive (NewBranchRecoveryState w)"
  by (simp add: brOk_def NewBranchRecoveryState_def)

lemma brOk_ReportFound:
  assumes ok: "brOk derive b" and i: "i < n"
  shows "brOk derive (ReportFound i b)"
proof (cases "nextUnfound b \<le> i")
  case True
  have key: "nextUnfound b \<le> c \<and> \<not> c < i" if "i + 1 \<le> c" for c
  proof -
    have "unat i < unat c" using that unat_succ [OF i] by (simp only: word_le_nat_alt)
    then show ?thesis using True by (simp add: word_le_nat_alt word_less_nat_alt)
  qed
  have r: "ReportFound i b = b\<lparr>nextUnfound := i + 1, invalidChildren := filter (\<lambda>c. \<not> c < i) (invalidChildren b)\<rparr>"
    using True by (simp only: ReportFound_def if_True)
  show ?thesis
  proof (rule brOkI)
    fix j assume j: "j < horizon (ReportFound i b)" "nextUnfound (ReportFound i b) \<le> j" "derive j = InvalidChild"
    have "j \<in> set (invalidChildren b)" using brOkD(6) [OF ok] key [of j] j by (simp add: r)
    then show "j \<in> set (invalidChildren (ReportFound i b))" using key [of j] j(2) by (simp add: r)
  next
    fix j a assume "j < horizon (ReportFound i b)" "derive j = Derived a"
    then show "map_of (addresses (ReportFound i b)) j = Some a" using brOkD(5) [OF ok, of j a] by (simp add: r)
  next
    fix j a assume "map_of (addresses (ReportFound i b)) j = Some a"
    then show "derive j = Derived a" using brOkD(4) [OF ok, of j a] by (simp add: r)
  next
    fix j assume "j \<in> set (invalidChildren (ReportFound i b))"
    then show "derive j = InvalidChild" using brOkD(3) [OF ok, of j] by (simp add: r)
  qed (simp_all add: r brOkD(1,2) [OF ok])
next
  case False
  then show ?thesis using ok by (simp add: ReportFound_def)
qed

lemma NumInvalid_count:
  assumes "brOk derive b" "unat (horizon b) \<le> maxChild"
  shows "NumInvalidInHorizon b = of_nat (nInvalid derive (unat (nextUnfound b)) (unat (horizon b)))"
proof -
  let ?f = "filter (\<lambda>i. nextUnfound b \<le> i \<and> i < horizon b) (invalidChildren b)"
  let ?S = "{k \<in> {unat (nextUnfound b)..<unat (horizon b)}. derive (of_nat k) = InvalidChild}"
  have "distinct ?f" using brOkD(1) [OF assms(1)] by simp
  moreover have "inj_on unat (set ?f)" by (intro inj_onI) (simp only: word_unat_eq_iff)
  ultimately have "length ?f = card (unat ` set ?f)" by (simp only: card_image distinct_card)
  also have "unat ` set ?f = ?S"
  proof (intro set_eqI iffI)
    fix k assume "k \<in> unat ` set ?f"
    then show "k \<in> ?S" using brOkD(3) [OF assms(1)] by (auto simp: word_le_nat_alt word_less_nat_alt)
  next
    fix k assume k: "k \<in> ?S"
    have u: "unat (of_nat k :: uint32) = k"
      using k assms(2) by (simp add: unat_of_nat maxChild_def)
    have "nextUnfound b \<le> of_nat k" "of_nat k < horizon b"
      using k u by (auto simp: word_le_nat_alt word_less_nat_alt)
    then have "of_nat k \<in> set ?f" using k brOkD(6) [OF assms(1), of "of_nat k"] by simp
    then have "unat (of_nat k :: uint32) \<in> unat ` set ?f" by (rule imageI)
    then show "k \<in> unat ` set ?f" by (simp only: u)
  qed
  finally show ?thesis by (simp add: NumInvalidInHorizon_def nInvalid_def)
qed

lemma unat_small: "n \<le> maxChild \<Longrightarrow> unat (of_nat n :: uint32) = n"
  by (simp add: maxChild_def unat_of_nat)

lemma nInvalid_sub: "n \<le> N \<Longrightarrow> nInvalid derive m n + nInvalid derive n N \<le> nInvalid derive 0 N"
proof (cases "m \<le> n")
  case True
  assume n: "n \<le> N"
  show ?thesis
    using nInvalid_append [of m n 0 derive] nInvalid_append [of n N 0 derive] True n by simp
next
  case False
  assume n: "n \<le> N"
  have "nInvalid derive m n = 0" using False by (simp add: nInvalid_def)
  then show ?thesis using nInvalid_append [of n N 0 derive] n by simp
qed

text \<open>The new horizon in numbers: as far past \<open>nextUnfound\<close> as the window and the invalid
  children need.\<close>

lemma minValidHorizon:
  assumes "brOk derive b" "unat (horizon b) \<le> maxChild"
    "unat (nextUnfound b) + unat (brWindow b) + nInvalid derive 0 maxChild \<le> maxChild"
  shows "unat (nextUnfound b + brWindow b + NumInvalidInHorizon b) =
    unat (nextUnfound b) + unat (brWindow b) + nInvalid derive (unat (nextUnfound b)) (unat (horizon b))"
proof -
  let ?k = "nInvalid derive (unat (nextUnfound b)) (unat (horizon b))"
  have "?k \<le> nInvalid derive 0 maxChild" using nInvalid_sub [OF assms(2), of derive] by (metis add_leD1)
  then have "unat (of_nat (unat (nextUnfound b) + unat (brWindow b) + ?k) :: uint32) =
      unat (nextUnfound b) + unat (brWindow b) + ?k"
    using assms(3) by (intro unat_small) simp
  then show ?thesis by (simp add: NumInvalid_count [OF assms(1,2)])
qed

definition lookahead :: "(uint32 \<Rightarrow> 'addr deriveResult) \<Rightarrow> 'addr BranchRecoveryState \<Rightarrow> bool" where
  "lookahead derive b \<longleftrightarrow> brOk derive b \<and> unat (horizon b) \<le> maxChild \<and>
     unat (brWindow b) \<le> nValid derive (unat (nextUnfound b)) (unat (horizon b))"

definition roomFor :: "(uint32 \<Rightarrow> 'addr deriveResult) \<Rightarrow> 'addr BranchRecoveryState \<Rightarrow> bool" where
  "roomFor derive b \<longleftrightarrow> derivable derive \<and> unat (horizon b) \<le> maxChild \<and>
     unat (nextUnfound b) + unat (brWindow b) + nInvalid derive 0 maxChild \<le> maxChild"

lemma brOk_derivedFrom:
  assumes ok: "brOk derive b" and d: "derivedFrom derive I (b\<lparr>horizon := h0\<rparr>) b'"
    and I: "\<And>i. i < horizon b' \<Longrightarrow> i < horizon b \<or> i \<in> I"
  shows "brOk derive b'"
proof -
  have f: "nextUnfound b' = nextUnfound b"
    "set (invalidChildren b') = set (invalidChildren b) \<union> {i \<in> I. derive i = InvalidChild}"
    "distinct (invalidChildren b')" "distinct (map fst (addresses b'))"
    using d brOkD(1,2) [OF ok] by (simp_all add: derivedFrom_def)
  have new: "map_of (addresses b') i = Some a" if "i \<in> I" "derive i = Derived a" for i a
    using d that by (simp add: derivedFrom_def)
  have old: "map_of (addresses b') i = map_of (addresses b) i"
    if "i \<notin> I \<or> (\<forall>a. derive i \<noteq> Derived a)" for i
    using d that by (auto simp: derivedFrom_def)
  show ?thesis
  proof (rule brOkI)
    fix i a assume "i < horizon b'" "derive i = Derived a"
    then show "map_of (addresses b') i = Some a" using I [of i] brOkD(5) [OF ok, of i a] new old by metis
  next
    fix i a assume "map_of (addresses b') i = Some a"
    then show "derive i = Derived a"
      using brOkD(4) [OF ok, of i a] new old by (metis option.inject)
  next
    fix i assume "i \<in> set (invalidChildren b')"
    then show "derive i = InvalidChild" using brOkD(3) [OF ok, of i] by (auto simp: f)
  next
    fix i assume "i < horizon b'" "nextUnfound b' \<le> i" "derive i = InvalidChild"
    then show "i \<in> set (invalidChildren b')" using I [of i] brOkD(6) [OF ok, of i] by (auto simp: f)
  qed (use f in simp_all)
qed

lemma expandBranch_lookahead:
  assumes ok: "brOk derive b" and room: "roomFor derive b"
  shows "\<exists>b'. expandBranch derive b = Some (Inr b') \<and> lookahead derive b' \<and>
     nextUnfound b' = nextUnfound b \<and> brWindow b' = brWindow b \<and> horizon b \<le> horizon b'"
proof -
  define h nu w where n: "h = unat (horizon b)" "nu = unat (nextUnfound b)" "w = unat (brWindow b)"
  define m where "m = nextUnfound b + brWindow b + NumInvalidInHorizon b"
  have hm: "h \<le> maxChild" and r: "nu + w + nInvalid derive 0 maxChild \<le> maxChild" and d: "derivable derive"
    using room by (simp_all add: roomFor_def n)
  have m: "unat m = nu + w + nInvalid derive nu h"
    using minValidHorizon [OF ok] hm r by (simp add: m_def n)
  show ?thesis
  proof (cases "m \<le> horizon b")
    case True
    have e: "expandBranch derive b = Some (Inr b)"
      using True by (simp add: expandBranch_def ExtendHorizon_def m_def [symmetric] deriveWindow.simps)
    have "nu + w + nInvalid derive nu h \<le> h" using True m by (simp add: word_le_nat_alt n)
    then have "w \<le> nValid derive nu h" using nValid_nInvalid [of nu h derive] by linarith
    then show ?thesis using e ok hm by (simp add: lookahead_def n)
  next
    case False
    then have lt: "h < unat m" by (simp add: word_le_nat_alt n)
    have "nInvalid derive nu h + nInvalid derive h maxChild \<le> nInvalid derive 0 maxChild"
      by (rule nInvalid_sub [OF hm])
    then have "unat m - h \<le> nValid derive h maxChild"
      using nValid_nInvalid [OF hm, of derive] r m by linarith
    then obtain e where e: "h \<le> e" "e \<le> maxChild" "nValid derive h e = unat m - h"
      "e = h \<or> derive (of_nat (e - 1)) \<noteq> InvalidChild"
      using nValid_reach [OF hm, of "unat m - h" derive] by metis
    have ne: "derive (of_nat k) \<noteq> DeriveError" if "h \<le> k" "k < e" for k
      using d that e(2) by (simp add: derivable_def unat_small)
    define b' where "b' = fold (deriveOne derive) (childs h e) (b\<lparr>horizon := m\<rparr>)"
    have ext: "ExtendHorizon b = ((horizon b, m - horizon b), b\<lparr>horizon := m\<rparr>)"
      using False by (simp add: ExtendHorizon_def m_def [symmetric] Let_def)
    have "unat (m - horizon b) = unat m - h"
      using lt by (simp add: unat_sub_if_size n)
    then have exp: "expandBranch derive b = Some (Inr b')"
      using deriveWindow_fold [of h e 0 "m - horizon b" derive "b\<lparr>horizon := m\<rparr>"] e(1,3,4) ne
      by (simp add: expandBranch_def ext b'_def n)
    have f: "derivedFrom derive (set (childs h e)) (b\<lparr>horizon := m\<rparr>) b'"
      "horizon b' = m + of_nat (nInvalid derive h e)"
      using fold_deriveOne [of h e derive "b\<lparr>horizon := m\<rparr>"] e(1) ne by (simp_all add: b'_def)
    have en: "e = unat m + nInvalid derive h e" using nValid_nInvalid [OF e(1), of derive] e(1,3) lt by linarith
    have "horizon b' = of_nat (unat m + nInvalid derive h e)" using f(2) by simp
    then have hz: "horizon b' = of_nat e" using en by simp
    then have hu: "unat (horizon b') = e" using e(2) by (simp add: unat_small)
    have "brOk derive b'"
    proof (rule brOk_derivedFrom [OF ok f(1)])
      fix i assume "i < horizon b'"
      then show "i < horizon b \<or> i \<in> set (childs h e)"
        using childs_set [OF e(2), of i h] by (auto simp: word_less_nat_alt hu n)
    qed
    moreover have "w \<le> nValid derive nu e"
    proof (cases "nu \<le> h")
      case True
      then show ?thesis
        using nValid_append [OF e(1), of nu derive] nValid_nInvalid [of nu h derive] e(3) m lt by linarith
    next
      case False
      have "nInvalid derive nu h = 0" using False by (simp add: nInvalid_def)
      then show ?thesis
        using nValid_append [of nu e h derive] nValid_nInvalid [of h nu derive] nValid_nInvalid [OF e(1), of derive]
          e(3) m False en by linarith
    qed
    ultimately show ?thesis
      using exp f(1) hu e(1,2) by (auto simp: lookahead_def derivedFrom_def n word_le_nat_alt)
  qed
qed

lemma unat_ReportFound:
  "unat i < maxChild \<Longrightarrow> unat (nextUnfound (ReportFound i b)) = max (unat (nextUnfound b)) (Suc (unat i))"
  using unat_succ [of i "of_nat maxChild"]
  by (auto simp: ReportFound_def word_le_nat_alt word_less_nat_alt maxChild_def)

lemma ReportFound_simps [simp]:
  "horizon (ReportFound i b) = horizon b" "brWindow (ReportFound i b) = brWindow b"
  "addresses (ReportFound i b) = addresses b"
  by (simp_all add: ReportFound_def)

text \<open>The index after the highest one of a set, at least \<open>n\<close>.\<close>

definition advance :: "nat \<Rightarrow> uint32 set \<Rightarrow> nat" where
  "advance n I = Max (insert n ((\<lambda>i. Suc (unat i)) ` I))"

lemma advance_empty [simp]: "advance n {} = n"
  by (simp add: advance_def)

lemma advance_insert: "advance n (insert i I) = advance (max n (Suc (unat i))) I"
proof -
  have f: "finite ((\<lambda>i. Suc (unat i)) ` I)" by simp
  have "insert n ((\<lambda>i. Suc (unat i)) ` insert i I) = insert n (insert (Suc (unat i)) ((\<lambda>i. Suc (unat i)) ` I))"
    by simp
  then show ?thesis unfolding advance_def using f by (cases "I = {}") (simp_all add: max.assoc)
qed

lemma advance_union: "advance n (I \<union> J) = advance (advance n I) J"
proof (induction I arbitrary: n rule: finite_induct [OF finite])
  case 1
  then show ?case by simp
next
  case (2 i I)
  show ?case unfolding Un_insert_left advance_insert 2(3) ..
qed

lemma advance_bounds: "n \<le> advance n I" "i \<in> I \<Longrightarrow> unat i < advance n I"
  "(\<And>i. i \<in> I \<Longrightarrow> unat i < m) \<Longrightarrow> n \<le> m \<Longrightarrow> advance n I \<le> m"
proof -
  show "n \<le> advance n I" by (simp add: advance_def)
  have "Suc (unat i) \<le> advance n I" if "i \<in> I" using that by (simp add: advance_def)
  then show "i \<in> I \<Longrightarrow> unat i < advance n I" by simp
  show "(\<And>i. i \<in> I \<Longrightarrow> unat i < m) \<Longrightarrow> n \<le> m \<Longrightarrow> advance n I \<le> m"
    by (auto simp: advance_def Suc_le_eq)
qed

lemma fold_ReportFound:
  assumes "brOk derive b" "\<And>i. i \<in> set is \<Longrightarrow> unat i < maxChild"
  shows "brOk derive (fold ReportFound is b) \<and> horizon (fold ReportFound is b) = horizon b \<and>
    brWindow (fold ReportFound is b) = brWindow b \<and> addresses (fold ReportFound is b) = addresses b \<and>
    unat (nextUnfound (fold ReportFound is b)) = advance (unat (nextUnfound b)) (set is)"
  using assms
proof (induction "is" arbitrary: b)
  case (Cons i "is")
  have "unat i < maxChild" using Cons.prems(2) by simp
  then have "i < of_nat maxChild" by (simp add: word_less_nat_alt maxChild_def)
  with Cons show ?case
    using Cons.IH [of "ReportFound i b"] brOk_ReportFound [OF Cons.prems(1)]
    by (simp add: unat_ReportFound advance_insert)
qed simp

section \<open>The state of a scope\<close>

definition brAt :: "'addr RecoveryState \<Rightarrow> KeyScope \<Rightarrow> bool \<Rightarrow> 'addr BranchRecoveryState" where
  "brAt rs sc internal = branchOf internal (fst (StateForScope sc rs))"

lemma brAt_put:
  "brAt (rs\<lparr>scopes := (scopes rs)(sc \<mapsto> st)\<rparr>) sc' i = (if sc' = sc then branchOf i st else brAt rs sc' i)"
  by (simp add: brAt_def StateForScope_def Let_def split: option.splits)

lemma StateForScope_snd:
  "brAt (snd (StateForScope sc rs)) = brAt rs" "watchedOutPoints (snd (StateForScope sc rs)) = watchedOutPoints rs"
  by (auto simp: fun_eq_iff brAt_def StateForScope_def Let_def split: option.splits)

lemma branchOf_putBranch:
  "branchOf i (putBranch j b st) = (if i = j then b else branchOf i st)"
  by (simp add: branchOf_def putBranch_def)

text \<open>The branches of the scopes are sound, with the window \<open>w\<close> and the next unfound indexes \<open>nu\<close>.\<close>

definition branchesOk ::
  "('addr, 'w) recoveryEnv \<Rightarrow> uint32 \<Rightarrow> KeyScope list \<Rightarrow> 'addr RecoveryState \<Rightarrow> (KeyScope \<Rightarrow> bool \<Rightarrow> nat) \<Rightarrow> bool" where
  "branchesOk E w scs rs nu \<longleftrightarrow>
     (\<forall>sc \<in> set scs. \<forall>i. brOk (deriveKey E sc i) (brAt rs sc i) \<and> brWindow (brAt rs sc i) = w \<and>
        unat (horizon (brAt rs sc i)) \<le> maxChild \<and> unat (nextUnfound (brAt rs sc i)) = nu sc i)"

definition roomAt :: "('addr, 'w) recoveryEnv \<Rightarrow> uint32 \<Rightarrow> KeyScope \<Rightarrow> bool \<Rightarrow> nat \<Rightarrow> bool" where
  "roomAt E w sc i n \<longleftrightarrow> n + unat w + nInvalid (deriveKey E sc i) 0 maxChild \<le> maxChild"

lemma expandScope_lookahead:
  assumes "\<And>i. brOk (derive i) (branchOf i st) \<and> roomFor (derive i) (branchOf i st)"
  shows "\<exists>st'. expandScopeHorizons derive st = Some (Inr st') \<and>
    (\<forall>i. lookahead (derive i) (branchOf i st') \<and> nextUnfound (branchOf i st') = nextUnfound (branchOf i st) \<and>
       brWindow (branchOf i st') = brWindow (branchOf i st))"
proof -
  have "\<exists>b'. expandBranch (derive i) (branchOf i st) = Some (Inr b') \<and> lookahead (derive i) b' \<and>
     nextUnfound b' = nextUnfound (branchOf i st) \<and> brWindow b' = brWindow (branchOf i st)" for i
    using expandBranch_lookahead [of "derive i" "branchOf i st"] assms [of i] by blast
  from this [of False] this [of True] show ?thesis
    by (auto simp: expandScopeHorizons_def branchOf_def)
qed

lemma expandAll_lookahead:
  assumes "distinct scs" "branchesOk E w scs rs nu"
    "\<And>sc i. sc \<in> set scs \<Longrightarrow> derivable (deriveKey E sc i) \<and> roomAt E w sc i (nu sc i)"
  shows "\<exists>rs'. expandAll E scs rs = Some (Inr rs') \<and> watchedOutPoints rs' = watchedOutPoints rs \<and>
    branchesOk E w scs rs' nu \<and> (\<forall>sc \<in> set scs. \<forall>i. lookahead (deriveKey E sc i) (brAt rs' sc i)) \<and>
    (\<forall>sc i. sc \<notin> set scs \<longrightarrow> brAt rs' sc i = brAt rs sc i)"
  using assms
proof (induction scs arbitrary: rs)
  case Nil
  then show ?case by (simp add: branchesOk_def)
next
  case (Cons sc scs)
  obtain st rs0 where s: "StateForScope sc rs = (st, rs0)" by (cases "StateForScope sc rs")
  have b0: "brAt rs0 = brAt rs" "watchedOutPoints rs0 = watchedOutPoints rs" "branchOf i st = brAt rs sc i" for i
    using StateForScope_snd [of sc rs] by (simp_all add: s brAt_def)
  have "brOk (deriveKey E sc i) (branchOf i st) \<and> roomFor (deriveKey E sc i) (branchOf i st)" for i
    using Cons.prems(2,3) unfolding b0 branchesOk_def roomFor_def roomAt_def by simp
  then obtain st' where e: "expandScopeHorizons (deriveKey E sc) st = Some (Inr st')"
    "\<And>i. lookahead (deriveKey E sc i) (branchOf i st')"
    "\<And>i. nextUnfound (branchOf i st') = nextUnfound (brAt rs sc i)"
    "\<And>i. brWindow (branchOf i st') = brWindow (brAt rs sc i)"
    using expandScope_lookahead [of "deriveKey E sc" st] unfolding b0 by blast
  define rs1 where "rs1 = rs0\<lparr>scopes := (scopes rs0)(sc \<mapsto> st')\<rparr>"
  have at: "brAt rs1 sc' i = (if sc' = sc then branchOf i st' else brAt rs sc' i)" for sc' i
    by (simp add: rs1_def brAt_put b0)
  have w1: "watchedOutPoints rs1 = watchedOutPoints rs" by (simp add: rs1_def b0)
  have "branchesOk E w scs rs1 nu"
    using Cons.prems(1,2) by (auto simp: branchesOk_def at)
  then obtain rs' where r: "expandAll E scs rs1 = Some (Inr rs')" "watchedOutPoints rs' = watchedOutPoints rs1"
    "branchesOk E w scs rs' nu" "\<forall>sc \<in> set scs. \<forall>i. lookahead (deriveKey E sc i) (brAt rs' sc i)"
    and out: "\<And>sc i. sc \<notin> set scs \<Longrightarrow> brAt rs' sc i = brAt rs1 sc i"
    using Cons.IH [of rs1] Cons.prems(1,3) by auto
  have "brAt rs' sc i = branchOf i st'" for i using out [of sc i] Cons.prems(1) by (simp add: at)
  then have "branchesOk E w (sc # scs) rs' nu"
    using r(3) Cons.prems(2) e(2-4) by (auto simp: branchesOk_def lookahead_def)
  moreover have "expandAll E (sc # scs) rs = Some (Inr rs')" using r(1) by (simp add: s e rs1_def)
  ultimately show ?case
    using r(2,4) out e(2) w1 \<open>\<And>i. brAt rs' sc i = branchOf i st'\<close> by (auto simp: at)
qed

section \<open>What a batch holds for the wallet\<close>

text \<open>All the addresses of the scopes, and the indexes of a branch that a block pays to.\<close>

definition walletTexts :: "('addr, 'w) recoveryEnv \<Rightarrow> KeyScope list \<Rightarrow> string set" where
  "walletTexts E scs = {enc (chainFns E) a | a sc i j. sc \<in> set scs \<and> deriveKey E sc i j = Derived a}"

definition paid :: "('addr, 'w) recoveryEnv \<Rightarrow> MsgTx list \<Rightarrow> KeyScope \<Rightarrow> bool \<Rightarrow> uint32 set" where
  "paid E txs sc i = {j. \<exists>a tx. deriveKey E sc i j = Derived a \<and> tx \<in> set txs \<and> enc (chainFns E) a \<in> paysTo (chainFns E) tx}"

text \<open>The wallet's transactions of a list of blocks: those that pay to an address in \<open>A\<close> or spend
  from \<open>W\<close> or from an earlier output that pays to \<open>A\<close>.\<close>

fun walletScan ::
  "'addr chainFns \<Rightarrow> string set \<Rightarrow> (BlockMeta \<Rightarrow> MsgTx list) \<Rightarrow> OutPoint set \<Rightarrow> BlockMeta list \<Rightarrow>
   (MsgTx \<times> BlockMeta) list" where
  "walletScan C A txsOf W [] = []"
| "walletScan C A txsOf W (b # bs) =
     map (\<lambda>tx. (tx, b)) (relevantTxs C A W (txsOf b)) @
     walletScan C A txsOf (W \<union> (\<Union>tx \<in> set (txsOf b). ownOuts C A tx)) bs"

text \<open>The gap limit: an index that a block pays to has fewer than \<open>w\<close> valid indexes between it and
  the highest index that the blocks before have used.\<close>

fun gapOk ::
  "('addr, 'w) recoveryEnv \<Rightarrow> uint32 \<Rightarrow> KeyScope list \<Rightarrow> (BlockMeta \<Rightarrow> MsgTx list) \<Rightarrow>
   (KeyScope \<Rightarrow> bool \<Rightarrow> nat) \<Rightarrow> BlockMeta list \<Rightarrow> bool" where
  "gapOk E w scs txsOf nu [] \<longleftrightarrow> True"
| "gapOk E w scs txsOf nu (b # bs) \<longleftrightarrow>
     (\<forall>sc \<in> set scs. \<forall>i. \<forall>j \<in> paid E (txsOf b) sc i.
        nValid (deriveKey E sc i) (nu sc i) (unat j) < unat w \<and> roomAt E w sc i (Suc (unat j))) \<and>
     gapOk E w scs txsOf (\<lambda>sc i. advance (nu sc i) (paid E (txsOf b) sc i)) bs"

fun lastFoundAfter ::
  "('addr, 'w) recoveryEnv \<Rightarrow> (BlockMeta \<Rightarrow> MsgTx list) \<Rightarrow> (KeyScope \<Rightarrow> bool \<Rightarrow> nat) \<Rightarrow> BlockMeta list \<Rightarrow>
   KeyScope \<Rightarrow> bool \<Rightarrow> nat" where
  "lastFoundAfter E txsOf nu [] = nu"
| "lastFoundAfter E txsOf nu (b # bs) =
     lastFoundAfter E txsOf (\<lambda>sc i. advance (nu sc i) (paid E (txsOf b) sc i)) bs"

lemma relevantTxs_cong:
  assumes "\<And>tx. tx \<in> set txs \<Longrightarrow> paysTo C tx \<inter> A = paysTo C tx \<inter> A'"
  shows "relevantTxs C A W txs = relevantTxs C A' W txs"
    "tx \<in> set txs \<Longrightarrow> ownOuts C A tx = ownOuts C A' tx"
proof -
  have own: "ownOuts C A tx = ownOuts C A' tx" if "tx \<in> set txs" for tx
  proof -
    have "outAddrs C out \<inter> A = outAddrs C out \<inter> A'" if "(i, out) \<in> set (zip (idxs (TxOut tx)) (TxOut tx))" for i out
    proof -
      have "outAddrs C out \<subseteq> paysTo C tx" using set_zip_rightD [OF that] by (auto simp: paysTo_def)
      then show ?thesis using assms [OF \<open>tx \<in> set txs\<close>] by blast
    qed
    then show ?thesis unfolding ownOuts_def by (metis (no_types, lifting))
  qed
  then show "tx \<in> set txs \<Longrightarrow> ownOuts C A tx = ownOuts C A' tx" .
  show "relevantTxs C A W txs = relevantTxs C A' W txs"
    using assms own by (induction txs arbitrary: W) simp_all
qed

section \<open>The request covers the block\<close>

definition scanOk ::
  "('addr, 'w) recoveryEnv \<Rightarrow> uint32 \<Rightarrow> KeyScope list \<Rightarrow> 'addr RecoveryState \<Rightarrow> (KeyScope \<Rightarrow> bool \<Rightarrow> nat) \<Rightarrow> bool" where
  "scanOk E w scs rs nu \<longleftrightarrow> branchesOk E w scs rs nu \<and>
     (\<forall>sc \<in> set scs. \<forall>i. lookahead (deriveKey E sc i) (brAt rs sc i))"

definition reqKeys :: "('addr, 'w) recoveryEnv \<Rightarrow> KeyScope list \<Rightarrow> 'addr RecoveryState \<Rightarrow> string set" where
  "reqKeys E scs rs = {enc (chainFns E) a | a sc i j. sc \<in> set scs \<and> map_of (addresses (brAt rs sc i)) j = Some a}"

lemma scopeAddrs_set:
  assumes "branchesOk E w scs rs nu"
  shows "((sc, j), a) \<in> set (scopeAddrs i scs rs) \<longleftrightarrow> sc \<in> set scs \<and> map_of (addresses (brAt rs sc i)) j = Some a"
proof -
  have "(j, a) \<in> set (addresses (brAt rs sc i)) \<longleftrightarrow> map_of (addresses (brAt rs sc i)) j = Some a" if "sc \<in> set scs"
    using assms that brOkD(2) [of "deriveKey E sc i" "brAt rs sc i"] by (auto simp: branchesOk_def)
  then show ?thesis by (force simp: scopeAddrs_def brAt_def)
qed

lemma reqKeys_filterKeys:
  assumes "branchesOk E w scs rs nu"
  shows "filterKeys (NewBlockFilterer (chainFns E) (newFilterBlocksRequest batch scs rs)) = reqKeys E scs rs"
proof -
  note s = scopeAddrs_set [OF assms]
  have "enc (chainFns E) a \<in> reqKeys E scs rs" if "((sc, j), a) \<in> set (scopeAddrs i scs rs)" for sc j a i
    using that unfolding s reqKeys_def by blast
  moreover have "t \<in> enc (chainFns E) ` snd ` (set (scopeAddrs False scs rs) \<union> set (scopeAddrs True scs rs))"
    if t: "t \<in> reqKeys E scs rs" for t
  proof -
    obtain a sc i j where "t = enc (chainFns E) a" "((sc, j), a) \<in> set (scopeAddrs i scs rs)"
      using t unfolding s reqKeys_def by blast
    then show ?thesis by (cases i) force+
  qed
  ultimately show ?thesis unfolding filterKeys_New newFilterBlocksRequest_def by force
qed

lemma reqKeys_sub: "branchesOk E w scs rs nu \<Longrightarrow> reqKeys E scs rs \<subseteq> walletTexts E scs"
proof
  fix t assume b: "branchesOk E w scs rs nu" and "t \<in> reqKeys E scs rs"
  then obtain a sc i j where a: "t = enc (chainFns E) a" "sc \<in> set scs" "map_of (addresses (brAt rs sc i)) j = Some a"
    unfolding reqKeys_def by blast
  then have "deriveKey E sc i j = Derived a"
    using b brOkD(4) [of "deriveKey E sc i" "brAt rs sc i" j a] by (simp add: branchesOk_def)
  then show "t \<in> walletTexts E scs" using a unfolding walletTexts_def by blast
qed

lemma paid_registered:
  assumes "scanOk E w scs rs nu" "gapOk E w scs txsOf nu (b # bs)" "sc \<in> set scs" "j \<in> paid E (txsOf b) sc i"
  shows "unat j < maxChild" "deriveKey E sc i j = Derived a \<Longrightarrow> map_of (addresses (brAt rs sc i)) j = Some a"
proof -
  have g: "nValid (deriveKey E sc i) (nu sc i) (unat j) < unat w" "roomAt E w sc i (Suc (unat j))"
    using assms(2-4) by auto
  then show "unat j < maxChild" by (simp add: roomAt_def)
  have l: "unat w \<le> nValid (deriveKey E sc i) (nu sc i) (unat (horizon (brAt rs sc i)))"
    "brOk (deriveKey E sc i) (brAt rs sc i)"
    using assms(1,3) by (auto simp: scanOk_def branchesOk_def lookahead_def)
  have "nValid (deriveKey E sc i) (nu sc i) m \<le> nValid (deriveKey E sc i) (nu sc i) n" if "m \<le> n" for m n
    using that unfolding nValid_def by (intro card_mono) auto
  then have "unat j < unat (horizon (brAt rs sc i))" using g(1) l(1) by (meson leD leI le_trans)
  then show "deriveKey E sc i j = Derived a \<Longrightarrow> map_of (addresses (brAt rs sc i)) j = Some a"
    using brOkD(5) [OF l(2)] by (simp add: word_less_nat_alt)
qed

lemma block_covered:
  assumes "scanOk E w scs rs nu" "gapOk E w scs txsOf nu (b # bs)" "tx \<in> set (txsOf b)"
  shows "paysTo (chainFns E) tx \<inter> reqKeys E scs rs = paysTo (chainFns E) tx \<inter> walletTexts E scs"
proof -
  have "t \<in> reqKeys E scs rs" if t: "t \<in> paysTo (chainFns E) tx" "t \<in> walletTexts E scs" for t
  proof -
    obtain a sc i j where a: "t = enc (chainFns E) a" "sc \<in> set scs" "deriveKey E sc i j = Derived a"
      using t(2) unfolding walletTexts_def by blast
    then have "j \<in> paid E (txsOf b) sc i" using t(1) assms(3) unfolding paid_def by blast
    from paid_registered(2) [OF assms(1,2) a(2) this a(3)] show ?thesis
      using a unfolding reqKeys_def by blast
  qed
  then show ?thesis using reqKeys_sub [of E w scs rs nu] assms(1) unfolding scanOk_def by blast
qed

section \<open>Reporting what was found\<close>

text \<open>\<open>recs\<close> reads the recorded transactions off the wallet's state: recording appends one, the
  address manager's operations leave them alone.\<close>

definition recLaws :: "('addr, 'w) recoveryEnv \<Rightarrow> ('w \<Rightarrow> (MsgTx \<times> BlockMeta) list) \<Rightarrow> bool" where
  "recLaws E recs \<longleftrightarrow>
     (\<forall>sc i n w w'. extendAddresses E sc i n w = Some w' \<longrightarrow> recs w' = recs w) \<and>
     (\<forall>sc a w w'. markUsed E sc a w = Some w' \<longrightarrow> recs w' = recs w) \<and>
     (\<forall>tx b w w'. addRelevant E tx b w = Some w' \<longrightarrow> recs w' = recs w @ [(tx, b)])"

definition opsSucceed :: "('addr, 'w) recoveryEnv \<Rightarrow> bool" where
  "opsSucceed E \<longleftrightarrow> (\<forall>sc i n w. extendAddresses E sc i n w \<noteq> None) \<and> (\<forall>sc a w. markUsed E sc a w \<noteq> None) \<and>
     (\<forall>tx b w. addRelevant E tx b w \<noteq> None)"

lemma recLawsD:
  assumes "recLaws E recs"
  shows "extendAddresses E sc i n w = Some w' \<Longrightarrow> recs w' = recs w"
    "markUsed E sc a w = Some w' \<Longrightarrow> recs w' = recs w"
    "addRelevant E tx b w = Some w' \<Longrightarrow> recs w' = recs w @ [(tx, b)]"
  using assms unfolding recLaws_def by blast+

lemma opsSucceedD:
  assumes "opsSucceed E"
  shows "extendAddresses E sc i n w \<noteq> None" "markUsed E sc a w \<noteq> None" "addRelevant E tx b w \<noteq> None"
  using assms unfolding opsSucceed_def by blast+

lemma foundPairs_Nil [simp]: "foundPairs [] = {}"
  by (simp add: foundPairs_def)

lemma foundPairs_Cons: "foundPairs ((sc, is) # m) = Pair sc ` set is \<union> foundPairs m"
  by (auto simp: foundPairs_def)

lemma reportScope_ok:
  assumes "reportScope E scs i (sc, is) (rs, w) = Inr (rs', w')" "branchesOk E win scs rs nu" "recLaws E recs"
    "sc \<in> set scs" "\<And>j. j \<in> set is \<Longrightarrow> unat j < maxChild"
  shows "branchesOk E win scs rs' (\<lambda>sc' i'. if sc' = sc \<and> i' = i then advance (nu sc' i') (set is) else nu sc' i') \<and>
    watchedOutPoints rs' = watchedOutPoints rs \<and> recs w' = recs w"
proof -
  obtain st rs0 where s: "StateForScope sc rs = (st, rs0)" by (cases "StateForScope sc rs")
  have b0: "brAt rs0 = brAt rs" "watchedOutPoints rs0 = watchedOutPoints rs" "branchOf k st = brAt rs sc k" for k
    using StateForScope_snd [of sc rs] by (simp_all add: s brAt_def)
  define b where "b = fold ReportFound is (branchOf i st)"
  have f: "fold_err (\<lambda>j w. case markUsed E sc (GetAddr j b) w of None \<Rightarrow> Inl ManagerFailed | Some w \<Rightarrow> Inr w) is w1 =
      Inr w2 \<Longrightarrow> recs w2 = recs w1" for w1 w2
    by (erule fold_err_inv) (auto dest: recLawsD(2) [OF assms(3)] split: option.splits)
  have r: "rs' = rs0\<lparr>scopes := (scopes rs0)(sc \<mapsto> putBranch i b st)\<rparr>" "recs w' = recs w"
    using assms(1) f
    by (auto simp: reportScope_def s Let_def b_def [symmetric] dest!: recLawsD(1) [OF assms(3)]
        split: if_splits option.splits sum.splits)
  have at: "brAt rs' sc' k = (if sc' = sc \<and> k = i then b else brAt rs sc' k)" for sc' k
    unfolding r(1) brAt_put branchOf_putBranch b0 by auto
  have "brOk (deriveKey E sc i) (brAt rs sc i)" using assms(2,4) by (simp add: branchesOk_def)
  from fold_ReportFound [OF this assms(5)]
  have "branchesOk E win scs rs' (\<lambda>sc' i'. if sc' = sc \<and> i' = i then advance (nu sc' i') (set is) else nu sc' i')"
    using assms(2) unfolding branchesOk_def at by (auto simp: b_def b0)
  then show ?thesis using r by (simp add: b0)
qed

definition foundIn :: "KeyScope list \<Rightarrow> foundAddrs \<Rightarrow> bool" where
  "foundIn scs m \<longleftrightarrow> (\<forall>x \<in> set m. fst x \<in> set scs \<and> (\<forall>j \<in> set (snd x). unat j < maxChild))"

lemma reportAll_ok:
  assumes "fold_err (reportScope E scs i) m (rs, w) = Inr (rs', w')" "branchesOk E win scs rs nu" "recLaws E recs"
    "foundIn scs m"
  shows "branchesOk E win scs rs' (\<lambda>sc k. if k = i then advance (nu sc k) {j. (sc, j) \<in> foundPairs m} else nu sc k) \<and>
    watchedOutPoints rs' = watchedOutPoints rs \<and> recs w' = recs w"
  using assms
proof (induction m arbitrary: rs w nu)
  case Nil
  moreover have "(\<lambda>sc k. if k = i then advance (nu sc k) {j. (sc, j) \<in> foundPairs []} else nu sc k) = nu"
    by (simp add: fun_eq_iff)
  ultimately show ?case by simp
next
  case (Cons x m)
  obtain sc "is" where x: "x = (sc, is)" by (cases x)
  have fi: "sc \<in> set scs" "\<And>j. j \<in> set is \<Longrightarrow> unat j < maxChild" "foundIn scs m"
    using Cons.prems(4) by (simp_all add: x foundIn_def)
  obtain rs1 w1 where s: "reportScope E scs i (sc, is) (rs, w) = Inr (rs1, w1)"
    "fold_err (reportScope E scs i) m (rs1, w1) = Inr (rs', w')"
    using Cons.prems(1) by (auto simp: x split: sum.splits)
  let ?nu1 = "\<lambda>sc' i'. if sc' = sc \<and> i' = i then advance (nu sc' i') (set is) else nu sc' i'"
  have one: "branchesOk E win scs rs1 ?nu1 \<and> watchedOutPoints rs1 = watchedOutPoints rs \<and> recs w1 = recs w"
    by (rule reportScope_ok [OF s(1) Cons.prems(2,3) fi(1,2)])
  have rest: "branchesOk E win scs rs' (\<lambda>sc k. if k = i then advance (?nu1 sc k) {j. (sc, j) \<in> foundPairs m} else ?nu1 sc k) \<and>
      watchedOutPoints rs' = watchedOutPoints rs1 \<and> recs w' = recs w1"
    by (rule Cons.IH [OF s(2) conjunct1 [OF one] Cons.prems(3) fi(3)])
  have "{j. (sc', j) \<in> foundPairs (x # m)} = (if sc' = sc then set is else {}) \<union> {j. (sc', j) \<in> foundPairs m}" for sc'
    by (auto simp: x foundPairs_Cons)
  then have "(\<lambda>sc k. if k = i then advance (?nu1 sc k) {j. (sc, j) \<in> foundPairs m} else ?nu1 sc k) =
      (\<lambda>sc k. if k = i then advance (nu sc k) {j. (sc, j) \<in> foundPairs (x # m)} else nu sc k)"
    by (auto simp: fun_eq_iff advance_union)
  then show ?case using rest one by simp
qed

lemma reportScope_total:
  assumes "opsSucceed E" "sc \<in> set scs"
  shows "\<exists>rw'. reportScope E scs i (sc, is) (rs, w) = Inr rw'"
proof -
  obtain st rs0 where s: "StateForScope sc rs = (st, rs0)" by (cases "StateForScope sc rs")
  define b where "b = fold ReportFound is (branchOf i st)"
  define n where "n = (if nextUnfound b > 0 then nextUnfound b - 1 else nextUnfound b)"
  obtain w1 where w1: "extendAddresses E sc i n w = Some w1" using opsSucceedD(1) [OF assms(1)] by blast
  have "\<exists>w'. fold_err (\<lambda>j w. case markUsed E sc (GetAddr j b) w of None \<Rightarrow> Inl ManagerFailed | Some w \<Rightarrow> Inr w) is w1 =
      Inr w' \<and> True"
    by (rule fold_err_total) (use opsSucceedD(2) [OF assms(1)] in \<open>auto split: option.splits\<close>)
  then obtain w2 where "fold_err (\<lambda>j w. case markUsed E sc (GetAddr j b) w of None \<Rightarrow> Inl ManagerFailed | Some w \<Rightarrow> Inr w) is w1 =
      Inr w2" by blast
  then show ?thesis
    using w1 assms(2)
    unfolding reportScope_def Let_def prod.case s b_def [symmetric] n_def [symmetric] by simp
qed

lemma reportAll_total:
  fixes E :: "('addr, 'w) recoveryEnv"
  assumes "opsSucceed E" "foundIn scs m"
  shows "\<exists>rw'. fold_err (reportScope E scs i) m rw = Inr rw'"
proof -
  have "\<exists>rw'. fold_err (reportScope E scs i) m rw = Inr rw' \<and> True"
  proof (rule fold_err_total)
    fix x and rw :: "'addr RecoveryState \<times> 'w" assume "x \<in> set m"
    then have "fst x \<in> set scs" using assms(2) by (simp add: foundIn_def)
    from reportScope_total [OF assms(1) this] show "\<exists>rw'. reportScope E scs i x rw = Inr rw' \<and> True"
      by (metis prod.collapse)
  qed simp
  then show ?thesis by simp
qed

lemma addFound_recs:
  assumes "recLaws E recs" "addFound E b txs w = Inr w'"
  shows "recs w' = recs w @ map (\<lambda>tx. (tx, b)) txs"
  using assms(2) unfolding addFound_def
proof (induction txs arbitrary: w)
  case (Cons tx txs)
  then obtain w1 where "addRelevant E tx b w = Some w1"
    "fold_err (\<lambda>tx w. case addRelevant E tx b w of None \<Rightarrow> Inl TxFailed | Some w \<Rightarrow> Inr w) txs w1 = Inr w'"
    by (auto split: option.splits)
  then show ?case using Cons.IH recLawsD(3) [OF assms(1)] by fastforce
qed simp

lemma addFound_total: "opsSucceed E \<Longrightarrow> \<exists>w'. addFound E b txs w = Inr w'"
proof -
  assume o: "opsSucceed E"
  have "\<exists>w'. addFound E b txs w = Inr w' \<and> True"
    unfolding addFound_def
    by (rule fold_err_total) (use opsSucceedD(3) [OF o] in \<open>auto split: option.splits\<close>)
  then show ?thesis by simp
qed

definition visitsAll :: "(foundAddrs \<Rightarrow> foundAddrs) \<Rightarrow> bool" where
  "visitsAll visit \<longleftrightarrow>
     (\<forall>m. goodFound m \<longrightarrow> foundPairs (visit m) = foundPairs m \<and> fst ` set (visit m) = fst ` set m)"

text \<open>Addresses of different indexes of a branch have different texts.\<close>

definition encInj :: "('addr, 'w) recoveryEnv \<Rightarrow> KeyScope list \<Rightarrow> bool" where
  "encInj E scs \<longleftrightarrow>
     (\<forall>i. \<forall>sc \<in> set scs. \<forall>sc' \<in> set scs. \<forall>j j' a a'. deriveKey E sc i j = Derived a \<and> deriveKey E sc' i j' = Derived a' \<and>
        enc (chainFns E) a = enc (chainFns E) a' \<longrightarrow> sc = sc' \<and> j = j')"

lemma foundIn_visit:
  assumes "visitsAll visit" "goodFound m" "foundPairs m = {(sc, j). sc \<in> set scs \<and> j \<in> P sc}"
    "\<And>sc j. sc \<in> set scs \<Longrightarrow> j \<in> P sc \<Longrightarrow> unat j < maxChild"
  shows "foundIn scs (visit m)"
  unfolding foundIn_def
proof (intro ballI conjI)
  have v: "foundPairs (visit m) = foundPairs m" "fst ` set (visit m) = fst ` set m"
    using assms(1,2) by (auto simp: visitsAll_def)
  fix x assume x: "x \<in> set (visit m)"
  then have "fst x \<in> fst ` set m" using v(2) by blast
  then obtain y where y: "y \<in> set m" "fst y = fst x" by auto
  then have "snd y \<noteq> []" using assms(2) by (simp add: goodFound_def)
  then have "(fst x, hd (snd y)) \<in> foundPairs m"
    unfolding foundPairs_def using y by (metis (mono_tags, lifting) case_prodI hd_in_set mem_Collect_eq prod.collapse)
  then show "fst x \<in> set scs" using assms(3) by blast
  fix j assume "j \<in> set (snd x)"
  then have "(fst x, j) \<in> foundPairs (visit m)"
    unfolding foundPairs_def using x by (metis (mono_tags, lifting) case_prodI mem_Collect_eq prod.collapse)
  then have "(fst x, j) \<in> foundPairs m" by (simp only: v(1))
  then show "unat j < maxChild" unfolding assms(3) using assms(4) by blast
qed

lemma request_found:
  assumes "scanOk E w scs rs nu" "gapOk E w scs txsOf nu (b # bs)" "encInj E scs"
  shows "{si. \<exists>tx \<in> set (txsOf b). \<exists>t \<in> paysTo (chainFns E) tx. reverseFilter (chainFns E) (scopeAddrs i scs rs) t = Some si} =
    {(sc, j). sc \<in> set scs \<and> j \<in> paid E (txsOf b) sc i}"
proof -
  have br: "branchesOk E w scs rs nu" using assms(1) by (simp add: scanOk_def)
  note sa = scopeAddrs_set [OF br]
  have reg: "deriveKey E sc i j = Derived a" if "sc \<in> set scs" "map_of (addresses (brAt rs sc i)) j = Some a" for sc j a
    using br that brOkD(4) [of "deriveKey E sc i" "brAt rs sc i" j a] by (simp add: branchesOk_def)
  have inj: "sc = sc' \<and> j = j'"
    if "((sc, j), a) \<in> set (scopeAddrs i scs rs)" "((sc', j'), a') \<in> set (scopeAddrs i scs rs)"
      "enc (chainFns E) a = enc (chainFns E) a'" for sc j a sc' j' a'
    using that assms(3) reg unfolding sa encInj_def by blast
  have "encOk (chainFns E) (scopeAddrs i scs rs)"
    unfolding encOk_def
  proof (safe, goal_cases)
    case (1 p q j a p' q' j' a')
    then show ?case using inj [of "(p, q)" j a "(p', q')" j' a'] by simp
  next
    case (2 p q j a p' q' j' a')
    then show ?case using inj [of "(p, q)" j a "(p', q')" j' a'] by simp
  next
    case (3 p q j a p' q' j' a')
    then show ?case using inj [of "(p, q)" j a "(p', q')" j' a'] by simp
  qed
  note rf = reverseFilter_Some [OF this]
  have "((sc, j) \<in> {si. \<exists>tx \<in> set (txsOf b). \<exists>t \<in> paysTo (chainFns E) tx. reverseFilter (chainFns E) (scopeAddrs i scs rs) t = Some si}) =
      (sc \<in> set scs \<and> j \<in> paid E (txsOf b) sc i)" for sc j
  proof
    assume "(sc, j) \<in> {si. \<exists>tx \<in> set (txsOf b). \<exists>t \<in> paysTo (chainFns E) tx. reverseFilter (chainFns E) (scopeAddrs i scs rs) t = Some si}"
    then obtain tx a where "tx \<in> set (txsOf b)" "enc (chainFns E) a \<in> paysTo (chainFns E) tx"
      "((sc, j), a) \<in> set (scopeAddrs i scs rs)" unfolding rf by blast
    then show "sc \<in> set scs \<and> j \<in> paid E (txsOf b) sc i" using reg unfolding sa paid_def by blast
  next
    assume p: "sc \<in> set scs \<and> j \<in> paid E (txsOf b) sc i"
    then obtain a tx where a: "deriveKey E sc i j = Derived a" "tx \<in> set (txsOf b)" "enc (chainFns E) a \<in> paysTo (chainFns E) tx"
      unfolding paid_def by blast
    have "((sc, j), a) \<in> set (scopeAddrs i scs rs)"
      unfolding sa using paid_registered(2) [OF assms(1,2) conjunct1 [OF p] conjunct2 [OF p] a(1)] p by blast
    then show "(sc, j) \<in> {si. \<exists>tx \<in> set (txsOf b). \<exists>t \<in> paysTo (chainFns E) tx. reverseFilter (chainFns E) (scopeAddrs i scs rs) t = Some si}"
      using a(2,3) unfolding rf by blast
  qed
  note member = this
  show ?thesis
  proof (rule set_eqI)
    fix x :: ScopedIndex
    obtain sc j where x: "x = (sc, j)" by (cases x)
    show "(x \<in> {si. \<exists>tx \<in> set (txsOf b). \<exists>t \<in> paysTo (chainFns E) tx. reverseFilter (chainFns E) (scopeAddrs i scs rs) t = Some si}) =
        (x \<in> {(sc, j). sc \<in> set scs \<and> j \<in> paid E (txsOf b) sc i})"
      using member [of sc j] unfolding x by (simp only: mem_Collect_eq prod.case)
  qed
qed

lemma gapOk_cong:
  "(\<And>sc i. sc \<in> set scs \<Longrightarrow> nu sc i = nu' sc i) \<Longrightarrow> gapOk E w scs txsOf nu bs = gapOk E w scs txsOf nu' bs"
proof (induction bs arbitrary: nu nu')
  case (Cons b bs)
  from Cons.IH [of "\<lambda>sc i. advance (nu sc i) (paid E (txsOf b) sc i)" "\<lambda>sc i. advance (nu' sc i) (paid E (txsOf b) sc i)"]
  show ?case using Cons.prems by simp
qed simp

lemma lastFoundAfter_cong:
  "(\<And>i. nu sc i = nu' sc i) \<Longrightarrow> lastFoundAfter E txsOf nu bs sc i = lastFoundAfter E txsOf nu' bs sc i"
proof (induction bs arbitrary: nu nu')
  case (Cons b bs)
  from Cons.IH [of "\<lambda>sc i. advance (nu sc i) (paid E (txsOf b) sc i)" "\<lambda>sc i. advance (nu' sc i) (paid E (txsOf b) sc i)"]
  show ?case using Cons.prems by simp
qed simp

lemma paid_irrelevant:
  assumes "scanOk E w scs rs nu" "gapOk E w scs txsOf nu (b # bs)"
    "relevantTxs (chainFns E) (reqKeys E scs rs) W (txsOf b) = []" "sc \<in> set scs"
  shows "paid E (txsOf b) sc i = {}"
proof (rule equals0I)
  fix j assume "j \<in> paid E (txsOf b) sc i"
  then obtain a tx where a: "deriveKey E sc i j = Derived a" "tx \<in> set (txsOf b)" "enc (chainFns E) a \<in> paysTo (chainFns E) tx"
    unfolding paid_def by blast
  have "enc (chainFns E) a \<in> walletTexts E scs" using a(1) assms(4) unfolding walletTexts_def by blast
  then have "enc (chainFns E) a \<in> reqKeys E scs rs" using block_covered [OF assms(1,2) a(2)] a(3) by blast
  then show False using relevantTxs_Nil(1) [OF assms(3)] a(2,3) by blast
qed

text \<open>Blocks without a match in the request have nothing for the wallet.\<close>

lemma irrelevant_prefix:
  assumes "scanOk E w scs rs nu" "gapOk E w scs txsOf nu (pre @ rest)"
    "\<And>b. b \<in> set pre \<Longrightarrow> relevantTxs (chainFns E) (reqKeys E scs rs) W (txsOf b) = []"
  shows "gapOk E w scs txsOf nu rest \<and>
    walletScan (chainFns E) (walletTexts E scs) txsOf W (pre @ rest) = walletScan (chainFns E) (walletTexts E scs) txsOf W rest \<and>
    (\<forall>sc \<in> set scs. \<forall>i. lastFoundAfter E txsOf nu (pre @ rest) sc i = lastFoundAfter E txsOf nu rest sc i)"
  using assms(2,3)
proof (induction pre)
  case (Cons b pre)
  let ?C = "chainFns E" and ?A = "walletTexts E scs"
  let ?nu1 = "\<lambda>sc i. advance (nu sc i) (paid E (txsOf b) sc i)"
  have g: "gapOk E w scs txsOf nu (b # pre @ rest)" using Cons.prems(1) by simp
  have nil: "relevantTxs ?C (reqKeys E scs rs) W (txsOf b) = []" using Cons.prems(2) by simp
  have same: "paysTo ?C tx \<inter> reqKeys E scs rs = paysTo ?C tx \<inter> ?A" if "tx \<in> set (txsOf b)" for tx
    by (rule block_covered [OF assms(1) g that])
  note cong = relevantTxs_cong [of "txsOf b" ?C "reqKeys E scs rs" ?A, OF same]
  have nilA: "relevantTxs ?C ?A W (txsOf b) = []" using cong(1) [of W] nil by simp
  have nu1: "?nu1 sc i = nu sc i" if "sc \<in> set scs" for sc i
    using paid_irrelevant [OF assms(1) g nil that] by simp
  have "gapOk E w scs txsOf nu (pre @ rest)"
    using g gapOk_cong [of scs ?nu1 nu E w txsOf "pre @ rest"] nu1 by simp
  from Cons.IH [OF this] Cons.prems(2)
  have IH: "gapOk E w scs txsOf nu rest"
    "walletScan ?C ?A txsOf W (pre @ rest) = walletScan ?C ?A txsOf W rest"
    "\<And>sc i. sc \<in> set scs \<Longrightarrow> lastFoundAfter E txsOf nu (pre @ rest) sc i = lastFoundAfter E txsOf nu rest sc i"
    by auto
  have "walletScan ?C ?A txsOf W (b # pre @ rest) = walletScan ?C ?A txsOf W (pre @ rest)"
    using nilA relevantTxs_Nil(2) [OF nilA] by simp
  moreover have "lastFoundAfter E txsOf nu (b # pre @ rest) sc i = lastFoundAfter E txsOf nu (pre @ rest) sc i"
    if "sc \<in> set scs" for sc i
    using lastFoundAfter_cong [of ?nu1 sc nu E txsOf "pre @ rest" i] nu1 [OF that] by simp
  ultimately show ?case using IH by simp
qed simp

lemma branchesOk_cong:
  "branchesOk E w scs rs nu \<Longrightarrow> (\<And>sc i. sc \<in> set scs \<Longrightarrow> nu sc i = nu' sc i) \<Longrightarrow> branchesOk E w scs rs nu'"
  by (simp add: branchesOk_def)

lemma advance_cases: "advance n I = n \<or> (\<exists>j \<in> I. advance n I = Suc (unat j))"
proof -
  have "advance n I \<in> insert n ((\<lambda>i. Suc (unat i)) ` I)" unfolding advance_def by (rule Max_in) simp_all
  then show ?thesis by blast
qed

lemma extendFound_ok:
  assumes res: "extendFoundAddresses E visit scs resp (rs, w) = Inr (rs', w')"
    and ok: "branchesOk E win scs rs nu" "recLaws E recs" "visitsAll visit"
    and good: "goodFound (FoundExternalAddrs resp)" "goodFound (FoundInternalAddrs resp)"
    and found: "foundPairs (FoundExternalAddrs resp) = {(sc, j). sc \<in> set scs \<and> j \<in> P sc False}"
      "foundPairs (FoundInternalAddrs resp) = {(sc, j). sc \<in> set scs \<and> j \<in> P sc True}"
    and small: "\<And>sc i j. sc \<in> set scs \<Longrightarrow> j \<in> P sc i \<Longrightarrow> unat j < maxChild"
  shows "branchesOk E win scs rs' (\<lambda>sc i. advance (nu sc i) (P sc i)) \<and>
    watchedOutPoints rs' = watchedOutPoints rs \<and> recs w' = recs w"
proof -
  let ?ex = "visit (FoundExternalAddrs resp)" and ?in = "visit (FoundInternalAddrs resp)"
  obtain rs1 w1 where s: "fold_err (reportScope E scs False) ?ex (rs, w) = Inr (rs1, w1)"
    "fold_err (reportScope E scs True) ?in (rs1, w1) = Inr (rs', w')"
    using res by (auto simp: extendFoundAddresses_def split: sum.splits)
  have fi: "foundIn scs ?ex" "foundIn scs ?in"
    using foundIn_visit [OF ok(3) good(1) found(1)] foundIn_visit [OF ok(3) good(2) found(2)] small by blast+
  have fp: "foundPairs ?ex = {(sc, j). sc \<in> set scs \<and> j \<in> P sc False}"
    "foundPairs ?in = {(sc, j). sc \<in> set scs \<and> j \<in> P sc True}"
    using ok(3) good found by (simp_all add: visitsAll_def)
  have j: "{j. (sc, j) \<in> foundPairs ?ex} = P sc False" "{j. (sc, j) \<in> foundPairs ?in} = P sc True"
    if "sc \<in> set scs" for sc
    using that unfolding fp by auto
  note r1 = reportAll_ok [OF s(1) ok(1,2) fi(1)]
  note r2 = reportAll_ok [OF s(2) conjunct1 [OF r1] ok(2) fi(2)]
  have "branchesOk E win scs rs' (\<lambda>sc i. advance (nu sc i) (P sc i))"
    by (rule branchesOk_cong [OF conjunct1 [OF r2]]) (simp add: j)
  then show ?thesis using r1 r2 by simp
qed

lemma extendFound_total:
  assumes "opsSucceed E" "foundIn scs (visit (FoundExternalAddrs resp))" "foundIn scs (visit (FoundInternalAddrs resp))"
  shows "\<exists>rw'. extendFoundAddresses E visit scs resp rw = Inr rw'"
proof -
  obtain rw1 where "fold_err (reportScope E scs False) (visit (FoundExternalAddrs resp)) rw = Inr rw1"
    using reportAll_total [OF assms(1,2)] by blast
  then show ?thesis
    using reportAll_total [OF assms(1,3), of True rw1] by (simp add: extendFoundAddresses_def)
qed

section \<open>Recovery is complete within the gap limit\<close>

text \<open>What the scan relies on: derivation works for all the child indexes, the indexes stay below
  the hardened range, and the blocks can be fetched.\<close>

definition scanEnv ::
  "('addr, 'w) recoveryEnv \<Rightarrow> (foundAddrs \<Rightarrow> foundAddrs) \<Rightarrow> KeyScope list \<Rightarrow> ('w \<Rightarrow> (MsgTx \<times> BlockMeta) list) \<Rightarrow> bool" where
  "scanEnv E visit scs recs \<longleftrightarrow> distinct scs \<and> (\<forall>sc \<in> set scs. \<forall>i. derivable (deriveKey E sc i)) \<and>
     recLaws E recs \<and> visitsAll visit \<and> encInj E scs"

definition recovered ::
  "('addr, 'w) recoveryEnv \<Rightarrow> KeyScope list \<Rightarrow> (BlockMeta \<Rightarrow> MsgTx list) \<Rightarrow> ('w \<Rightarrow> (MsgTx \<times> BlockMeta) list) \<Rightarrow>
   (KeyScope \<Rightarrow> bool \<Rightarrow> nat) \<Rightarrow> BlockMeta list \<Rightarrow> 'addr RecoveryState \<times> 'w \<Rightarrow> 'addr RecoveryState \<times> 'w \<Rightarrow> bool" where
  "recovered E scs txsOf recs nu batch rw rw' \<longleftrightarrow>
     recs (snd rw') = recs (snd rw) @
       walletScan (chainFns E) (walletTexts E scs) txsOf (dom (watchedOutPoints (fst rw))) batch \<and>
     (\<forall>sc \<in> set scs. \<forall>i. unat (nextUnfound (brAt (fst rw') sc i)) = lastFoundAfter E txsOf nu batch sc i)"

text \<open>One request of the scan, against all the addresses of the wallet.\<close>

lemma scan_request:
  assumes ok: "scanOk E w scs rs nu" "gapOk E w scs txsOf nu batch" "encInj E scs"
    and blocks: "\<forall>b \<in> set batch. getBlock E (bHash (block b)) = Some (txsOf b)"
    and C: "C = chainFns E" and A: "A = walletTexts E scs" and W: "W = dom (watchedOutPoints rs)"
    and req: "req = newFilterBlocksRequest batch scs rs"
  shows "(FilterBlocks C (getBlock E) req = Some None \<and> walletScan C A txsOf W batch = [] \<and>
      (\<forall>sc \<in> set scs. \<forall>i. lastFoundAfter E txsOf nu batch sc i = nu sc i)) \<or>
    (\<exists>resp pre b post. FilterBlocks C (getBlock E) req = Some (Some resp) \<and> batch = pre @ b # post \<and>
      BatchIndex resp = of_nat (length pre) \<and> respBlock resp = b \<and> gapOk E w scs txsOf nu (b # post) \<and>
      walletScan C A txsOf W batch = walletScan C A txsOf W (b # post) \<and>
      (\<forall>sc \<in> set scs. \<forall>i. lastFoundAfter E txsOf nu batch sc i = lastFoundAfter E txsOf nu (b # post) sc i) \<and>
      respTxns resp = relevantTxs C A W (txsOf b) \<and>
      dom (respOutPoints resp) = (\<Union>tx \<in> set (txsOf b). ownOuts C A tx) \<and>
      goodFound (FoundExternalAddrs resp) \<and> goodFound (FoundInternalAddrs resp) \<and>
      foundPairs (FoundExternalAddrs resp) = {(sc, j). sc \<in> set scs \<and> j \<in> paid E (txsOf b) sc False} \<and>
      foundPairs (FoundInternalAddrs resp) = {(sc, j). sc \<in> set scs \<and> j \<in> paid E (txsOf b) sc True})"
    (is "?none \<or> ?some")
proof -
  define bf where "bf = NewBlockFilterer C req"
  have br: "branchesOk E w scs rs nu" using ok(1) by (simp add: scanOk_def)
  have k: "filterKeys bf = reqKeys E scs rs" "bfWatched bf = watchedOutPoints rs"
    "ExReverseFilter bf = reverseFilter C (scopeAddrs False scs rs)"
    "InReverseFilter bf = reverseFilter C (scopeAddrs True scs rs)"
    unfolding bf_def C req by (rule reqKeys_filterKeys [OF br]) (simp_all add: NewBlockFilterer_def newFilterBlocksRequest_def)
  have rb: "reqBlocks req = batch" by (simp add: req newFilterBlocksRequest_def)
  let ?nil = "\<lambda>b. relevantTxs C (reqKeys E scs rs) W (txsOf b) = []"
  obtain resp where r: "FilterBlocks C (getBlock E) req = Some resp" "answers C txsOf bf 0 batch resp"
    using FilterBlocks_answers [of req "getBlock E" txsOf C] blocks unfolding bf_def rb by blast
  note ans = r(2) [unfolded answers_def Let_def k(1,2), folded W]
  show ?thesis
  proof (cases "dropWhile ?nil batch")
    case Nil
    then have all: "relevantTxs (chainFns E) (reqKeys E scs rs) W (txsOf b) = []" if "b \<in> set batch" for b
      using that unfolding C by (simp add: dropWhile_eq_Nil_conv)
    have "resp = None" using ans unfolding Nil by (simp only: list.case)
    moreover note irrelevant_prefix [of E w scs rs nu txsOf batch "[]" W, simplified, OF ok(1,2) all]
    ultimately have ?none using r(1) unfolding A C by simp
    then show ?thesis ..
  next
    case (Cons b post)
    define pre where "pre = takeWhile ?nil batch"
    have split: "batch = pre @ b # post"
      using takeWhile_dropWhile_id [of ?nil batch] unfolding Cons pre_def by (rule sym)
    have pn: "relevantTxs (chainFns E) (reqKeys E scs rs) W (txsOf b) = []" if "b \<in> set pre" for b
      using set_takeWhileD [of b ?nil batch] that unfolding pre_def C by blast
    note skip = irrelevant_prefix [OF ok(1) ok(2) [unfolded split] pn, folded split]
    have g: "gapOk E w scs txsOf nu (b # post)" using skip by blast
    have same: "paysTo C tx \<inter> reqKeys E scs rs = paysTo C tx \<inter> A" if "tx \<in> set (txsOf b)" for tx
      unfolding C A by (rule block_covered [OF ok(1) g that])
    note cong = relevantTxs_cong [of "txsOf b" C "reqKeys E scs rs" A, OF same]
    have own: "(\<Union>tx \<in> set (txsOf b). ownOuts C (reqKeys E scs rs) tx) = (\<Union>tx \<in> set (txsOf b). ownOuts C A tx)"
      by (rule SUP_cong) (simp_all add: cong(2))
    obtain q where q: "resp = Some q" "BatchIndex q = of_nat (length pre)" "respBlock q = b"
      "respTxns q = relevantTxs C A W (txsOf b)" "dom (respOutPoints q) = (\<Union>tx \<in> set (txsOf b). ownOuts C A tx)"
      "goodFound (FoundExternalAddrs q)" "goodFound (FoundInternalAddrs q)"
      "foundPairs (FoundExternalAddrs q) = {(sc, j). sc \<in> set scs \<and> j \<in> paid E (txsOf b) sc False}"
      "foundPairs (FoundInternalAddrs q) = {(sc, j). sc \<in> set scs \<and> j \<in> paid E (txsOf b) sc True}"
      using ans [unfolded Cons list.case pre_def [symmetric] own cong(1) k(3,4),
          unfolded C, unfolded request_found [OF ok(1) g ok(3)]] cong(1) [of W] unfolding C by auto
    have ?some
      by (rule exI [of _ q], rule exI [of _ pre], rule exI [of _ b], rule exI [of _ post])
        (use r(1) q split g skip in \<open>simp add: A C\<close>)
    then show ?thesis ..
  qed
qed

lemma brAt_watchFound: "brAt (watchFound f rs) = brAt rs" "dom (watchedOutPoints (watchFound f rs)) = dom (watchedOutPoints rs) \<union> dom f"
  by (auto simp: fun_eq_iff brAt_def watchFound_def StateForScope_def Let_def split: option.splits)

text \<open>Recording what a request found, and then the rest of the batch.\<close>

lemma scan_found:
  assumes env: "recLaws E recs" "visitsAll visit" and ok: "scanOk E win scs rs nu" "gapOk E win scs txsOf nu (b # post)"
    and room: "\<And>sc i. sc \<in> set scs \<Longrightarrow> roomAt E win sc i (nu sc i)"
    and resp: "respBlock resp = b" "respTxns resp = relevantTxs (chainFns E) A (dom (watchedOutPoints rs)) (txsOf b)"
      "dom (respOutPoints resp) = (\<Union>tx \<in> set (txsOf b). ownOuts (chainFns E) A tx)" "A = walletTexts E scs"
      "goodFound (FoundExternalAddrs resp)" "goodFound (FoundInternalAddrs resp)"
      "foundPairs (FoundExternalAddrs resp) = {(sc, j). sc \<in> set scs \<and> j \<in> paid E (txsOf b) sc False}"
      "foundPairs (FoundInternalAddrs resp) = {(sc, j). sc \<in> set scs \<and> j \<in> paid E (txsOf b) sc True}"
    and IH: "\<And>rs w nu. branchesOk E win scs rs nu \<Longrightarrow> (\<And>sc i. sc \<in> set scs \<Longrightarrow> roomAt E win sc i (nu sc i)) \<Longrightarrow>
      gapOk E win scs txsOf nu post \<Longrightarrow> \<exists>r. recoverScopedAddresses E visit scs post (rs, w) = Some r \<and>
        (\<forall>rw'. r = Inr rw' \<longrightarrow> recovered E scs txsOf recs nu post (rs, w) rw') \<and> (opsSucceed E \<longrightarrow> (\<exists>rw'. r = Inr rw'))"
  shows "\<exists>r. (case extendFoundAddresses E visit scs resp (rs, w) of
        Inl e \<Rightarrow> Some (Inl e)
      | Inr (rs, w) \<Rightarrow>
          (case addFound E (respBlock resp) (respTxns resp) w of
             Inl e \<Rightarrow> Some (Inl e)
           | Inr w \<Rightarrow> recoverScopedAddresses E visit scs post (watchFound (respOutPoints resp) rs, w))) = Some r \<and>
    (\<forall>rw'. r = Inr rw' \<longrightarrow> recovered E scs txsOf recs nu (b # post) (rs, w) rw') \<and> (opsSucceed E \<longrightarrow> (\<exists>rw'. r = Inr rw'))"
proof -
  let ?P = "\<lambda>sc i. paid E (txsOf b) sc i"
  let ?nu = "\<lambda>sc i. advance (nu sc i) (?P sc i)"
  have small: "unat j < maxChild" if "sc \<in> set scs" "j \<in> ?P sc i" for sc i j
    by (rule paid_registered(1) [OF ok that])
  show ?thesis
  proof (cases "extendFoundAddresses E visit scs resp (rs, w)")
    case (Inl err)
    have "foundIn scs (visit (FoundExternalAddrs resp))" "foundIn scs (visit (FoundInternalAddrs resp))"
      using foundIn_visit [OF env(2) resp(5,7)] foundIn_visit [OF env(2) resp(6,8)] small by blast+
    then have "\<not> opsSucceed E" using extendFound_total [of E scs visit resp "(rs, w)"] Inl by auto
    then show ?thesis using Inl by simp
  next
    case (Inr rw2)
    obtain rs2 w2 where rw2: "rw2 = (rs2, w2)" by (cases rw2)
    have f: "branchesOk E win scs rs2 ?nu" "watchedOutPoints rs2 = watchedOutPoints rs" "recs w2 = recs w"
      using extendFound_ok [OF Inr [unfolded rw2] _ env resp(5-8) small] ok(1) by (auto simp: scanOk_def)
    show ?thesis
    proof (cases "addFound E (respBlock resp) (respTxns resp) w2")
      case (Inl err)
      then have "\<not> opsSucceed E" using addFound_total [of E] by (metis sum.distinct(1))
      then show ?thesis using Inr Inl by (simp add: rw2)
    next
      case found: (Inr w3)
      let ?rs3 = "watchFound (respOutPoints resp) rs2"
      have rec: "recs w3 = recs w @ map (\<lambda>tx. (tx, b)) (respTxns resp)"
        using addFound_recs [OF env(1) found] f(3) by (simp add: resp(1))
      have "branchesOk E win scs ?rs3 ?nu" using f(1) by (simp add: branchesOk_def brAt_watchFound)
      moreover have "roomAt E win sc i (?nu sc i)" if "sc \<in> set scs" for sc i
        using advance_cases [of "nu sc i" "?P sc i"] room [OF that] ok(2) that by auto
      moreover have "gapOk E win scs txsOf ?nu post" using ok(2) by simp
      ultimately obtain r where r: "recoverScopedAddresses E visit scs post (?rs3, w3) = Some r"
        "\<And>rw'. r = Inr rw' \<Longrightarrow> recovered E scs txsOf recs ?nu post (?rs3, w3) rw'"
        "opsSucceed E \<Longrightarrow> \<exists>rw'. r = Inr rw'"
        using IH [of ?rs3 ?nu w3] by blast
      have "recovered E scs txsOf recs nu (b # post) (rs, w) rw'" if "r = Inr rw'" for rw'
        using r(2) [OF that] rec f(2) unfolding recovered_def resp(2-4) by (simp add: brAt_watchFound resp(2-4))
      then show ?thesis using r(1,3) Inr found by (auto simp: rw2)
    qed
  qed
qed

lemma recover_exact:
  assumes env: "scanEnv E visit scs recs"
    and blocks: "\<forall>b \<in> set batch. getBlock E (bHash (block b)) = Some (txsOf b)"
    and len: "length batch < 2 ^ 32"
    and st: "branchesOk E win scs rs nu" "\<And>sc i. sc \<in> set scs \<Longrightarrow> roomAt E win sc i (nu sc i)"
    and gap: "gapOk E win scs txsOf nu batch"
  shows "\<exists>r. recoverScopedAddresses E visit scs batch (rs, w) = Some r \<and>
    (\<forall>rw'. r = Inr rw' \<longrightarrow> recovered E scs txsOf recs nu batch (rs, w) rw') \<and>
    (opsSucceed E \<longrightarrow> (\<exists>rw'. r = Inr rw'))"
  using blocks len st gap
proof (induction "length batch" arbitrary: batch rs w nu rule: less_induct)
  case less
  have e: "distinct scs" "recLaws E recs" "visitsAll visit" "encInj E scs"
    "derivable (deriveKey E sc i)" if "sc \<in> set scs" for sc i
    using env that by (auto simp: scanEnv_def)
  have e': "distinct scs" "recLaws E recs" "visitsAll visit" "encInj E scs" using env by (auto simp: scanEnv_def)
  note unfold = recoverScopedAddresses.simps [of E visit scs batch "(rs, w)"]
  show ?case
  proof (cases "batch = []")
    case True
    then show ?thesis using less.prems(3) by (simp add: recoverScopedAddresses.simps recovered_def branchesOk_def)
  next
    case False
    obtain rs1 where x: "expandAll E scs rs = Some (Inr rs1)" "watchedOutPoints rs1 = watchedOutPoints rs"
      "scanOk E win scs rs1 nu"
      using expandAll_lookahead [OF e'(1) less.prems(3)] e(5) less.prems(4) by (auto simp: scanOk_def)
    let ?C = "chainFns E" and ?A = "walletTexts E scs" and ?W = "dom (watchedOutPoints rs)"
    let ?req = "newFilterBlocksRequest batch scs rs1"
    note request = scan_request [OF x(3) less.prems(5) e'(4) less.prems(1) refl refl refl refl]
    from request [unfolded x(2)] show ?thesis
    proof (elim disjE exE conjE, goal_cases)
      case none: 1
      have "\<forall>sc \<in> set scs. \<forall>i. unat (nextUnfound (brAt rs1 sc i)) = nu sc i"
        using x(3) by (simp add: scanOk_def branchesOk_def)
      then show ?thesis using False none x(1) by (simp add: unfold recovered_def)
    next
      case some: (2 resp pre b post)
      have lt: "length post < length batch" "length post < 2 ^ 32" "unat (BatchIndex resp) = length pre"
        using some(2,3) less.prems(2) by (simp_all add: unat_of_nat)
      have IH: "\<exists>r. recoverScopedAddresses E visit scs post (rs, w) = Some r \<and>
          (\<forall>rw'. r = Inr rw' \<longrightarrow> recovered E scs txsOf recs nu post (rs, w) rw') \<and> (opsSucceed E \<longrightarrow> (\<exists>rw'. r = Inr rw'))"
        if "branchesOk E win scs rs nu" "\<And>sc i. sc \<in> set scs \<Longrightarrow> roomAt E win sc i (nu sc i)" "gapOk E win scs txsOf nu post"
        for rs w nu
        using less.hyps [OF lt(1) _ lt(2) that] less.prems(1) some(2) by simp
      have dr: "drop (unat (BatchIndex resp) + 1) batch = post" "\<not> length batch \<le> unat (BatchIndex resp)"
        using some(2) lt(3) by simp_all
      have step: "recoverScopedAddresses E visit scs batch (rs, w) =
          (case extendFoundAddresses E visit scs resp (rs1, w) of
             Inl e \<Rightarrow> Some (Inl e)
           | Inr (rs, w) \<Rightarrow>
               (case addFound E (respBlock resp) (respTxns resp) w of
                  Inl e \<Rightarrow> Some (Inl e)
                | Inr w \<Rightarrow> recoverScopedAddresses E visit scs post (watchFound (respOutPoints resp) rs, w)))"
        unfolding unfold fst_conv snd_conv x(1) some(1) option.case sum.case dr(1) Let_def
        by (simp only: False dr(2) if_False)
      have "recovered E scs txsOf recs nu batch (rs, w) rw' = recovered E scs txsOf recs nu (b # post) (rs1, w) rw'" for rw'
        using some(6,7) by (simp add: recovered_def x(2))
      then show ?case
        using scan_found [OF e'(2,3) x(3) some(5) less.prems(4) some(4) some(8) [folded x(2)] some(9) refl some(10-13) IH, of w]
        unfolding step by simp
    qed
  qed
qed


text \<open>A chain on which the second external child is invalid.  With a window of two, the addresses
  derived at first are those of indexes 0 and 2; the second block pays to index 3, which is
  derived once index 0 has been found.\<close>

definition demoAddr :: "bool \<Rightarrow> uint32 \<Rightarrow> string" where
  "demoAddr internal j = (if internal then CHR ''i'' else CHR ''e'') # replicate (unat j) CHR ''x''"

definition demoTo :: "byte \<Rightarrow> MsgTx" where
  "demoTo n = \<lparr>TxIn = [], TxOut = [\<lparr>Value = 5, PkScript = [n]\<rparr>]\<rparr>"

definition demoEnv :: "(string, (MsgTx \<times> BlockMeta) list) recoveryEnv" where
  "demoEnv = \<lparr>chainFns = \<lparr>extractAddrs = (\<lambda>s. case s of [n] \<Rightarrow> Some [demoAddr False (ucast n)] | _ \<Rightarrow> None),
       enc = (\<lambda>a. a), hashOf = (\<lambda>tx. 7)\<rparr>,
     getBlock = (\<lambda>h. if h = 1 then Some [demoTo 0] else if h = 2 then Some [demoTo 3] else None),
     deriveKey = (\<lambda>sc internal j. if \<not> internal \<and> j = 1 then InvalidChild else Derived (demoAddr internal j)),
     keyCount = (\<lambda>sc internal. Some 0), extendAddresses = (\<lambda>sc internal n w. Some w),
     markUsed = (\<lambda>sc a w. Some w), addRelevant = (\<lambda>tx b w. Some (w @ [(tx, b)]))\<rparr>"

lemma demoAddr_inj: "demoAddr i j = demoAddr i' j' \<longleftrightarrow> i = i' \<and> j = j'"
proof -
  have "j = j'" if "replicate (unat j) CHR ''x'' = replicate (unat j') CHR ''x''"
    using arg_cong [OF that, of length] by (simp add: word_unat_eq_iff)
  then show ?thesis by (auto simp: demoAddr_def)
qed

lemma demoEnv_simps:
  "deriveKey demoEnv sc i j = (if \<not> i \<and> j = 1 then InvalidChild else Derived (demoAddr i j))"
  "enc (chainFns demoEnv) a = a"
  "paysTo (chainFns demoEnv) (demoTo n) = {demoAddr False (ucast n)}"
  by (simp_all add: demoEnv_def paysTo_def outAddrs_def demoTo_def)

lemma demoEnv_paid: "ucast n \<noteq> (1 :: uint32) \<Longrightarrow> paid demoEnv [demoTo n] sc i = (if i then {} else {ucast n})"
  by (auto simp: paid_def demoEnv_simps demoAddr_inj split: if_splits)

lemma demoEnv_invalid: "nInvalid (deriveKey demoEnv sc i) 0 maxChild \<le> 1"
proof -
  have "k = 1" if "k < maxChild" "(of_nat k :: uint32) = 1" for k
    using unat_small [of k] that by simp
  then have "{k \<in> {0..<maxChild}. deriveKey demoEnv sc i (of_nat k) = InvalidChild} \<subseteq> {1}"
    by (auto simp: demoEnv_simps split: if_splits)
  from card_mono [OF _ this] show ?thesis by (simp add: nInvalid_def)
qed

lemma demoEnv_scan:
  "scanEnv demoEnv (\<lambda>m. m) [(84, 0)] (\<lambda>w. w)" "opsSucceed demoEnv"
  "branchesOk demoEnv 2 [(84, 0)] (NewRecoveryState 2) (\<lambda>sc i. 0)"
proof -
  show "scanEnv demoEnv (\<lambda>m. m) [(84, 0)] (\<lambda>w. w)"
    by (auto simp: scanEnv_def derivable_def demoEnv_simps recLaws_def visitsAll_def encInj_def demoAddr_inj split: if_splits)
      (simp_all add: demoEnv_def)
  show "opsSucceed demoEnv" by (simp add: opsSucceed_def demoEnv_def)
  have "brAt (NewRecoveryState 2) sc i = NewBranchRecoveryState 2" for sc i
    by (simp add: brAt_def StateForScope_def NewRecoveryState_def NewScopeRecoveryState_def branchOf_def Let_def)
  then show "branchesOk demoEnv 2 [(84, 0)] (NewRecoveryState 2) (\<lambda>sc i. 0)"
    unfolding branchesOk_def by (metis brOk_New NewBranchRecoveryState_def BranchRecoveryState.select_convs(1-3) le0 unsigned_0)
qed


section \<open>The look-ahead along a recovery\<close>

text \<open>The states of a branch: a new one, one resumed from the database, and what expanding the horizon
  and reporting found indexes make of them.\<close>

inductive branch_reach :: "(uint32 \<Rightarrow> 'addr deriveResult) \<Rightarrow> uint32 \<Rightarrow> 'addr BranchRecoveryState \<Rightarrow> bool"
  for derive w where
  new: "branch_reach derive w (NewBranchRecoveryState w)"
| resumed: "resurrectBranch derive count (NewBranchRecoveryState w) = Inr b \<Longrightarrow> unat count \<le> maxChild \<Longrightarrow>
    branch_reach derive w (reportLast count b)"
| expanded: "branch_reach derive w b \<Longrightarrow> roomFor derive b \<Longrightarrow> expandBranch derive b = Some (Inr b') \<Longrightarrow>
    branch_reach derive w b'"
| found: "branch_reach derive w b \<Longrightarrow> i < horizon b \<Longrightarrow> branch_reach derive w (ReportFound i b)"

lemma resurrect_fold:
  "fold_err (resurrectIndex derive) is b = Inr b' \<Longrightarrow>
   b' = fold (deriveOne derive) is b \<and> (\<forall>i \<in> set is. derive i \<noteq> DeriveError)"
  by (induction "is" arbitrary: b) (auto simp: resurrectIndex_def deriveOne_def split: deriveResult.splits)

lemma resurrectBranch_ok:
  assumes "resurrectBranch derive count (NewBranchRecoveryState w) = Inr b" "unat count \<le> maxChild"
  shows "brOk derive b \<and> unat (horizon b) \<le> maxChild \<and> brWindow b = w \<and> nextUnfound b = 0"
proof -
  let ?n = "unat count" and ?new = "NewBranchRecoveryState w"
  have b: "b = fold (deriveOne derive) (childs 0 ?n) ?new" and ne: "\<forall>i \<in> set (childs 0 ?n). derive i \<noteq> DeriveError"
    using resurrect_fold [OF assms(1) [unfolded resurrectBranch_def]] by (auto simp: childs_def)
  have "derive (of_nat k) \<noteq> DeriveError" if "k < ?n" for k using ne that by (simp add: childs_def)
  then have f: "derivedFrom derive (set (childs 0 ?n)) ?new b" "horizon b = of_nat (nInvalid derive 0 ?n)"
    using fold_deriveOne [of 0 ?n derive ?new] by (auto simp: b NewBranchRecoveryState_def)
  have le: "nInvalid derive 0 ?n \<le> ?n" using nValid_nInvalid [of 0 ?n derive] by simp
  then have h: "unat (horizon b) = nInvalid derive 0 ?n" using assms(2) f(2) by (simp add: unat_small)
  have "brOk derive b"
  proof (rule brOk_derivedFrom [OF brOk_New])
    show "derivedFrom derive (set (childs 0 ?n)) (?new\<lparr>horizon := 0\<rparr>) b"
      using f(1) by (simp add: NewBranchRecoveryState_def)
    fix i assume "i < horizon b"
    then show "i < horizon ?new \<or> i \<in> set (childs 0 ?n)"
      using h le childs_set [OF assms(2), of i 0] by (simp add: word_less_nat_alt)
  qed
  then show ?thesis using f(1) h le assms(2) by (simp add: derivedFrom_def NewBranchRecoveryState_def)
qed

lemma branch_reach_ok: "branch_reach derive w b \<Longrightarrow> brOk derive b \<and> unat (horizon b) \<le> maxChild \<and> brWindow b = w"
proof (induction rule: branch_reach.induct)
  case new
  then show ?case by (simp add: brOk_New) (simp add: NewBranchRecoveryState_def)
next
  case (resumed count b)
  have "count - 1 < count" if "0 < count" using that by (simp add: word_less_nat_alt unat_sub_if_size)
  then show ?case
    using resurrectBranch_ok [OF resumed] brOk_ReportFound [of derive b "count - 1" count]
    by (auto simp: reportLast_def)
next
  case (expanded b b')
  then show ?case using expandBranch_lookahead [of derive b] by (auto simp: lookahead_def)
next
  case (found b i)
  then show ?case using brOk_ReportFound [of derive b i "horizon b"] by simp
qed

text \<open>C30.  The look-ahead invariant: in every state that a recovery reaches on a branch, new or
  resumed, expanding the horizon ends.  Then every index below the horizon is registered with
  the address it derives to, invalid children have none, and at least as many valid addresses
  as the recovery window are watched past the last found index.\<close>

theorem branch_lookahead:
  assumes "branch_reach derive w b" "derivable derive"
    and "unat (nextUnfound b) + unat w + nInvalid derive 0 maxChild \<le> maxChild"
  shows "\<exists>b'. expandBranch derive b = Some (Inr b') \<and> nextUnfound b' = nextUnfound b \<and>
    (\<forall>i < horizon b'. map_of (addresses b') i = (case derive i of Derived a \<Rightarrow> Some a | _ \<Rightarrow> None)) \<and>
    unat w \<le> nValid derive (unat (nextUnfound b)) (unat (horizon b'))"
proof -
  note ok = branch_reach_ok [OF assms(1)]
  then have "roomFor derive b" using assms(2,3) by (simp add: roomFor_def)
  then obtain b' where b': "expandBranch derive b = Some (Inr b')" "lookahead derive b'"
    "nextUnfound b' = nextUnfound b" "brWindow b' = brWindow b"
    using expandBranch_lookahead ok by blast
  have ob: "brOk derive b'" using b'(2) by (simp add: lookahead_def)
  have "map_of (addresses b') i = (case derive i of Derived a \<Rightarrow> Some a | _ \<Rightarrow> None)" if "i < horizon b'" for i
  proof (cases "derive i")
    case (Derived a)
    then show ?thesis using brOkD(5) [OF ob that] by simp
  next
    case InvalidChild
    then show ?thesis using brOkD(4) [OF ob, of i] by (cases "map_of (addresses b') i") auto
  next
    case DeriveError
    then show ?thesis using brOkD(4) [OF ob, of i] by (cases "map_of (addresses b') i") auto
  qed
  then show ?thesis using b' ok by (auto simp: lookahead_def)
qed

lemma branch_lookahead_witness:
  "\<exists>b b'. resurrectBranch (deriveKey demoEnv (84, 0) False) 3 (NewBranchRecoveryState 2) = Inr b \<and>
     expandBranch (deriveKey demoEnv (84, 0) False) (reportLast 3 b) = Some (Inr b') \<and>
     2 \<le> nValid (deriveKey demoEnv (84, 0) False) 3 (unat (horizon b'))"
proof -
  let ?d = "deriveKey demoEnv (84, 0) False"
  obtain b where b: "resurrectBranch ?d 3 (NewBranchRecoveryState 2) = Inr b"
    by (simp add: resurrectBranch_def upt_rec resurrectIndex_def demoEnv_simps)
  have nu: "nextUnfound b = 0" using resurrectBranch_ok [OF b] by (simp add: maxChild_def)
  then have n: "nextUnfound (reportLast 3 b) = 3" by (simp add: reportLast_def ReportFound_def)
  have "branch_reach ?d 2 (reportLast 3 b)" by (rule resumed [OF b]) (simp add: maxChild_def)
  moreover have "derivable ?d" by (simp add: derivable_def demoEnv_simps)
  moreover have "unat (nextUnfound (reportLast 3 b)) + unat (2 :: uint32) + nInvalid ?d 0 maxChild \<le> maxChild"
    using demoEnv_invalid [of "(84, 0)" False] by (simp add: n maxChild_def)
  ultimately show ?thesis using branch_lookahead [of ?d 2 "reportLast 3 b"] b n by auto
qed

end
