(* ===== verification/Addr_Codec.thy ===== *)
theory Addr_Codec
  imports Prelude
begin

text \<open>
  The serialised rows of the address manager (\<^verbatim>\<open>waddrmgr/db.go\<close>): accounts and addresses, with
  their little-endian length fields.  A slice expression out of range is a Go panic; offsets
  are \<open>uint32\<close> and wrap.  The readers of watch-only accounts go through \<^verbatim>\<open>bytes.Reader\<close> and report
  an error instead.
\<close>

section \<open>Little-endian integers and slices\<close>

definition put_le32 :: "uint32 \<Rightarrow> bytes" where "put_le32 w = rev (put_u32 w)"
definition put_le64 :: "64 word \<Rightarrow> bytes" where "put_le64 w = rev (put_u64 w)"
definition get_le32 :: "bytes \<Rightarrow> uint32" where "get_le32 bs = get_u32 (rev (take 4 bs))"
definition get_le64 :: "bytes \<Rightarrow> 64 word" where "get_le64 bs = get_u64 (rev (take 8 bs))"

lemma length_put_le [simp, codec_simps]: "length (put_le32 w) = 4" "length (put_le64 v) = 8"
  by (simp_all add: put_le32_def put_le64_def)

lemma get_put_le [simp, codec_simps]: "get_le32 (put_le32 w @ r) = w" "get_le64 (put_le64 v @ r) = v"
  by (simp_all add: get_le32_def put_le32_def get_le64_def put_le64_def)

lemmas get_put_le_Nil [simp, codec_simps] = get_put_le [where r = "[]", simplified]

datatype row_error = ErrMalformed | RowPanic

type_synonym 'a parsed = "row_error + 'a"

text \<open>\<open>bs[lo:hi]\<close>.\<close>

definition slice :: "bytes \<Rightarrow> uint32 \<Rightarrow> uint32 \<Rightarrow> bytes parsed" where
  "slice bs lo hi =
     (if lo \<le> hi \<and> unat hi \<le> length bs then Inr (take (unat hi - unat lo) (drop (unat lo) bs)) else Inl RowPanic)"

definition bind_row :: "'a parsed \<Rightarrow> ('a \<Rightarrow> 'b parsed) \<Rightarrow> 'b parsed" where
  "bind_row x f = (case x of Inl e \<Rightarrow> Inl e | Inr v \<Rightarrow> f v)"

lemma bind_row_simps [simp]: "bind_row (Inr v) f = f v" "bind_row (Inl e) f = Inl e"
  by (simp_all add: bind_row_def)

text \<open>A 4-byte length at \<open>lo\<close>, then that many bytes; the offset after them.\<close>

definition readBlob :: "bytes \<Rightarrow> uint32 \<Rightarrow> (bytes \<times> uint32) parsed" where
  "readBlob bs lo =
     bind_row (slice bs lo (lo + 4)) (\<lambda>l.
       let n = get_le32 l; off = lo + 4 in
       bind_row (slice bs off (off + n)) (\<lambda>d. Inr (d, off + n)))"

definition putBlob :: "bytes \<Rightarrow> bytes" where
  "putBlob d = put_le32 (of_nat (length d)) @ d"

definition uint32ToBytes :: "uint32 \<Rightarrow> bytes" where "uint32ToBytes n = put_le32 n"

definition stringToBytes :: "bytes \<Rightarrow> bytes" where "stringToBytes s = putBlob s"

text \<open>\<^verbatim>\<open>waddrmgr.BlockStamp\<close>: a block of the chain.\<close>

record BlockStamp =
  bsHeight :: int
  bsHash :: hash
  bsTime :: "64 word"

section \<open>Account rows\<close>

record dbAccountRow =
  arType :: byte
  arRaw :: bytes

definition serializeAccountRow :: "dbAccountRow \<Rightarrow> bytes" where
  "serializeAccountRow row = arType row # put_le32 (of_nat (length (arRaw row))) @ arRaw row"

definition deserializeAccountRow :: "bytes \<Rightarrow> dbAccountRow parsed" where
  "deserializeAccountRow bs =
     (if length bs < 5 then Inl ErrMalformed
      else
        let rdlen = get_le32 (take 4 (drop 1 bs)) in
        bind_row (slice bs 5 (5 + rdlen)) (\<lambda>raw. Inr \<lparr>arType = hd bs, arRaw = raw\<rparr>))"

record ScopeAddrSchema =
  ExternalAddrType :: byte
  InternalAddrType :: byte

definition scopeSchemaToBytes :: "ScopeAddrSchema \<Rightarrow> bytes" where
  "scopeSchemaToBytes s = [InternalAddrType s, ExternalAddrType s]"

definition scopeSchemaFromBytes :: "bytes \<Rightarrow> ScopeAddrSchema" where
  "scopeSchemaFromBytes bs = \<lparr>ExternalAddrType = bs ! 1, InternalAddrType = bs ! 0\<rparr>"

text \<open>A default account has both keys, a watch-only one the public key, the fingerprint of the master
  key and perhaps an address schema of its own.\<close>

datatype acctRow =
    DefaultRow (pubKeyEncrypted: bytes) (privKeyEncrypted: bytes)
      (nextExternalIndex: uint32) (nextInternalIndex: uint32) (rowName: bytes)
  | WatchOnlyRow (pubKeyEncrypted: bytes) (masterKeyFingerprint: uint32)
      (nextExternalIndex: uint32) (nextInternalIndex: uint32) (rowName: bytes)
      (rowSchema: "ScopeAddrSchema option")

definition serializeDefaultAccountRow :: "bytes \<Rightarrow> bytes \<Rightarrow> uint32 \<Rightarrow> uint32 \<Rightarrow> bytes \<Rightarrow> bytes" where
  "serializeDefaultAccountRow pub priv ext inn name =
     putBlob pub @ putBlob priv @ put_le32 ext @ put_le32 inn @ putBlob name"

definition deserializeDefaultAccountRow :: "bytes \<Rightarrow> acctRow parsed" where
  "deserializeDefaultAccountRow raw =
     (if length raw < 20 then Inl ErrMalformed
      else
        bind_row (readBlob raw 0) (\<lambda>(pub, off).
        bind_row (readBlob raw off) (\<lambda>(priv, off).
        bind_row (slice raw off (off + 4)) (\<lambda>ext.
        bind_row (slice raw (off + 4) (off + 8)) (\<lambda>inn.
        bind_row (readBlob raw (off + 8)) (\<lambda>(name, off).
          Inr (DefaultRow pub priv (get_le32 ext) (get_le32 inn) name)))))))"

definition serializeWatchOnlyAccountRow ::
  "bytes \<Rightarrow> uint32 \<Rightarrow> uint32 \<Rightarrow> uint32 \<Rightarrow> bytes \<Rightarrow> ScopeAddrSchema option \<Rightarrow> bytes" where
  "serializeWatchOnlyAccountRow pub fp ext inn name schema =
     putBlob pub @ put_le32 fp @ put_le32 ext @ put_le32 inn @ putBlob name @
     (case schema of None \<Rightarrow> [0] | Some s \<Rightarrow> 1 # scopeSchemaToBytes s)"

text \<open>\<open>binary.Read\<close> of \<open>n\<close> bytes: an error when the reader runs out.\<close>

definition readN :: "nat \<Rightarrow> bytes \<Rightarrow> (bytes \<times> bytes) parsed" where
  "readN n bs = (if n \<le> length bs then Inr (take n bs, drop n bs) else Inl ErrMalformed)"

definition deserializeWatchOnlyAccountRow :: "bytes \<Rightarrow> acctRow parsed" where
  "deserializeWatchOnlyAccountRow raw =
     (if length raw < 21 then Inl ErrMalformed
      else
        bind_row (readN 4 raw) (\<lambda>(l, r).
        bind_row (readN (unat (get_le32 l)) r) (\<lambda>(pub, r).
        bind_row (readN 4 r) (\<lambda>(fp, r).
        bind_row (readN 4 r) (\<lambda>(ext, r).
        bind_row (readN 4 r) (\<lambda>(inn, r).
        bind_row (readN 4 r) (\<lambda>(l, r).
        bind_row (readN (unat (get_le32 l)) r) (\<lambda>(name, r).
        bind_row (readN 1 r) (\<lambda>(flag, r).
          if hd flag = 0 then Inr (WatchOnlyRow pub (get_le32 fp) (get_le32 ext) (get_le32 inn) name None)
          else bind_row (readN 2 r) (\<lambda>(sch, r).
            Inr (WatchOnlyRow pub (get_le32 fp) (get_le32 ext) (get_le32 inn) name
              (Some (scopeSchemaFromBytes sch)))))))))))))"

text \<open>The two steps of \<open>fetchAccountInfo\<close> after the bucket is read.\<close>

definition readAccount :: "bytes \<Rightarrow> acctRow parsed" where
  "readAccount bs =
     bind_row (deserializeAccountRow bs) (\<lambda>row.
       if arType row = 0 then deserializeDefaultAccountRow (arRaw row)
       else if arType row = 1 then deserializeWatchOnlyAccountRow (arRaw row)
       else Inl ErrMalformed)"

text \<open>What \<open>putDefaultAccountInfo\<close> and \<open>putWatchOnlyAccountInfo\<close> store.\<close>

definition writeAccount :: "acctRow \<Rightarrow> bytes" where
  "writeAccount a =
     serializeAccountRow
       (case a of
          DefaultRow pub priv ext inn name \<Rightarrow>
            \<lparr>arType = 0, arRaw = serializeDefaultAccountRow pub priv ext inn name\<rparr>
        | WatchOnlyRow pub fp ext inn name schema \<Rightarrow>
            \<lparr>arType = 1, arRaw = serializeWatchOnlyAccountRow pub fp ext inn name schema\<rparr>)"

section \<open>Address rows\<close>

record dbAddressRow =
  drType :: byte
  drAccount :: uint32
  drAddTime :: "64 word"
  drSync :: byte
  drRaw :: bytes

definition serializeAddressRow :: "dbAddressRow \<Rightarrow> bytes" where
  "serializeAddressRow row =
     drType row # put_le32 (drAccount row) @ put_le64 (drAddTime row) @ drSync row #
     put_le32 (of_nat (length (drRaw row))) @ drRaw row"

definition deserializeAddressRow :: "bytes \<Rightarrow> dbAddressRow parsed" where
  "deserializeAddressRow bs =
     (if length bs < 18 then Inl ErrMalformed
      else
        let rdlen = get_le32 (take 4 (drop 14 bs)) in
        bind_row (slice bs 18 (18 + rdlen)) (\<lambda>raw.
          Inr \<lparr>drType = hd bs, drAccount = get_le32 (take 4 (drop 1 bs)), drAddTime = get_le64 (take 8 (drop 5 bs)),
            drSync = bs ! 13, drRaw = raw\<rparr>))"

datatype addrData =
    ChainAddr (caBranch: uint32) (caIndex: uint32)
  | ImportedAddr (encryptedPubKey: bytes) (encryptedPrivKey: bytes)
  | ScriptAddr (encryptedHash: bytes) (encryptedScript: bytes)
  | WitnessScriptAddr (witnessVersion: byte) (isSecretScript: bool) (encryptedHash: bytes) (encryptedScript: bytes)

definition serializeChainedAddress :: "uint32 \<Rightarrow> uint32 \<Rightarrow> bytes" where
  "serializeChainedAddress branch index = put_le32 branch @ put_le32 index"

definition deserializeChainedAddress :: "bytes \<Rightarrow> addrData parsed" where
  "deserializeChainedAddress raw =
     (if length raw \<noteq> 8 then Inl ErrMalformed
      else Inr (ChainAddr (get_le32 (take 4 raw)) (get_le32 (drop 4 raw))))"

text \<open>Imported keys and scripts: two length-prefixed blobs.\<close>

definition serializeImportedAddress :: "bytes \<Rightarrow> bytes \<Rightarrow> bytes" where
  "serializeImportedAddress pub priv = putBlob pub @ putBlob priv"

definition serializeScriptAddress :: "bytes \<Rightarrow> bytes \<Rightarrow> bytes" where
  "serializeScriptAddress hash scr = putBlob hash @ putBlob scr"

definition readTwo :: "bytes \<Rightarrow> uint32 \<Rightarrow> (bytes \<times> bytes) parsed" where
  "readTwo raw lo =
     bind_row (readBlob raw lo) (\<lambda>(a, off). bind_row (readBlob raw off) (\<lambda>(b, off). Inr (a, b)))"

definition deserializeImportedAddress :: "bytes \<Rightarrow> addrData parsed" where
  "deserializeImportedAddress raw =
     (if length raw < 8 then Inl ErrMalformed
      else bind_row (readTwo raw 0) (\<lambda>(pub, priv). Inr (ImportedAddr pub priv)))"

definition deserializeScriptAddress :: "bytes \<Rightarrow> addrData parsed" where
  "deserializeScriptAddress raw =
     (if length raw < 8 then Inl ErrMalformed
      else bind_row (readTwo raw 0) (\<lambda>(h, s). Inr (ScriptAddr h s)))"

definition serializeWitnessScriptAddress :: "byte \<Rightarrow> bool \<Rightarrow> bytes \<Rightarrow> bytes \<Rightarrow> bytes" where
  "serializeWitnessScriptAddress ver secret hash scr =
     ver # (if secret then 1 else 0) # putBlob hash @ putBlob scr"

definition deserializeWitnessScriptAddress :: "bytes \<Rightarrow> addrData parsed" where
  "deserializeWitnessScriptAddress raw =
     (if length raw < 10 then Inl ErrMalformed
      else bind_row (readTwo raw 2) (\<lambda>(h, s). Inr (WitnessScriptAddr (raw ! 0) (raw ! 1 = 1) h s)))"

text \<open>The row of \<open>fetchAddressByHash\<close>.\<close>

definition readAddress :: "bytes \<Rightarrow> (dbAddressRow \<times> addrData) parsed" where
  "readAddress bs =
     bind_row (deserializeAddressRow bs) (\<lambda>row.
       bind_row
         (if drType row = 0 then deserializeChainedAddress (drRaw row)
          else if drType row = 1 then deserializeImportedAddress (drRaw row)
          else if drType row = 2 then deserializeScriptAddress (drRaw row)
          else if drType row = 3 \<or> drType row = 4 then deserializeWitnessScriptAddress (drRaw row)
          else Inl ErrMalformed)
         (\<lambda>d. Inr (row, d)))"

text \<open>What \<open>putChainedAddress\<close>, \<open>putImportedAddress\<close>, \<open>putScriptAddress\<close> and
  \<open>putWitnessScriptAddress\<close> store.\<close>

definition addrRowOf :: "uint32 \<Rightarrow> 64 word \<Rightarrow> byte \<Rightarrow> addrData \<Rightarrow> dbAddressRow" where
  "addrRowOf account addTime status d =
     (case d of
        ChainAddr branch index \<Rightarrow>
          \<lparr>drType = 0, drAccount = account, drAddTime = addTime, drSync = status,
           drRaw = serializeChainedAddress branch index\<rparr>
      | ImportedAddr pub priv \<Rightarrow>
          \<lparr>drType = 1, drAccount = account, drAddTime = addTime, drSync = status,
           drRaw = serializeImportedAddress pub priv\<rparr>
      | ScriptAddr h s \<Rightarrow>
          \<lparr>drType = 2, drAccount = account, drAddTime = addTime, drSync = status,
           drRaw = serializeScriptAddress h s\<rparr>
      | WitnessScriptAddr ver secret h s \<Rightarrow>
          \<lparr>drType = (if ver = 1 then 4 else 3), drAccount = account, drAddTime = addTime, drSync = status,
           drRaw = serializeWitnessScriptAddress ver secret h s\<rparr>)"

section \<open>Round trips\<close>

lemma unat_of_length: "n < 2 ^ 32 \<Longrightarrow> unat (of_nat n :: uint32) = n"
  by (simp add: unat_of_nat)

lemma slice_middle:
  assumes "length (pre @ d @ post) < 2 ^ 32" "lo = of_nat (length pre)" "hi = of_nat (length pre + length d)"
  shows "slice (pre @ d @ post) lo hi = Inr d"
proof -
  have "unat lo = length pre" "unat hi = length pre + length d"
    using assms(1) unfolding assms(2,3) by (intro unat_of_length; simp)+
  then show ?thesis by (simp add: slice_def word_le_nat_alt)
qed

lemma readBlob_putBlob:
  assumes "length (pre @ putBlob d @ post) < 2 ^ 32" "lo = of_nat (length pre)"
  shows "readBlob (pre @ putBlob d @ post) lo = Inr (d, of_nat (length pre + length (putBlob d)))"
proof -
  let ?l = "put_le32 (of_nat (length d))"
  let ?b = "pre @ putBlob d @ post"
  have a: "slice ?b lo (lo + 4) = Inr ?l"
    using slice_middle [of pre ?l "d @ post" lo "lo + 4"] assms by (simp add: putBlob_def)
  have off: "lo + 4 + of_nat (length d) = of_nat (length pre + length (putBlob d))"
    using assms(2) by (simp add: putBlob_def)
  have "slice ((pre @ ?l) @ d @ post) (lo + 4) (lo + 4 + of_nat (length d)) = Inr d"
    using assms by (intro slice_middle) (simp_all add: putBlob_def)
  then have "slice ?b (lo + 4) (lo + 4 + of_nat (length d)) = Inr d" by (simp add: putBlob_def)
  then show ?thesis using a off by (simp add: readBlob_def Let_def)
qed

lemma length_putBlob [simp, codec_simps]: "length (putBlob d) = 4 + length d"
  by (simp add: putBlob_def)

lemma readTwo_putBlobs:
  assumes "length (pre @ putBlob a @ putBlob b) < 2 ^ 32" "lo = of_nat (length pre)"
  shows "readTwo (pre @ putBlob a @ putBlob b) lo = Inr (a, b)"
proof -
  have 1: "readBlob (pre @ putBlob a @ putBlob b) lo = Inr (a, of_nat (length (pre @ putBlob a)))"
    using readBlob_putBlob [of pre a "putBlob b" lo] assms by simp
  have "readBlob ((pre @ putBlob a) @ putBlob b @ []) (of_nat (length (pre @ putBlob a))) =
      Inr (b, of_nat (length (pre @ putBlob a) + length (putBlob b)))"
    using assms by (intro readBlob_putBlob) simp_all
  then have 2: "readBlob (pre @ putBlob a @ putBlob b) (of_nat (length (pre @ putBlob a))) =
      Inr (b, of_nat (length (pre @ putBlob a) + length (putBlob b)))" by simp
  show ?thesis by (simp only: readTwo_def 1 2 bind_row_simps prod.case)
qed

lemma default_row_trip:
  assumes "length (serializeDefaultAccountRow pub priv ext inn name) < 2 ^ 32"
  shows "deserializeDefaultAccountRow (serializeDefaultAccountRow pub priv ext inn name) =
    Inr (DefaultRow pub priv ext inn name)"
proof -
  let ?b = "serializeDefaultAccountRow pub priv ext inn name"
  let ?o = "of_nat (length (putBlob pub @ putBlob priv)) :: uint32"
  note defs = serializeDefaultAccountRow_def
  have p: "readBlob ?b 0 = Inr (pub, of_nat (length (putBlob pub)))"
    using readBlob_putBlob [of "[]" pub "putBlob priv @ put_le32 ext @ put_le32 inn @ putBlob name" 0] assms
    by (simp add: defs)
  have q: "readBlob ?b (of_nat (length (putBlob pub))) = Inr (priv, ?o)"
    using readBlob_putBlob [of "putBlob pub" priv "put_le32 ext @ put_le32 inn @ putBlob name" "of_nat (length (putBlob pub))"] assms
    by (simp add: defs)
  have e: "slice ?b ?o (?o + 4) = Inr (put_le32 ext)"
    using slice_middle [of "putBlob pub @ putBlob priv" "put_le32 ext" "put_le32 inn @ putBlob name" ?o "?o + 4"] assms
    by (simp add: defs)
  have i: "slice ?b (?o + 4) (?o + 8) = Inr (put_le32 inn)"
    using slice_middle [of "putBlob pub @ putBlob priv @ put_le32 ext" "put_le32 inn" "putBlob name" "?o + 4" "?o + 8"] assms
    by (simp add: defs)
  have n: "readBlob ?b (?o + 8) = Inr (name, of_nat (length ?b))"
    using readBlob_putBlob [of "putBlob pub @ putBlob priv @ put_le32 ext @ put_le32 inn" name "[]" "?o + 8"] assms
    by (simp add: defs)
  have "\<not> length ?b < 20" by (simp add: defs)
  then show ?thesis
    by (simp only: deserializeDefaultAccountRow_def if_False p q e i n bind_row_simps prod.case get_put_le_Nil)
qed

lemma readN_append: "n = length a \<Longrightarrow> readN n (a @ r) = Inr (a, r)"
  by (simp add: readN_def)

lemma watch_row_trip:
  assumes "length (serializeWatchOnlyAccountRow pub fp ext inn name schema) < 2 ^ 32"
  shows "deserializeWatchOnlyAccountRow (serializeWatchOnlyAccountRow pub fp ext inn name schema) =
    Inr (WatchOnlyRow pub fp ext inn name schema)"
proof -
  have l: "unat (of_nat (length pub) :: uint32) = length pub" "unat (of_nat (length name) :: uint32) = length name"
    using assms by (intro unat_of_length; simp add: serializeWatchOnlyAccountRow_def)+
  have s: "scopeSchemaFromBytes (scopeSchemaToBytes x) = x" "length (scopeSchemaToBytes x) = 2" for x
    by (simp_all add: scopeSchemaFromBytes_def scopeSchemaToBytes_def)
  have t: "readN (Suc 0) (b # r) = Inr ([b], r)" for b r by (simp add: readN_def)
  show ?thesis
    using l
    by (cases schema) (simp_all add: deserializeWatchOnlyAccountRow_def serializeWatchOnlyAccountRow_def putBlob_def
        readN_append t s readN_append [where r = "[]", simplified])
qed

lemma account_row_trip:
  assumes "length (serializeAccountRow row) < 2 ^ 32"
  shows "deserializeAccountRow (serializeAccountRow row) = Inr row"
proof -
  let ?l = "put_le32 (of_nat (length (arRaw row)))"
  have "slice ((arType row # ?l) @ arRaw row @ []) 5 (5 + of_nat (length (arRaw row))) = Inr (arRaw row)"
    using assms by (intro slice_middle) (simp_all add: serializeAccountRow_def)
  then show ?thesis by (simp add: deserializeAccountRow_def serializeAccountRow_def Let_def)
qed

lemma address_row_trip:
  assumes "length (serializeAddressRow row) < 2 ^ 32"
  shows "deserializeAddressRow (serializeAddressRow row) = Inr row"
proof -
  let ?l = "put_le32 (of_nat (length (drRaw row)))"
  let ?pre = "drType row # put_le32 (drAccount row) @ put_le64 (drAddTime row) @ drSync row # ?l"
  have sl: "slice (?pre @ drRaw row @ []) 18 (18 + of_nat (length (drRaw row))) = Inr (drRaw row)"
    using assms by (intro slice_middle) (simp_all add: serializeAddressRow_def)
  show ?thesis
    using sl by (simp add: deserializeAddressRow_def serializeAddressRow_def Let_def nth_append)
qed

lemma address_data_trip:
  assumes "length (drRaw (addrRowOf account t st d)) < 2 ^ 32"
  shows "bind_row (if drType (addrRowOf account t st d) = 0 then deserializeChainedAddress (drRaw (addrRowOf account t st d))
      else if drType (addrRowOf account t st d) = 1 then deserializeImportedAddress (drRaw (addrRowOf account t st d))
      else if drType (addrRowOf account t st d) = 2 then deserializeScriptAddress (drRaw (addrRowOf account t st d))
      else if drType (addrRowOf account t st d) = 3 \<or> drType (addrRowOf account t st d) = 4
      then deserializeWitnessScriptAddress (drRaw (addrRowOf account t st d)) else Inl ErrMalformed) f = f d"
proof (cases d)
  case (ChainAddr b i)
  then show ?thesis by (simp add: addrRowOf_def serializeChainedAddress_def deserializeChainedAddress_def)
next
  case (ImportedAddr a b)
  then show ?thesis using assms readTwo_putBlobs [of "[]" a b 0]
    by (simp add: addrRowOf_def serializeImportedAddress_def deserializeImportedAddress_def)
next
  case (ScriptAddr a b)
  then show ?thesis using assms readTwo_putBlobs [of "[]" a b 0]
    by (simp add: addrRowOf_def serializeScriptAddress_def deserializeScriptAddress_def)
next
  case (WitnessScriptAddr ver secret a b)
  then show ?thesis using assms readTwo_putBlobs [of "[ver, if secret then 1 else 0]" a b 2]
    by (cases secret; cases "ver = 1") (simp_all add: addrRowOf_def serializeWitnessScriptAddress_def
        deserializeWitnessScriptAddress_def)
qed

text \<open>C35.  Rows read back as they were written: an account row of either kind and an address row of
  any of the four kinds, as long as its serialisation is shorter than \<open>2 ^ 32\<close> bytes, where the
  \<open>uint32\<close> offsets do not wrap.\<close>

theorem addr_rows_round_trip:
  "(length (writeAccount a) < 2 ^ 32 \<longrightarrow> readAccount (writeAccount a) = Inr a) \<and>
   (length (serializeAddressRow (addrRowOf account t st d)) < 2 ^ 32 \<longrightarrow>
     readAddress (serializeAddressRow (addrRowOf account t st d)) = Inr (addrRowOf account t st d, d))"
proof (intro conjI impI)
  assume l: "length (writeAccount a) < 2 ^ 32"
  show "readAccount (writeAccount a) = Inr a"
  proof (cases a)
    case (DefaultRow pub priv ext inn name)
    then have "length (serializeDefaultAccountRow pub priv ext inn name) < 2 ^ 32"
      using l by (simp add: writeAccount_def serializeAccountRow_def)
    then show ?thesis
      using DefaultRow l by (simp add: readAccount_def writeAccount_def account_row_trip default_row_trip)
  next
    case (WatchOnlyRow pub fp ext inn name schema)
    then have "length (serializeWatchOnlyAccountRow pub fp ext inn name schema) < 2 ^ 32"
      using l by (simp add: writeAccount_def serializeAccountRow_def)
    then show ?thesis
      using WatchOnlyRow l by (simp add: readAccount_def writeAccount_def account_row_trip watch_row_trip)
  qed
next
  assume l: "length (serializeAddressRow (addrRowOf account t st d)) < 2 ^ 32"
  then have "length (drRaw (addrRowOf account t st d)) < 2 ^ 32" by (simp add: serializeAddressRow_def)
  from address_data_trip [OF this] show "readAddress (serializeAddressRow (addrRowOf account t st d)) =
      Inr (addrRowOf account t st d, d)"
    by (simp only: readAddress_def address_row_trip [OF l] bind_row_simps)
qed

lemma addr_rows_round_trip_witness:
  "readAccount (writeAccount (DefaultRow [1, 2] [3] 4 5 [6, 7])) = Inr (DefaultRow [1, 2] [3] 4 5 [6, 7]) \<and>
   readAddress (serializeAddressRow (addrRowOf 1 2 3 (WitnessScriptAddr 1 True [8] [9, 10]))) =
     Inr (addrRowOf 1 2 3 (WitnessScriptAddr 1 True [8] [9, 10]), WitnessScriptAddr 1 True [8] [9, 10])"
  using addr_rows_round_trip [of "DefaultRow [1, 2] [3] 4 5 [6, 7]" 1 2 3 "WitnessScriptAddr 1 True [8] [9, 10]"]
  by (simp add: writeAccount_def serializeAccountRow_def serializeDefaultAccountRow_def serializeAddressRow_def
      addrRowOf_def serializeWitnessScriptAddress_def)

end
