(* ===== verification/Addr_Db.thy ===== *)
theory Addr_Db
  imports Addr_Codec Walletdb "HOL-Library.List_Lexorder"
begin

text \<open>
  The buckets of one key scope of the address manager and the operations of \<^verbatim>\<open>waddrmgr/db.go\<close> on
  them.  Rows are kept in their read form (\<open>Addr_Codec\<close> shows that they read back as they are
  written); the keys of the account buckets are the little-endian bytes the code uses, so
  that iteration visits accounts in the code's order.
\<close>

datatype mgr_error =
    ErrMgrDatabase | ErrAccountNotFound | ErrAddressNotFound | ErrDuplicateAccount | ErrDuplicateAddress
  | ErrInvalidAccount | ErrAccountNumTooHigh | ErrTooManyAddresses | ErrKeyChain | ErrCrypto
  | ErrMgrLocked | ErrWatchingOnly | ErrAddrMismatch | ErrWrongPassphrase | ErrWrongNet | MgrPanic | MgrHang

text \<open>\<open>MgrPanic\<close> is a run-time panic, \<open>MgrHang\<close> a loop that does not end.\<close>

record addrRow =
  adAccount :: uint32
  adTime :: "64 word"
  adSync :: byte
  adData :: addrData

record scopeNs =
  acctBucket :: "(bytes, acctRow) bucket"
  addrBucket :: "(hash, addrRow) bucket"
  addrAcctIdx :: "(hash, uint32) bucket"
  acctAddrs :: "uint32 \<rightharpoonup> (hash, unit) bucket"
  acctNameIdx :: "(bytes, uint32) bucket"
  acctIDIdx :: "(bytes, bytes) bucket"
  usedAddrs :: "(hash, unit) bucket"
  lastAccount :: "uint32 option"
  coinTypeKeys :: "(bytes \<times> bytes) option"

section \<open>Accounts\<close>

definition fetchLastAccount :: "scopeNs \<Rightarrow> uint32" where
  "fetchLastAccount d = (case lastAccount d of None \<Rightarrow> - 1 | Some a \<Rightarrow> a)"

definition fetchAccountName :: "scopeNs \<Rightarrow> uint32 \<Rightarrow> mgr_error + bytes" where
  "fetchAccountName d account =
     (case Get (acctIDIdx d) (uint32ToBytes account) of None \<Rightarrow> Inl ErrAccountNotFound | Some n \<Rightarrow> Inr n)"

definition fetchAccountByName :: "scopeNs \<Rightarrow> bytes \<Rightarrow> mgr_error + uint32" where
  "fetchAccountByName d name =
     (case Get (acctNameIdx d) (stringToBytes name) of None \<Rightarrow> Inl ErrAccountNotFound | Some a \<Rightarrow> Inr a)"

definition fetchAccountInfo :: "scopeNs \<Rightarrow> uint32 \<Rightarrow> mgr_error + acctRow" where
  "fetchAccountInfo d account =
     (case Get (acctBucket d) (uint32ToBytes account) of None \<Rightarrow> Inl ErrAccountNotFound | Some r \<Rightarrow> Inr r)"

definition forEachAccount :: "scopeNs \<Rightarrow> uint32 list" where
  "forEachAccount d = map (\<lambda>(k, v). get_le32 k) (ForEach (acctBucket d))"

definition deleteAccountNameIndex :: "bytes \<Rightarrow> scopeNs \<Rightarrow> scopeNs" where
  "deleteAccountNameIndex name d = d\<lparr>acctNameIdx := Delete (acctNameIdx d) (stringToBytes name)\<rparr>"

definition deleteAccountIDIndex :: "uint32 \<Rightarrow> scopeNs \<Rightarrow> scopeNs" where
  "deleteAccountIDIndex account d = d\<lparr>acctIDIdx := Delete (acctIDIdx d) (uint32ToBytes account)\<rparr>"

definition putAccountNameIndex :: "uint32 \<Rightarrow> bytes \<Rightarrow> scopeNs \<Rightarrow> scopeNs" where
  "putAccountNameIndex account name d = d\<lparr>acctNameIdx := Put (acctNameIdx d) (stringToBytes name) account\<rparr>"

definition putAccountIDIndex :: "uint32 \<Rightarrow> bytes \<Rightarrow> scopeNs \<Rightarrow> scopeNs" where
  "putAccountIDIndex account name d = d\<lparr>acctIDIdx := Put (acctIDIdx d) (uint32ToBytes account) name\<rparr>"

definition putAccountRow :: "uint32 \<Rightarrow> acctRow \<Rightarrow> scopeNs \<Rightarrow> scopeNs" where
  "putAccountRow account row d = d\<lparr>acctBucket := Put (acctBucket d) (uint32ToBytes account) row\<rparr>"

definition putAccountInfo :: "uint32 \<Rightarrow> acctRow \<Rightarrow> bytes \<Rightarrow> scopeNs \<Rightarrow> scopeNs" where
  "putAccountInfo account row name d =
     putAccountNameIndex account name (putAccountIDIndex account name (putAccountRow account row d))"

definition putDefaultAccountInfo ::
  "uint32 \<Rightarrow> bytes \<Rightarrow> bytes \<Rightarrow> uint32 \<Rightarrow> uint32 \<Rightarrow> bytes \<Rightarrow> scopeNs \<Rightarrow> scopeNs" where
  "putDefaultAccountInfo account pub priv ext inn name d =
     putAccountInfo account (DefaultRow pub priv ext inn name) name d"

definition putWatchOnlyAccountInfo ::
  "uint32 \<Rightarrow> bytes \<Rightarrow> uint32 \<Rightarrow> uint32 \<Rightarrow> uint32 \<Rightarrow> bytes \<Rightarrow> ScopeAddrSchema option \<Rightarrow> scopeNs \<Rightarrow> scopeNs" where
  "putWatchOnlyAccountInfo account pub fp ext inn name schema d =
     putAccountInfo account (WatchOnlyRow pub fp ext inn name schema) name d"

definition putLastAccount :: "uint32 \<Rightarrow> scopeNs \<Rightarrow> scopeNs" where
  "putLastAccount account d = d\<lparr>lastAccount := Some account\<rparr>"

section \<open>Addresses\<close>

text \<open>Addresses are keyed by the SHA-256 of their script address; the callers below pass that hash.\<close>

definition putAddrAccountIndex :: "uint32 \<Rightarrow> hash \<Rightarrow> scopeNs \<Rightarrow> scopeNs" where
  "putAddrAccountIndex account h d =
     d\<lparr>addrAcctIdx := Put (addrAcctIdx d) h account,
       acctAddrs := (acctAddrs d)(account \<mapsto>
         Put (case acctAddrs d account of None \<Rightarrow> bempty | Some b \<Rightarrow> b) h ())\<rparr>"

definition putAddress :: "hash \<Rightarrow> addrRow \<Rightarrow> scopeNs \<Rightarrow> scopeNs" where
  "putAddress h row d = putAddrAccountIndex (adAccount row) h (d\<lparr>addrBucket := Put (addrBucket d) h row\<rparr>)"

definition ExternalBranchNum :: uint32 where "ExternalBranchNum = 0"
definition InternalBranchNum :: uint32 where "InternalBranchNum = 1"

definition withNextIndex :: "uint32 \<Rightarrow> uint32 \<Rightarrow> acctRow \<Rightarrow> acctRow" where
  "withNextIndex branch index a =
     (case a of
        DefaultRow pub priv ext inn name \<Rightarrow>
          if branch = InternalBranchNum then DefaultRow pub priv ext (index + 1) name
          else DefaultRow pub priv (index + 1) inn name
      | WatchOnlyRow pub fp ext inn name schema \<Rightarrow>
          if branch = InternalBranchNum then WatchOnlyRow pub fp ext (index + 1) name schema
          else WatchOnlyRow pub fp (index + 1) inn name schema)"

text \<open>The row is stored first; a missing account then is malformed data.\<close>

definition putChainedAddress ::
  "hash \<Rightarrow> uint32 \<Rightarrow> 64 word \<Rightarrow> byte \<Rightarrow> uint32 \<Rightarrow> uint32 \<Rightarrow> scopeNs \<Rightarrow> mgr_error + scopeNs" where
  "putChainedAddress h account now status branch index d =
     (let d = putAddress h \<lparr>adAccount = account, adTime = now, adSync = status, adData = ChainAddr branch index\<rparr> d in
      case Get (acctBucket d) (uint32ToBytes account) of
        None \<Rightarrow> Inl ErrMgrDatabase
      | Some a \<Rightarrow> Inr (putAccountRow account (withNextIndex branch index a) d))"

definition putImportedAddress :: "hash \<Rightarrow> uint32 \<Rightarrow> 64 word \<Rightarrow> byte \<Rightarrow> bytes \<Rightarrow> bytes \<Rightarrow> scopeNs \<Rightarrow> scopeNs" where
  "putImportedAddress h account now status pub priv d =
     putAddress h \<lparr>adAccount = account, adTime = now, adSync = status, adData = ImportedAddr pub priv\<rparr> d"

definition putScriptAddress :: "hash \<Rightarrow> uint32 \<Rightarrow> 64 word \<Rightarrow> byte \<Rightarrow> bytes \<Rightarrow> bytes \<Rightarrow> scopeNs \<Rightarrow> scopeNs" where
  "putScriptAddress h account now status eh es d =
     putAddress h \<lparr>adAccount = account, adTime = now, adSync = status, adData = ScriptAddr eh es\<rparr> d"

definition putWitnessScriptAddress ::
  "hash \<Rightarrow> uint32 \<Rightarrow> 64 word \<Rightarrow> byte \<Rightarrow> byte \<Rightarrow> bool \<Rightarrow> bytes \<Rightarrow> bytes \<Rightarrow> scopeNs \<Rightarrow> scopeNs" where
  "putWitnessScriptAddress h account now status ver secret eh es d =
     putAddress h
       \<lparr>adAccount = account, adTime = now, adSync = status, adData = WitnessScriptAddr ver secret eh es\<rparr> d"

definition fetchAddressByHash :: "scopeNs \<Rightarrow> hash \<Rightarrow> mgr_error + addrRow" where
  "fetchAddressByHash d h = (case Get (addrBucket d) h of None \<Rightarrow> Inl ErrAddressNotFound | Some r \<Rightarrow> Inr r)"

definition existsAddressRow :: "scopeNs \<Rightarrow> hash \<Rightarrow> bool" where
  "existsAddressRow d h \<longleftrightarrow> Get (addrBucket d) h \<noteq> None"

definition fetchAddrAccount :: "scopeNs \<Rightarrow> hash \<Rightarrow> mgr_error + uint32" where
  "fetchAddrAccount d h = (case Get (addrAcctIdx d) h of None \<Rightarrow> Inl ErrAddressNotFound | Some a \<Rightarrow> Inr a)"

definition fetchAddressUsed :: "scopeNs \<Rightarrow> hash \<Rightarrow> bool" where
  "fetchAddressUsed d h \<longleftrightarrow> Get (usedAddrs d) h \<noteq> None"

definition markAddressUsed :: "hash \<Rightarrow> scopeNs \<Rightarrow> scopeNs" where
  "markAddressUsed h d = (if Get (usedAddrs d) h \<noteq> None then d else d\<lparr>usedAddrs := Put (usedAddrs d) h ()\<rparr>)"

text \<open>The rows a callback sees, in order; the first error ends the iteration.\<close>

definition forEachAccountAddress :: "scopeNs \<Rightarrow> uint32 \<Rightarrow> mgr_error + addrRow list" where
  "forEachAccountAddress d account =
     (case acctAddrs d account of
        None \<Rightarrow> Inr []
      | Some b \<Rightarrow> collect_err (\<lambda>(h, u). map_sum id Some (fetchAddressByHash d h)) (ForEach b))"

definition forEachActiveAddress :: "scopeNs \<Rightarrow> mgr_error + addrRow list" where
  "forEachActiveAddress d =
     collect_err (\<lambda>(h, r). map_sum id Some (fetchAddressByHash d h)) (ForEach (addrBucket d))"

section \<open>A new scope\<close>

definition importedName :: bytes where
  "importedName = [0x69, 0x6D, 0x70, 0x6F, 0x72, 0x74, 0x65, 0x64]"

definition defaultName :: bytes where
  "defaultName = [0x64, 0x65, 0x66, 0x61, 0x75, 0x6C, 0x74]"

definition emptyScope :: scopeNs where
  "emptyScope = \<lparr>acctBucket = bempty, addrBucket = bempty, addrAcctIdx = bempty, acctAddrs = Map.empty,
     acctNameIdx = bempty, acctIDIdx = bempty, usedAddrs = bempty, lastAccount = None, coinTypeKeys = None\<rparr>"

end
