(* ===== verification/Chainsync.thy ===== *)
theory Chainsync
  imports Wtx_Props2 Blockfilter Addr_Db
begin

text \<open>
  Keeping the wallet in step with the chain: the sync state of the address manager
  (\<^verbatim>\<open>waddrmgr/sync.go\<close> and the block hash index of \<^verbatim>\<open>waddrmgr/db.go\<close>), the handlers of chain
  notifications (\<^verbatim>\<open>wallet/chainntfns.go\<close>), and the search for the birthday block and the
  rollback at start-up (\<^verbatim>\<open>wallet/wallet.go\<close>).  Heights are \<open>int32\<close> numbers.  The chain backend
  and the address part of the manager, whose state is \<open>'m\<close>, are parameters.
\<close>

section \<open>The sync state (\<^verbatim>\<open>waddrmgr\<close>)\<close>

text \<open>The sync bucket: block hashes by height, the block synced to and the birthday block.\<close>

record syncDb =
  syncHashes :: "int \<rightharpoonup> hash"
  dbSyncedTo :: BlockStamp
  birthdayBlock :: "BlockStamp option"
  birthdayVerified :: bool

datatype chain_error =
    ErrBlockNotFound | ErrBirthdayBlockNotSet | BackendError | MgrError | StoreErr store_error

definition MaxReorgDepth :: int where "MaxReorgDepth = 10000"

definition staleHeight :: "int \<Rightarrow> int" where
  "staleHeight h = int32 (h - MaxReorgDepth)"

definition fetchBlockHash :: "syncDb \<Rightarrow> int \<Rightarrow> hash option" where
  "fetchBlockHash d h = syncHashes d h"

definition addBlockHash :: "syncDb \<Rightarrow> int \<Rightarrow> hash \<Rightarrow> syncDb" where
  "addBlockHash d h hash = d\<lparr>syncHashes := (syncHashes d)(h \<mapsto> hash)\<rparr>"

definition deleteBlockHash :: "syncDb \<Rightarrow> int \<Rightarrow> syncDb" where
  "deleteBlockHash d h = d\<lparr>syncHashes := (syncHashes d)(h := None)\<rparr>"

definition PutSyncedTo :: "BlockStamp \<Rightarrow> syncDb \<Rightarrow> chain_error + syncDb" where
  "PutSyncedTo bs d =
     (if bsHeight bs > 0 \<and> birthdayBlock d \<noteq> None \<and> fetchBlockHash d (int32 (bsHeight bs - 1)) = None
      then Inl ErrBlockNotFound
      else
        let d = addBlockHash d (bsHeight bs) (bsHash bs);
            stale = staleHeight (bsHeight bs);
            d = (if stale > 0 then deleteBlockHash d stale else d)
        in Inr (d\<lparr>dbSyncedTo := bs\<rparr>))"

definition SetBirthdayBlock :: "BlockStamp \<Rightarrow> bool \<Rightarrow> syncDb \<Rightarrow> syncDb" where
  "SetBirthdayBlock b verified d = d\<lparr>birthdayBlock := Some b, birthdayVerified := verified\<rparr>"

text \<open>The wallet: the sync bucket and the transaction store in the database, and in memory the block
  the manager is synced to.\<close>

record 'm chainWallet =
  wSync :: syncDb
  wTxns :: ns
  wMgr :: 'm
  memSyncedTo :: BlockStamp
  memStartBlock :: BlockStamp
  wChainSynced :: bool

text \<open>A handler runs in a database transaction.  When it fails, the error comes with the synced-to
  block in memory and the manager, which the failing transaction may have changed already; \<open>undo\<close>
  takes what is in the database back and keeps what is in memory.\<close>

type_synonym ('m, 'a) handled = "(chain_error \<times> BlockStamp \<times> 'm) + 'a"

definition failed :: "'m chainWallet \<Rightarrow> chain_error \<Rightarrow> ('m, 'a) handled" where
  "failed w e = Inl (e, memSyncedTo w, wMgr w)"

definition walletUpdate :: "('m \<Rightarrow> 'm \<Rightarrow> 'm) \<Rightarrow> ('m chainWallet \<Rightarrow> ('m, 'm chainWallet) handled) \<Rightarrow> 'm chainWallet \<Rightarrow> chain_error option \<times> 'm chainWallet" where
  "walletUpdate undo f w =
     (case f w of
        Inl (e, mem, m) \<Rightarrow> (Some e, w\<lparr>memSyncedTo := mem, wMgr := undo (wMgr w) m\<rparr>)
      | Inr w' \<Rightarrow> (None, w'))"

definition SetSyncedTo :: "BlockStamp option \<Rightarrow> 'm chainWallet \<Rightarrow> ('m, 'm chainWallet) handled" where
  "SetSyncedTo obs w =
     (let bs = (case obs of None \<Rightarrow> memStartBlock w | Some bs \<Rightarrow> bs) in
      case PutSyncedTo bs (wSync w) of
        Inl e \<Rightarrow> failed w e
      | Inr d \<Rightarrow> Inr (w\<lparr>wSync := d, memSyncedTo := bs\<rparr>))"

section \<open>Blocks (\<^verbatim>\<open>chainntfns.go\<close>)\<close>

definition stampOf :: "BlockMeta \<Rightarrow> BlockStamp" where
  "stampOf b = \<lparr>bsHeight = sint (bHeight (block b)), bsHash = bHash (block b), bsTime = btime b\<rparr>"

definition connectBlock :: "BlockMeta \<Rightarrow> 'm chainWallet \<Rightarrow> ('m, 'm chainWallet) handled" where
  "connectBlock b w = SetSyncedTo (Some (stampOf b)) w"

text \<open>\<open>getHeader\<close> is the time of a block header, if the backend has it.  The result carries the hash
  of the detached block that clients are told, if they are.\<close>

definition disconnectBlock ::
  "(MsgTx \<Rightarrow> bool) \<Rightarrow> (hash \<Rightarrow> 64 word option) \<Rightarrow> BlockMeta \<Rightarrow> 'm chainWallet \<Rightarrow>
   ('m, 'm chainWallet \<times> hash option) handled" where
  "disconnectBlock isCB getHeader b w =
     (let height = sint (bHeight (block b)) in
      if \<not> wChainSynced w then Inr (w, None)
      else if height \<le> bsHeight (memSyncedTo w) then
        (case fetchBlockHash (wSync w) height of
           None \<Rightarrow> failed w ErrBlockNotFound
         | Some hash \<Rightarrow>
             if hash = bHash (block b) then
               let bs = \<lparr>bsHeight = int32 (height - 1), bsHash = 0, bsTime = 0\<rparr> in
               (case fetchBlockHash (wSync w) (bsHeight bs) of
                  None \<Rightarrow> failed w ErrBlockNotFound
                | Some hash \<Rightarrow>
                    (case getHeader hash of
                       None \<Rightarrow> failed w BackendError
                     | Some t \<Rightarrow>
                         (case SetSyncedTo (Some (bs\<lparr>bsTime := t\<rparr>)) w of
                            Inl e \<Rightarrow> Inl e
                          | Inr w \<Rightarrow>
                              (case Rollback isCB (wTxns w) (bHeight (block b)) of
                                 Inl e \<Rightarrow> failed w (StoreErr e)
                               | Inr s \<Rightarrow> Inr (w\<lparr>wTxns := s\<rparr>, Some hash)))))
             else Inr (w, Some (bHash (block b))))
      else Inr (w, Some (bHash (block b))))"

section \<open>Transactions (\<^verbatim>\<open>chainntfns.go\<close>)\<close>

text \<open>What the handler asks of scripts and of the address manager: the addresses of a script; the managed
  address, of which it uses whether it is internal; whether the scope that has the address is a
  default one; and marking it used.  Looking up changes the caches of the manager.\<close>

record ('addr, 'm) addrFns =
  scriptAddrs :: "script \<Rightarrow> 'addr list option"
  mgrAddress :: "'addr \<Rightarrow> 'm \<Rightarrow> (mgr_error + bool) \<times> 'm"
  mgrAddrScope :: "'addr \<Rightarrow> 'm \<Rightarrow> (mgr_error + bool) \<times> 'm"
  mgrMarkUsed :: "'addr \<Rightarrow> 'm \<Rightarrow> (mgr_error + unit) \<times> 'm"
  mgrUndo :: "'m \<Rightarrow> 'm \<Rightarrow> 'm"

definition creditAddr ::
  "('addr, 'm) addrFns \<Rightarrow> TxRecord \<Rightarrow> BlockMeta option \<Rightarrow> uint32 \<Rightarrow> 'addr \<Rightarrow> 'm chainWallet \<Rightarrow> ('m, 'm chainWallet) handled" where
  "creditAddr F rec obm i a w =
     (case mgrAddress F a (wMgr w) of
        (Inl e, m) \<Rightarrow> if e = ErrAddressNotFound then Inr (w\<lparr>wMgr := m\<rparr>) else failed (w\<lparr>wMgr := m\<rparr>) MgrError
      | (Inr internal, m) \<Rightarrow>
          (case mgrAddrScope F a m of
             (Inl e, m) \<Rightarrow> failed (w\<lparr>wMgr := m\<rparr>) MgrError
           | (Inr False, m) \<Rightarrow> Inr (w\<lparr>wMgr := m\<rparr>)
           | (Inr True, m) \<Rightarrow>
               (case AddCredit (wTxns w) rec obm i internal of
                  Inl e \<Rightarrow> failed (w\<lparr>wMgr := m\<rparr>) (StoreErr e)
                | Inr (new, s) \<Rightarrow>
                    (case mgrMarkUsed F a m of
                       (Inl e, m) \<Rightarrow> failed (w\<lparr>wMgr := m\<rparr>) MgrError
                     | (Inr _, m) \<Rightarrow> Inr (w\<lparr>wTxns := s, wMgr := m\<rparr>)))))"

definition creditOutput ::
  "('addr, 'm) addrFns \<Rightarrow> TxRecord \<Rightarrow> BlockMeta option \<Rightarrow> uint32 \<times> txOut \<Rightarrow> 'm chainWallet \<Rightarrow> ('m, 'm chainWallet) handled" where
  "creditOutput F rec obm io w =
     (case scriptAddrs F (PkScript (snd io)) of
        None \<Rightarrow> Inr w
      | Some addrs \<Rightarrow> fold_err (creditAddr F rec obm (fst io)) addrs w)"

definition addRelevantTx ::
  "('addr, 'm) addrFns \<Rightarrow> TxRecord \<Rightarrow> BlockMeta option \<Rightarrow> 'm chainWallet \<Rightarrow> ('m, 'm chainWallet) handled" where
  "addRelevantTx F rec obm w =
     (case InsertTxCheckIfExists (wTxns w) rec obm of
        Inl e \<Rightarrow> failed w (StoreErr e)
      | Inr (True, s) \<Rightarrow> Inr (w\<lparr>wTxns := s\<rparr>)
      | Inr (False, s) \<Rightarrow>
          fold_err (creditOutput F rec obm) (zip (idxs (TxOut (msgTx rec))) (TxOut (msgTx rec)))
            (w\<lparr>wTxns := s\<rparr>))"

text \<open>Hashes of the blocks up to \<open>height\<close>, after a rescan: \<open>blockAt\<close> is the hash and time of the block
  at a height.\<close>

definition catchUpHashes ::
  "(int \<Rightarrow> (hash \<times> 64 word) option) \<Rightarrow> int \<Rightarrow> 'm chainWallet \<Rightarrow> ('m, 'm chainWallet) handled" where
  "catchUpHashes blockAt height w =
     fold_err
       (\<lambda>i w. case blockAt i of
                None \<Rightarrow> failed w BackendError
              | Some (hash, t) \<Rightarrow> SetSyncedTo (Some \<lparr>bsHeight = i, bsHash = hash, bsTime = t\<rparr>) w)
       [bsHeight (memSyncedTo w) + 1..height] w"

datatype notification =
    BlockConnected BlockMeta
  | BlockDisconnected BlockMeta
  | RelevantTx TxRecord "BlockMeta option"
  | FilteredBlockConnected "TxRecord list" BlockMeta
  | RescanProgress int
  | RescanFinished int

text \<open>What the backend tells about the chain.\<close>

record chainBackend =
  backBlockAt :: "int \<Rightarrow> (hash \<times> 64 word) option"
  headerTime :: "hash \<Rightarrow> 64 word option"

definition handleNotification ::
  "(MsgTx \<Rightarrow> bool) \<Rightarrow> chainBackend \<Rightarrow> ('addr, 'm) addrFns \<Rightarrow> notification \<Rightarrow> 'm chainWallet \<Rightarrow>
   chain_error option \<times> 'm chainWallet" where
  "handleNotification isCB B F n w =
     (case n of
        BlockConnected b \<Rightarrow> walletUpdate (mgrUndo F) (connectBlock b) w
      | BlockDisconnected b \<Rightarrow> walletUpdate (mgrUndo F) (\<lambda>w. map_sum id fst (disconnectBlock isCB (headerTime B) b w)) w
      | RelevantTx rec obm \<Rightarrow> walletUpdate (mgrUndo F) (addRelevantTx F rec obm) w
      | FilteredBlockConnected recs b \<Rightarrow>
          if length recs > 0 then walletUpdate (mgrUndo F) (fold_err (\<lambda>rec. addRelevantTx F rec (Some b)) recs) w
          else (None, w)
      | RescanProgress h \<Rightarrow> walletUpdate (mgrUndo F) (catchUpHashes (backBlockAt B) h) w
      | RescanFinished h \<Rightarrow>
          (case walletUpdate (mgrUndo F) (catchUpHashes (backBlockAt B) h) w of (e, w) \<Rightarrow> (e, w\<lparr>wChainSynced := True\<rparr>)))"

section \<open>The birthday block\<close>

definition birthdayBlockDelta :: int where
  "birthdayBlockDelta = 2 * 3600 * 1000000000"

text \<open>The binary search; times are in nanoseconds.\<close>

partial_function (option) birthdaySearch ::
  "(int \<Rightarrow> (hash \<times> int) option) \<Rightarrow> int \<Rightarrow> int \<Rightarrow> int \<Rightarrow> int \<Rightarrow> (chain_error + (int \<times> hash \<times> int)) option" where
  "birthdaySearch blockAt bestHeight birthday left right =
     (let mid = int32 (left + quot (int32 (right - left)) 2) in
      case blockAt mid of
        None \<Rightarrow> Some (Inl BackendError)
      | Some (hash, t) \<Rightarrow>
          if mid = 0 \<or> mid = bestHeight \<or> mid = left then Some (Inr (mid, hash, t))
          else if t - birthday > birthdayBlockDelta then birthdaySearch blockAt bestHeight birthday left mid
          else if t - birthday < - birthdayBlockDelta then birthdaySearch blockAt bestHeight birthday mid right
          else Some (Inr (mid, hash, t)))"

definition locateBirthdayBlock ::
  "int option \<Rightarrow> (int \<Rightarrow> (hash \<times> int) option) \<Rightarrow> int \<Rightarrow> (chain_error + (int \<times> hash \<times> int)) option" where
  "locateBirthdayBlock best blockAt birthday =
     (case best of
        None \<Rightarrow> Some (Inl BackendError)
      | Some bestHeight \<Rightarrow> birthdaySearch blockAt bestHeight birthday 0 bestHeight)"

section \<open>Rolling back at start-up\<close>

text \<open>The loop of \<open>syncWithChain\<close> that walks down from the synced height to the first block the chain
  still has, and what follows it in the same transaction.\<close>

partial_function (option) findFork ::
  "(int \<Rightarrow> (hash \<times> 64 word) option) \<Rightarrow> syncDb \<Rightarrow> int \<Rightarrow> bool \<Rightarrow> (chain_error + BlockStamp \<times> bool) option" where
  "findFork blockAt d height rolled =
     (case fetchBlockHash d height of
        None \<Rightarrow> Some (Inl ErrBlockNotFound)
      | Some hash \<Rightarrow>
          (case blockAt height of
             None \<Rightarrow> Some (Inl BackendError)
           | Some (chainHash, t) \<Rightarrow>
               if hash = chainHash then Some (Inr (\<lparr>bsHeight = height, bsHash = chainHash, bsTime = t\<rparr>, rolled))
               else findFork blockAt d (int32 (height - 1)) True))"

definition syncRollback ::
  "(MsgTx \<Rightarrow> bool) \<Rightarrow> (int \<Rightarrow> (hash \<times> 64 word) option) \<Rightarrow> BlockStamp \<Rightarrow> 'm chainWallet \<Rightarrow> ('m, 'm chainWallet) handled option" where
  "syncRollback isCB blockAt birthday w =
     (case findFork blockAt (wSync w) (bsHeight (memSyncedTo w)) False of
        None \<Rightarrow> None
      | Some (Inl e) \<Rightarrow> Some (failed w e)
      | Some (Inr (stamp, rolled)) \<Rightarrow>
          if \<not> rolled then Some (Inr w)
          else Some
            (case SetSyncedTo (Some stamp) w of
               Inl e \<Rightarrow> Inl e
             | Inr w \<Rightarrow>
                 let w = (if bsHeight stamp \<le> bsHeight birthday \<and> bsHash stamp \<noteq> bsHash birthday
                          then w\<lparr>wSync := SetBirthdayBlock stamp True (wSync w)\<rparr> else w)
                 in case Rollback isCB (wTxns w) (word_of_int (bsHeight stamp + 1)) of
                      Inl e \<Rightarrow> failed w (StoreErr e)
                    | Inr s \<Rightarrow> Inr (w\<lparr>wTxns := s\<rparr>)))"

section \<open>The birthday search ends and is safe\<close>

lemma search_mid:
  assumes "0 \<le> left" "left \<le> right" "right \<le> 2147483647"
  shows "int32 (left + quot (int32 (right - left)) 2) = left + (right - left) div 2"
proof -
  have "0 \<le> (right - left) div 2" "(right - left) div 2 \<le> right - left" using assms by simp_all
  then have "int32 (left + (right - left) div 2) = left + (right - left) div 2" using assms by (intro int32_id) simp
  then show ?thesis using assms by simp
qed

lemma birthdaySearch_finds:
  assumes "0 \<le> left" "left < right \<or> left = right \<and> best = 0" "right \<le> best" "best \<le> 2147483647"
    and blocks: "\<forall>h \<in> {0..best}. blockAt h = Some (hashAt h, timeAt h)"
    and "left = 0 \<or> timeAt left - birthday < - birthdayBlockDelta"
    and "right = best \<or> timeAt right - birthday > birthdayBlockDelta"
  shows "\<exists>h. birthdaySearch blockAt best birthday left right = Some (Inr (h, hashAt h, timeAt h)) \<and>
    0 \<le> h \<and> h \<le> best \<and> (h = 0 \<or> timeAt h - birthday \<le> birthdayBlockDelta) \<and>
    (\<bar>timeAt h - birthday\<bar> \<le> birthdayBlockDelta \<or> best \<le> h + 1 \<or> timeAt (h + 1) - birthday > birthdayBlockDelta)"
  using assms
proof (induction "nat (right - left)" arbitrary: left right rule: less_induct)
  case less
  define mid where "mid = left + (right - left) div 2"
  have lr: "left \<le> right" using less.prems(2) by auto
  have m: "left \<le> mid" "mid \<le> right" "left < right \<Longrightarrow> mid < right" using lr by (auto simp: mid_def)
  have b: "blockAt mid = Some (hashAt mid, timeAt mid)" using blocks m less.prems(1,3) by auto
  note unfold = birthdaySearch.simps [of blockAt best birthday left right]
    search_mid [OF less.prems(1) lr] mid_def [symmetric] b
  have r: "right \<le> 2147483647" using less.prems(3,4) by simp
  have d: "0 < birthdayBlockDelta" by (simp add: birthdayBlockDelta_def)
  consider (stop) "mid = 0 \<or> mid = best \<or> mid = left"
    | (later) "\<not> (mid = 0 \<or> mid = best \<or> mid = left)" "timeAt mid - birthday > birthdayBlockDelta"
    | (earlier) "\<not> (mid = 0 \<or> mid = best \<or> mid = left)" "timeAt mid - birthday < - birthdayBlockDelta"
    | (near) "\<not> (mid = 0 \<or> mid = best \<or> mid = left)" "\<bar>timeAt mid - birthday\<bar> \<le> birthdayBlockDelta"
    using d by linarith
  then show ?case
  proof cases
    case stop
    then have ml: "mid = left" "right \<le> left + 1"
      using less.prems(1-3) m by (auto simp: mid_def)
    then have "mid = 0 \<or> timeAt mid - birthday \<le> birthdayBlockDelta" using less.prems(6) d by auto
    moreover have "best \<le> mid + 1 \<or> timeAt (mid + 1) - birthday > birthdayBlockDelta"
      using ml less.prems(1,2,7) by (auto simp: order_le_less)
    moreover have "birthdaySearch blockAt best birthday left right = Some (Inr (mid, hashAt mid, timeAt mid))"
      using stop by (simp add: unfold r)
    ultimately show ?thesis using m(1,2) less.prems(1,3) by force
  next
    case later
    have lt: "left < mid" "left < right" using later(1) m less.prems(2) by auto
    then have "nat (mid - left) < nat (right - left)" using m(3) by simp
    from less.hyps [OF this less.prems(1) _ _ less.prems(4,5,6)] later m lt less.prems(3)
    show ?thesis by (simp add: unfold r)
  next
    case earlier
    have lt: "left < mid" "left < right" using earlier(1) m less.prems(2) by auto
    then have "nat (right - mid) < nat (right - left)" by simp
    from less.hyps [OF this _ _ less.prems(3-5) _ less.prems(7)] earlier m lt less.prems(1) d
    show ?thesis by (simp add: unfold r)
  next
    case near
    then show ?thesis using m less.prems(1,3) by (auto simp: unfold r)
  qed
qed

text \<open>C36.  The search for the birthday block ends for every chain the backend can serve.  The block it
  finds is never more than two hours after the birthday, unless it is the first block, so that
  a rescan from it misses nothing; and it is not needlessly early: it lies within two hours of
  the birthday, or the next block is more than two hours after it, or it is one of the last
  two blocks.  No order of the timestamps is assumed.\<close>

theorem birthday_block_safe:
  assumes "0 \<le> best" "best \<le> 2147483647" "\<forall>h \<in> {0..best}. blockAt h = Some (hashAt h, timeAt h)"
  shows "\<exists>h. locateBirthdayBlock (Some best) blockAt birthday = Some (Inr (h, hashAt h, timeAt h)) \<and>
    0 \<le> h \<and> h \<le> best \<and> (h = 0 \<or> timeAt h \<le> birthday + birthdayBlockDelta) \<and>
    (\<bar>timeAt h - birthday\<bar> \<le> birthdayBlockDelta \<or> best \<le> h + 1 \<or> timeAt (h + 1) > birthday + birthdayBlockDelta)"
proof -
  have "\<exists>h. birthdaySearch blockAt best birthday 0 best = Some (Inr (h, hashAt h, timeAt h)) \<and>
    0 \<le> h \<and> h \<le> best \<and> (h = 0 \<or> timeAt h - birthday \<le> birthdayBlockDelta) \<and>
    (\<bar>timeAt h - birthday\<bar> \<le> birthdayBlockDelta \<or> best \<le> h + 1 \<or> timeAt (h + 1) - birthday > birthdayBlockDelta)"
    using assms by (intro birthdaySearch_finds) auto
  then show ?thesis by (auto simp: locateBirthdayBlock_def algebra_simps)
qed

definition demoTime :: "int \<Rightarrow> int" where "demoTime h = 600000000000 * h"

lemma birthday_block_safe_witness:
  "\<exists>h. locateBirthdayBlock (Some 100) (\<lambda>h. if 0 \<le> h \<and> h \<le> 100 then Some (word_of_int h, demoTime h) else None)
       (demoTime 40) = Some (Inr (h, word_of_int h, demoTime h)) \<and> 0 \<le> h \<and> h \<le> 52"
proof -
  let ?b = "\<lambda>h. if 0 \<le> h \<and> h \<le> (100 :: int) then Some (word_of_int h :: hash, demoTime h) else None"
  have "\<forall>h \<in> {0..100}. ?b h = Some (word_of_int h, demoTime h)" by simp
  from birthday_block_safe [OF _ _ this, of "demoTime 40"] obtain h where h:
    "locateBirthdayBlock (Some 100) ?b (demoTime 40) = Some (Inr (h, word_of_int h, demoTime h))"
    "0 \<le> h" "h = 0 \<or> demoTime h \<le> demoTime 40 + birthdayBlockDelta" by auto
  have "h \<le> 52" using h(2,3) by (auto simp: demoTime_def birthdayBlockDelta_def)
  then show ?thesis using h(1,2) by blast
qed

section \<open>Disconnecting blocks\<close>

lemma SetSyncedTo_ok:
  assumes "bsHeight bs > 0 \<longrightarrow> birthdayBlock (wSync w) \<noteq> None \<longrightarrow> syncHashes (wSync w) (bsHeight bs - 1) \<noteq> None"
    and "0 \<le> bsHeight bs" "bsHeight bs \<le> 2147483647"
  shows "\<exists>w'. SetSyncedTo (Some bs) w = Inr w' \<and> memSyncedTo w' = bs \<and> dbSyncedTo (wSync w') = bs \<and>
    syncHashes (wSync w') (bsHeight bs) = Some (bsHash bs) \<and> wTxns w' = wTxns w \<and> wMgr w' = wMgr w \<and>
    wChainSynced w' = wChainSynced w \<and> birthdayBlock (wSync w') = birthdayBlock (wSync w) \<and>
    (\<forall>h. h \<noteq> bsHeight bs \<and> bsHeight bs - MaxReorgDepth < h \<longrightarrow> syncHashes (wSync w') h = syncHashes (wSync w) h)"
  using assms
  by (auto simp: SetSyncedTo_def PutSyncedTo_def fetchBlockHash_def addBlockHash_def deleteBlockHash_def
      staleHeight_def MaxReorgDepth_def Let_def)

text \<open>C37.  Disconnecting the synced block rolls the store back to just below it and sets the synced
  height to the block before.  But the handler leaves the hash of the new synced block zero,
  in memory and in the hash index, and tells clients that this block, not the detached one,
  was detached.  So when the chain goes on to disconnect the block before, as a reorganisation of
  two blocks does, that notification is ignored: the wallet stays as it was, the
  transactions of the stale block remaining mined.\<close>

theorem disconnect_forgets_hash:
  assumes "universe isCB T rk" "storeInv isCB T (wTxns w)" "wChainSynced w"
    and "h = sint (bHeight (block b))" "1 \<le> h" "h \<le> bsHeight (memSyncedTo w)"
    and "syncHashes (wSync w) h = Some (bHash (block b))" "syncHashes (wSync w) (h - 1) = Some prev"
    and "1 < h \<longrightarrow> syncHashes (wSync w) (h - 2) \<noteq> None" "getHeader prev = Some t"
    and "sint (bHeight (block b2)) = h - 1" "bHash (block b2) = prev" "prev \<noteq> 0"
  shows "\<exists>w'. disconnectBlock isCB getHeader b w = Inr (w', Some prev) \<and>
    storeInv isCB T (wTxns w') \<and> mdom (wTxns w') = mdom (wTxns w) - detached (wTxns w) (bHeight (block b)) \<and>
    memSyncedTo w' = \<lparr>bsHeight = h - 1, bsHash = 0, bsTime = t\<rparr> \<and> syncHashes (wSync w') (h - 1) = Some 0 \<and>
    disconnectBlock isCB getHeader b2 w' = Inr (w', Some prev)"
proof -
  define bs where "bs = \<lparr>bsHeight = h - 1, bsHash = (0 :: hash), bsTime = t\<rparr>"
  have hb: "h \<le> 2147483647" using assms(4) sint_lt [of "bHeight (block b)"] by simp
  then have h1: "int32 (h - 1) = h - 1" using assms(5) by simp
  obtain w1 where w1: "SetSyncedTo (Some bs) w = Inr w1" "memSyncedTo w1 = bs" "wTxns w1 = wTxns w"
    "wChainSynced w1" "syncHashes (wSync w1) (h - 1) = Some 0"
    using SetSyncedTo_ok [of bs w] assms(3,5,9) hb by (auto simp: bs_def)
  obtain s' where s': "Rollback isCB (wTxns w) (bHeight (block b)) = Inr s'" "storeInv isCB T s'"
    "mdom s' = mdom (wTxns w) - detached (wTxns w) (bHeight (block b))"
    using rollback_spec [OF assms(1,2), of "bHeight (block b)"] unfolding Rollback_def by blast
  let ?w = "w1\<lparr>wTxns := s'\<rparr>"
  have "disconnectBlock isCB getHeader b w = Inr (?w, Some prev)"
    using assms(3-10) w1(1,3) s'(1) h1
    by (simp add: disconnectBlock_def fetchBlockHash_def Let_def bs_def flip: assms(4))
  moreover have "disconnectBlock isCB getHeader b2 ?w = Inr (?w, Some prev)"
    using w1 assms(11-13) by (simp add: disconnectBlock_def fetchBlockHash_def Let_def bs_def)
  ultimately show ?thesis using w1 s' by (auto simp: bs_def)
qed

text \<open>A wallet synced to block 2, with the coinbase of block 1 as its only mined transaction.\<close>

definition demoWallet :: "unit chainWallet" where
  "demoWallet = \<lparr>wSync = \<lparr>syncHashes = [0 \<mapsto> 100, 1 \<mapsto> 101, 2 \<mapsto> 102],
       dbSyncedTo = \<lparr>bsHeight = 2, bsHash = 102, bsTime = 0\<rparr>,
       birthdayBlock = Some \<lparr>bsHeight = 0, bsHash = 100, bsTime = 0\<rparr>, birthdayVerified = True\<rparr>,
     wTxns = demo4, wMgr = (), memSyncedTo = \<lparr>bsHeight = 2, bsHash = 102, bsTime = 0\<rparr>,
     memStartBlock = \<lparr>bsHeight = 0, bsHash = 100, bsTime = 0\<rparr>, wChainSynced = True\<rparr>"

lemma disconnect_forgets_hash_witness:
  "\<exists>w'. disconnectBlock demoCB (\<lambda>h. Some 0) (demoBlock 2) demoWallet = Inr (w', Some 101) \<and>
     mdom (wTxns w') = {(1, Block 1 101)} \<and>
     disconnectBlock demoCB (\<lambda>h. Some 0) (demoBlock 1) w' = Inr (w', Some 101)"
proof -
  have b: "block (demoBlock 2) = Block 2 102" "block (demoBlock 1) = Block 1 101"
    by (simp_all add: demoBlock_def)
  have d: "detached demo4 2 = {}" by (auto simp: detached_def demo_mdom)
  have w: "storeInv demoCB demoT (wTxns demoWallet)" "wTxns demoWallet = demo4" "wChainSynced demoWallet"
    "2 \<le> bsHeight (memSyncedTo demoWallet)" "syncHashes (wSync demoWallet) 2 = Some 102"
    "syncHashes (wSync demoWallet) 1 = Some 101" "syncHashes (wSync demoWallet) 0 = Some 100"
    by (simp_all add: demoWallet_def demo_inv)
  obtain w' where w': "disconnectBlock demoCB (\<lambda>h. Some 0) (demoBlock 2) demoWallet = Inr (w', Some 101)"
    "mdom (wTxns w') = mdom demo4 - detached demo4 2"
    "disconnectBlock demoCB (\<lambda>h. Some 0) (demoBlock 1) w' = Inr (w', Some 101)"
    using disconnect_forgets_hash [OF demo_universe w(1,3), of 2 "demoBlock 2" 101 "\<lambda>h. Some 0" 0 "demoBlock 1"]
    by (simp add: b w del: split_paired_Ex) (elim exE conjE, rule that)
  have "mdom (wTxns w') = {(1, Block 1 101)}" using w'(2) by (simp only: d demo_mdom Diff_empty)
  then show ?thesis using w'(1,3) by blast
qed

section \<open>Relevant transactions\<close>

text \<open>The outputs the wallet owns: a managed address of a default scope is among those the script
  pays to.\<close>

text \<open>\<open>own\<close> says of an address whether it is managed, and then whether its scope is a default one.\<close>

definition ownsOut :: "('addr, 'm) addrFns \<Rightarrow> ('addr \<Rightarrow> bool option) \<Rightarrow> txOut \<Rightarrow> bool" where
  "ownsOut F own out \<longleftrightarrow> (\<exists>addrs. scriptAddrs F (PkScript out) = Some addrs \<and> (\<exists>a \<in> set addrs. own a = Some True))"

definition creditSet :: "ns \<Rightarrow> hash \<Rightarrow> BlockMeta option \<Rightarrow> uint32 set" where
  "creditSet s h obm =
     (case obm of
        None \<Rightarrow> {i. Get (unminedCredits s) (OutPoint h i) \<noteq> None}
      | Some bm \<Rightarrow> {i. Get (credits s) (h, block bm, i) \<noteq> None})"

text \<open>The transaction is recorded where it was reported, and nothing recorded spends its outputs.\<close>

definition recordedAt :: "(MsgTx \<Rightarrow> bool) \<Rightarrow> (hash \<Rightarrow> MsgTx) \<Rightarrow> ns \<Rightarrow> hash \<Rightarrow> BlockMeta option \<Rightarrow> bool" where
  "recordedAt isCB T s h obm \<longleftrightarrow>
     (case obm of
        None \<Rightarrow> h \<in> udom s \<and> (\<forall>b. (h, b) \<notin> mdom s)
      | Some bm \<Rightarrow> (h, block bm) \<in> mdom s \<and> (\<forall>i. OutPoint h i \<notin> spentBy isCB T (mdom s)))"

lemma AddCredit_recorded:
  assumes "storeInv isCB T s" "msgTx rec = T (txHash rec)" "hasOut (T (txHash rec)) i"
    "recordedAt isCB T s (txHash rec) obm"
  shows "\<exists>new s'. AddCredit s rec obm i change = Inr (new, s') \<and> storeInv isCB T s' \<and>
    mdom s' = mdom s \<and> udom s' = udom s \<and> creditSet s' (txHash rec) obm = insert i (creditSet s (txHash rec) obm)"
proof -
  let ?s = "snd (addCredit s rec obm i change)"
  have a: "AddCredit s rec obm i change = Inr (fst (addCredit s rec obm i change), ?s)"
    using assms(2,3) by (simp add: AddCredit_def hasOut_def)
  have "storeInv isCB T ?s"
    using AddCredit_inv [OF assms(1,2) a] assms(4) by (auto simp: recordedAt_def split: option.splits)
  moreover have "mdom ?s = mdom s" "udom ?s = udom s"
    by (auto simp: addCredit_def Let_def putRawUnminedCredit_def putUnspentCredit_def putUnspent_def split: option.splits)
  moreover have "creditSet ?s (txHash rec) obm = insert i (creditSet s (txHash rec) obm)"
  proof (cases obm)
    case None
    then have "latestTxRecord s (txHash rec) = None"
      using assms(4) latestTxRecord_None [of s "txHash rec"] by (simp add: recordedAt_def)
    then show ?thesis
      by (auto simp: None creditSet_def addCredit_def Let_def putRawUnminedCredit_def)
  next
    case (Some bm)
    then show ?thesis
      by (auto simp: creditSet_def addCredit_def Let_def putUnspentCredit_def putUnspent_def)
  qed
  ultimately show ?thesis using a by blast
qed

lemma fold_err_union:
  assumes "P s" and "\<And>x s. x \<in> set xs \<Longrightarrow> P s \<Longrightarrow> \<exists>s'. f x s = Inr s' \<and> P s' \<and> g s' = g s \<union> h x"
  shows "\<exists>s'. fold_err f xs s = Inr s' \<and> P s' \<and> g s' = g s \<union> (\<Union>x \<in> set xs. h x)"
  using assms
proof (induction xs arbitrary: s)
  case (Cons x xs)
  then obtain s1 where s1: "f x s = Inr s1" "P s1" "g s1 = g s \<union> h x" by (metis list.set_intros(1))
  then obtain s' where "fold_err f xs s1 = Inr s'" "P s'" "g s' = g s1 \<union> (\<Union>x \<in> set xs. h x)"
    using Cons.IH [of s1] Cons.prems(2) by (metis list.set_intros(2))
  with s1 show ?case by auto
qed simp

text \<open>Every address a transaction pays to is of the kind the manager's contract covers.\<close>

definition plainOuts :: "('addr, 'm) addrFns \<Rightarrow> ('addr \<Rightarrow> bool) \<Rightarrow> MsgTx \<Rightarrow> bool" where
  "plainOuts F plain tx \<longleftrightarrow>
     (\<forall>out \<in> set (TxOut tx). \<forall>addrs. scriptAddrs F (PkScript out) = Some addrs \<longrightarrow> list_all plain addrs)"

text \<open>What the handler relies on.  In a good state of the manager a lookup of a plain address finds it if it is
  managed, its scope is known and it can be marked used; all this leaves the manager good
  and changes nothing of who owns what.\<close>

locale address_book =
  fixes F :: "('addr, 'm) addrFns" and good :: "'m \<Rightarrow> bool" and owner :: "'m \<Rightarrow> 'addr \<Rightarrow> bool option"
    and plain :: "'addr \<Rightarrow> bool"
  assumes address: "good m \<Longrightarrow> plain a \<Longrightarrow> mgrAddress F a m = (r, m') \<Longrightarrow>
      good m' \<and> owner m' = owner m \<and> (case owner m a of None \<Rightarrow> r = Inl ErrAddressNotFound | Some d \<Rightarrow> \<exists>i. r = Inr i)"
    and scope: "good m \<Longrightarrow> plain a \<Longrightarrow> owner m a = Some d \<Longrightarrow> mgrAddrScope F a m = (r, m') \<Longrightarrow>
      good m' \<and> owner m' = owner m \<and> r = Inr d"
    and used: "good m \<Longrightarrow> plain a \<Longrightarrow> owner m a = Some True \<Longrightarrow> mgrMarkUsed F a m = (u, m') \<Longrightarrow>
      good m' \<and> owner m' = owner m \<and> u = Inr ()"
begin

text \<open>What the loops over outputs and addresses keep: the store is consistent and records the same
  transactions, the sync state is as before, and the manager gives the same answers.\<close>

definition crediting ::
  "(MsgTx \<Rightarrow> bool) \<Rightarrow> (hash \<Rightarrow> MsgTx) \<Rightarrow> 'm chainWallet \<Rightarrow> 'm chainWallet \<Rightarrow> bool" where
  "crediting isCB T w w' \<longleftrightarrow> storeInv isCB T (wTxns w') \<and> mdom (wTxns w') = mdom (wTxns w) \<and>
     udom (wTxns w') = udom (wTxns w) \<and> w'\<lparr>wTxns := wTxns w, wMgr := wMgr w\<rparr> = w \<and>
     good (wMgr w') \<and> owner (wMgr w') = owner (wMgr w)"

lemma crediting_mgr:
  assumes "crediting isCB T w0 w" "good m" "owner m = owner (wMgr w)"
  shows "crediting isCB T w0 (w\<lparr>wMgr := m\<rparr>)"
  using assms by (simp add: crediting_def)

lemma creditAddr_ok:
  assumes "crediting isCB T w0 w" "plain a" "msgTx rec = T (txHash rec)" "hasOut (T (txHash rec)) i"
    "recordedAt isCB T (wTxns w0) (txHash rec) obm"
  shows "\<exists>w'. creditAddr F rec obm i a w = Inr w' \<and> crediting isCB T w0 w' \<and>
    creditSet (wTxns w') (txHash rec) obm =
      creditSet (wTxns w) (txHash rec) obm \<union> {j. j = i \<and> owner (wMgr w0) a = Some True}"
proof -
  obtain r m1 where l: "mgrAddress F a (wMgr w) = (r, m1)" by (cases "mgrAddress F a (wMgr w)")
  have g: "good (wMgr w)" "owner (wMgr w) = owner (wMgr w0)" using assms(1) by (simp_all add: crediting_def)
  note ad = address [OF g(1) assms(2) l]
  show ?thesis
  proof (cases "owner (wMgr w) a")
    case None
    with ad l g crediting_mgr [OF assms(1), of m1] show ?thesis by (simp add: creditAddr_def)
  next
    case (Some d)
    then obtain internal where r: "r = Inr internal" using ad by auto
    obtain r2 m2 where sc: "mgrAddrScope F a m1 = (r2, m2)" by (cases "mgrAddrScope F a m1")
    have s2: "good m2" "owner m2 = owner (wMgr w)" "r2 = Inr d"
      using scope [of m1 a d, OF _ assms(2) _ sc] ad Some by simp_all
    show ?thesis
    proof (cases d)
      case False
      with l r sc s2 g Some crediting_mgr [OF assms(1), of m2] show ?thesis by (simp add: creditAddr_def)
    next
      case True
      have "recordedAt isCB T (wTxns w) (txHash rec) obm"
        using assms(1,5) by (simp add: crediting_def recordedAt_def split: option.splits)
      from AddCredit_recorded [OF _ assms(3,4) this, of internal] assms(1)
      obtain new s' where s': "AddCredit (wTxns w) rec obm i internal = Inr (new, s')" "storeInv isCB T s'"
        "mdom s' = mdom (wTxns w)" "udom s' = udom (wTxns w)"
        "creditSet s' (txHash rec) obm = insert i (creditSet (wTxns w) (txHash rec) obm)"
        by (auto simp: crediting_def)
      obtain r3 m3 where mu: "mgrMarkUsed F a m2 = (r3, m3)" by (cases "mgrMarkUsed F a m2")
      have s3: "good m3" "owner m3 = owner (wMgr w)" "r3 = Inr ()"
        using used [OF s2(1) assms(2) _ mu] s2(2) Some True by simp_all
      have "creditAddr F rec obm i a w = Inr (w\<lparr>wTxns := s', wMgr := m3\<rparr>)"
        using l r sc s2(3) True s'(1) mu s3(3) by (simp add: creditAddr_def)
      moreover have "crediting isCB T w0 (w\<lparr>wTxns := s', wMgr := m3\<rparr>)"
        using assms(1) s' s3(1,2) by (simp add: crediting_def)
      ultimately show ?thesis using s'(5) Some True g(2) by auto
    qed
  qed
qed

lemma creditOutput_ok:
  assumes "crediting isCB T w0 w" "msgTx rec = T (txHash rec)" "hasOut (T (txHash rec)) i"
    "recordedAt isCB T (wTxns w0) (txHash rec) obm" "\<And>addrs. scriptAddrs F (PkScript out) = Some addrs \<Longrightarrow> list_all plain addrs"
  shows "\<exists>w'. creditOutput F rec obm (i, out) w = Inr w' \<and> crediting isCB T w0 w' \<and>
    creditSet (wTxns w') (txHash rec) obm =
      creditSet (wTxns w) (txHash rec) obm \<union> {j. j = i \<and> ownsOut F (owner (wMgr w0)) out}"
proof (cases "scriptAddrs F (PkScript out)")
  case None
  then show ?thesis using assms(1) by (simp add: creditOutput_def ownsOut_def)
next
  case (Some addrs)
  let ?g = "\<lambda>w. creditSet (wTxns w) (txHash rec) obm"
  have pl: "plain a" if "a \<in> set addrs" for a using assms(5) [OF Some] that by (simp add: list_all_iff)
  have "\<exists>w'. fold_err (creditAddr F rec obm i) addrs w = Inr w' \<and> crediting isCB T w0 w' \<and>
      ?g w' = ?g w \<union> (\<Union>a \<in> set addrs. {j. j = i \<and> owner (wMgr w0) a = Some True})"
    using assms(1) creditAddr_ok [OF _ pl assms(2-4)] by (intro fold_err_union)
  moreover have "(\<Union>a \<in> set addrs. {j. j = i \<and> owner (wMgr w0) a = Some True}) = {j. j = i \<and> ownsOut F (owner (wMgr w0)) out}"
    by (auto simp: ownsOut_def Some)
  ultimately show ?thesis by (simp add: creditOutput_def Some)
qed

lemma credit_outputs:
  assumes "good (wMgr w)" "storeInv isCB T (wTxns w)" "msgTx rec = T (txHash rec)" "plainOuts F plain (msgTx rec)"
    "length (TxOut (T (txHash rec))) \<le> 2 ^ 32" "recordedAt isCB T (wTxns w) (txHash rec) obm"
  shows "\<exists>w'. fold_err (creditOutput F rec obm) (zip (idxs (TxOut (msgTx rec))) (TxOut (msgTx rec))) w = Inr w' \<and>
    crediting isCB T w w' \<and>
    creditSet (wTxns w') (txHash rec) obm = creditSet (wTxns w) (txHash rec) obm \<union>
      {i. hasOut (msgTx rec) i \<and> ownsOut F (owner (wMgr w)) (TxOut (msgTx rec) ! unat i)}"
proof -
  let ?outs = "TxOut (msgTx rec)" let ?z = "zip (idxs ?outs) ?outs"
  let ?h = "\<lambda>io. {j. j = fst io \<and> ownsOut F (owner (wMgr w)) (snd io)}"
  let ?g = "\<lambda>w. creditSet (wTxns w) (txHash rec) obm"
  have io: "hasOut (T (txHash rec)) i \<and> out = ?outs ! unat i \<and> out \<in> set ?outs" if "(i, out) \<in> set ?z" for i out
    using that assms(3,5) by (auto simp: set_zip idxs_def hasOut_def unat_of_nat)
  have oi: "(i, ?outs ! unat i) \<in> set ?z" if "hasOut (msgTx rec) i" for i
    using that by (auto simp: set_zip idxs_def hasOut_def intro!: exI [of _ "unat i"])
  have step: "\<exists>w'. creditOutput F rec obm io v = Inr w' \<and> crediting isCB T w w' \<and> ?g w' = ?g v \<union> ?h io"
    if "io \<in> set ?z" "crediting isCB T w v" for io v
  proof -
    obtain i out where p: "io = (i, out)" by (cases io)
    have "hasOut (T (txHash rec)) i" "out \<in> set ?outs" using io that(1) p by blast+
    from creditOutput_ok [OF that(2) assms(3) this(1) assms(6), of out] this(2) assms(4)
    show ?thesis by (simp add: p plainOuts_def)
  qed
  have "crediting isCB T w w" using assms(1,2) by (simp add: crediting_def)
  from fold_err_union [of "crediting isCB T w" w ?z "creditOutput F rec obm" ?g ?h, OF this step]
  obtain w' where w': "fold_err (creditOutput F rec obm) ?z w = Inr w'" "crediting isCB T w w'"
    "?g w' = ?g w \<union> (\<Union>io \<in> set ?z. ?h io)" by blast
  have "(\<Union>io \<in> set ?z. ?h io) = {i. hasOut (msgTx rec) i \<and> ownsOut F (owner (wMgr w)) (?outs ! unat i)}"
  proof (intro equalityI subsetI)
    fix j assume "j \<in> (\<Union>io \<in> set ?z. ?h io)"
    then obtain out where "(j, out) \<in> set ?z" "ownsOut F (owner (wMgr w)) out" by auto
    then show "j \<in> {i. hasOut (msgTx rec) i \<and> ownsOut F (owner (wMgr w)) (?outs ! unat i)}" using io assms(3) by auto
  qed (use oi in fastforce)
  then show ?thesis using w' by blast
qed

end

lemma addRelevantTx_insert:
  assumes "universe isCB T rk" "storeInv isCB T s" "msgTx rec = T (txHash rec)"
    and "case obm of None \<Rightarrow> txHash rec \<notin> udom s \<and> (\<forall>b. (txHash rec, b) \<notin> mdom s)
           | Some bm \<Rightarrow> mineable isCB T s (txHash rec) (block bm)"
  shows "\<exists>s'. InsertTxCheckIfExists s rec obm = Inr (False, s') \<and> storeInv isCB T s' \<and>
    recordedAt isCB T s' (txHash rec) obm \<and>
    creditSet s' (txHash rec) obm = {i. Get (unminedCredits s) (OutPoint (txHash rec) i) \<noteq> None}"
proof (cases obm)
  case None
  with assms(4) have new: "txHash rec \<notin> udom s" "\<And>b. (txHash rec, b) \<notin> mdom s" by auto
  from insertMemPoolTx_spec [OF assms(2,3,1) new] obtain s' where s': "insertMemPoolTx s rec = Inr s'"
    "storeInv isCB T s'" "sameMined s s'"
    "Get (unmined s') = (Get (unmined s))(txHash rec \<mapsto> \<lparr>tvReceived = received rec, tvTx = msgTx rec\<rparr>)"
    "unminedCredits s' = unminedCredits s" by blast
  have "mdom s' = mdom s" using sameMinedD [OF s'(3)] by simp
  then have "recordedAt isCB T s' (txHash rec) None" using s'(4) new(2) by (simp add: recordedAt_def)
  then show ?thesis using s' by (simp add: None InsertTxCheckIfExists_def creditSet_def)
next
  case (Some bm)
  with assms(4) have m: "mineable isCB T s (txHash rec) (block bm)" by simp
  from insertMinedTx_spec [OF assms(1-3) m] obtain s' where s': "insertMinedTx s rec bm = Inr s'"
    "storeInv isCB T s'" "mdom s' = insert (txHash rec, block bm) (mdom s)"
    "dom (Get (credits s')) = dom (Get (credits s)) \<union>
      {(txHash rec, block bm, i) | i. Get (unminedCredits s) (OutPoint (txHash rec) i) \<noteq> None}"
    by (elim exE conjE) (rule that)
  have L: "ledgerOf isCB T (mdom s) (spentBy isCB T (mdom s)) s" using assms(2) by (simp add: storeInv_def)
  have "(txHash rec, block bm) \<notin> mdom s" using m by (simp add: mineable_def)
  then have "(txHash rec, block bm, i) \<notin> dom (Get (credits s))" for i using ledgerD(1) [OF L] by blast
  then have "creditSet s' (txHash rec) obm = {i. Get (unminedCredits s) (OutPoint (txHash rec) i) \<noteq> None}"
    unfolding Some creditSet_def option.case domIff [symmetric] s'(4) by auto
  moreover have "OutPoint (txHash rec) i \<notin> set (TxIn (T (txHash rec)))" for i
    using universeD(3) [OF assms(1), of "OutPoint (txHash rec) i" "txHash rec"] by auto
  then have "recordedAt isCB T s' (txHash rec) obm"
    using m by (simp add: Some recordedAt_def s'(3) spentBy_insert mineable_def)
  ultimately show ?thesis using s'(1,2) by (simp add: Some InsertTxCheckIfExists_def)
qed

text \<open>The whole handler.\<close>

context address_book
begin

lemma relevant_credited:
  assumes "universe isCB T rk" "storeInv isCB T (wTxns w)" "msgTx rec = T (txHash rec)"
    and "good (wMgr w)" "plainOuts F plain (msgTx rec)"
    and "case obm of None \<Rightarrow> txHash rec \<notin> udom (wTxns w) \<and> (\<forall>b. (txHash rec, b) \<notin> mdom (wTxns w))
           | Some bm \<Rightarrow> mineable isCB T (wTxns w) (txHash rec) (block bm)"
  shows "\<exists>w'. addRelevantTx F rec obm w = Inr w' \<and> storeInv isCB T (wTxns w') \<and>
    (case obm of None \<Rightarrow> txHash rec \<in> udom (wTxns w') | Some bm \<Rightarrow> (txHash rec, block bm) \<in> mdom (wTxns w')) \<and>
    creditSet (wTxns w') (txHash rec) obm =
      {i. Get (unminedCredits (wTxns w)) (OutPoint (txHash rec) i) \<noteq> None} \<union>
      {i. hasOut (msgTx rec) i \<and> ownsOut F (owner (wMgr w)) (TxOut (msgTx rec) ! unat i)} \<and>
    good (wMgr w') \<and> owner (wMgr w') = owner (wMgr w) \<and> wSync w' = wSync w \<and> memSyncedTo w' = memSyncedTo w"
proof -
  from addRelevantTx_insert [OF assms(1-3,6)] obtain s' where
    s': "InsertTxCheckIfExists (wTxns w) rec obm = Inr (False, s')" "storeInv isCB T s'"
    "recordedAt isCB T s' (txHash rec) obm"
    "creditSet s' (txHash rec) obm = {i. Get (unminedCredits (wTxns w)) (OutPoint (txHash rec) i) \<noteq> None}" by blast
  let ?w = "w\<lparr>wTxns := s'\<rparr>"
  have c: "good (wMgr ?w)" "storeInv isCB T (wTxns ?w)" "recordedAt isCB T (wTxns ?w) (txHash rec) obm" using s' assms(4) by simp_all
  from credit_outputs [OF c(1,2) assms(3,5) universeD(1) [OF assms(1)] c(3)] obtain w' where
    w': "fold_err (creditOutput F rec obm) (zip (idxs (TxOut (msgTx rec))) (TxOut (msgTx rec))) ?w = Inr w'"
    "crediting isCB T ?w w'" "creditSet (wTxns w') (txHash rec) obm = creditSet s' (txHash rec) obm \<union>
      {i. hasOut (msgTx rec) i \<and> ownsOut F (owner (wMgr w)) (TxOut (msgTx rec) ! unat i)}" by auto
  have k: "storeInv isCB T (wTxns w')" "mdom (wTxns w') = mdom s'" "udom (wTxns w') = udom s'"
    "w'\<lparr>wTxns := s', wMgr := wMgr w\<rparr> = ?w" "good (wMgr w')" "owner (wMgr w') = owner (wMgr w)"
    using w'(2) by (simp_all add: crediting_def)
  have "wSync w' = wSync w" "memSyncedTo w' = memSyncedTo w"
    using arg_cong [OF k(4), of wSync] arg_cong [OF k(4), of memSyncedTo] by simp_all
  moreover have "case obm of None \<Rightarrow> txHash rec \<in> udom (wTxns w') | Some bm \<Rightarrow> (txHash rec, block bm) \<in> mdom (wTxns w')"
    using c(3) k(2,3) by (simp add: recordedAt_def split: option.splits)
  ultimately show ?thesis using s'(1,4) w'(1,3) k(1,5,6) by (simp add: addRelevantTx_def)
qed

end

section \<open>Rolling back at start-up\<close>

lemma findFork_stops:
  assumes "0 \<le> c" "c \<le> tip" "tip \<le> 2147483647"
    and "\<forall>h \<in> {c..tip}. syncHashes d h = Some (mine h) \<and> blockAt h = Some (theirs h, timeAt h)"
    and "mine c = theirs c" "\<forall>h \<in> {c<..tip}. mine h \<noteq> theirs h"
  shows "findFork blockAt d tip rolled =
    Some (Inr (\<lparr>bsHeight = c, bsHash = theirs c, bsTime = timeAt c\<rparr>, rolled \<or> c < tip))"
  using assms
proof (induction "nat (tip - c)" arbitrary: tip rolled)
  case 0
  then have "tip = c" by simp
  then show ?case using 0 by (simp add: findFork.simps [of _ _ c] fetchBlockHash_def)
next
  case (Suc n)
  have lt: "c < tip" using Suc.hyps(2) by simp
  have i: "int32 (tip - 1) = tip - 1" using Suc.prems(1,3) lt by simp
  have "findFork blockAt d tip rolled = findFork blockAt d (tip - 1) True"
    using Suc.prems(4,6) lt by (simp add: findFork.simps [of _ _ tip] fetchBlockHash_def i)
  also have "\<dots> = Some (Inr (\<lparr>bsHeight = c, bsHash = theirs c, bsTime = timeAt c\<rparr>, True \<or> c < tip - 1))"
    using Suc.hyps(2) Suc.prems lt by (intro Suc.hyps(1)) auto
  finally show ?case using lt by simp
qed

text \<open>C40.  At start-up, let \<open>c\<close> be the highest block whose stored hash the chain still has, the hashes of the
  blocks from \<open>c\<close> to the synced tip being stored.  If \<open>c\<close> is the tip nothing changes.
  Otherwise the wallet is synced to \<open>c\<close>, exactly the transactions above it are detached from the chain, the store is consistent, and
  a birthday block the chain no longer has is replaced by \<open>c\<close>.  One case fails, and fails at every
  start: the birthday block is known and the hash below \<open>c\<close> is not stored, as when \<open>c\<close> is the first block
  whose hash was kept.\<close>

theorem startup_rollback_correct:
  assumes "universe isCB T rk" "storeInv isCB T (wTxns w)" "tip = bsHeight (memSyncedTo w)"
    and "0 \<le> c" "c \<le> tip" "tip \<le> 2147483647"
    and "\<forall>h \<in> {c..tip}. syncHashes (wSync w) h = Some (mine h) \<and> blockAt h = Some (theirs h, timeAt h)"
    and "mine c = theirs c" "\<forall>h \<in> {c<..tip}. mine h \<noteq> theirs h"
    and "stamp = \<lparr>bsHeight = c, bsHash = theirs c, bsTime = timeAt c\<rparr>"
  shows "if c = tip then syncRollback isCB blockAt birthday w = Some (Inr w)
    else if 0 < c \<and> birthdayBlock (wSync w) \<noteq> None \<and> syncHashes (wSync w) (c - 1) = None
    then syncRollback isCB blockAt birthday w = Some (Inl (ErrBlockNotFound, memSyncedTo w, wMgr w))
    else \<exists>w'. syncRollback isCB blockAt birthday w = Some (Inr w') \<and> memSyncedTo w' = stamp \<and>
      dbSyncedTo (wSync w') = stamp \<and> syncHashes (wSync w') c = Some (theirs c) \<and> storeInv isCB T (wTxns w') \<and>
      mdom (wTxns w') = mdom (wTxns w) - detached (wTxns w) (word_of_int (c + 1)) \<and>
      birthdayBlock (wSync w') = (if c \<le> bsHeight birthday \<and> theirs c \<noteq> bsHash birthday
         then Some stamp else birthdayBlock (wSync w))"
proof -
  have f: "findFork blockAt (wSync w) (bsHeight (memSyncedTo w)) False = Some (Inr (stamp, c < tip))"
    using findFork_stops [OF assms(4-9), of False] by (simp add: assms(3,10))
  consider (same) "c = tip"
    | (fails) "c < tip" "0 < c \<and> birthdayBlock (wSync w) \<noteq> None \<and> syncHashes (wSync w) (c - 1) = None"
    | (undo) "c < tip" "\<not> (0 < c \<and> birthdayBlock (wSync w) \<noteq> None \<and> syncHashes (wSync w) (c - 1) = None)"
    using assms(5) by linarith
  then show ?thesis
  proof cases
    case same
    then show ?thesis using f by (simp add: syncRollback_def)
  next
    case fails
    then have "int32 (c - 1) = c - 1" using assms(6) by simp
    then show ?thesis using f fails
      by (simp add: syncRollback_def SetSyncedTo_def PutSyncedTo_def fetchBlockHash_def failed_def assms(10))
  next
    case undo
    obtain w1 where w1: "SetSyncedTo (Some stamp) w = Inr w1" "memSyncedTo w1 = stamp" "dbSyncedTo (wSync w1) = stamp"
      "syncHashes (wSync w1) c = Some (theirs c)" "wTxns w1 = wTxns w" "birthdayBlock (wSync w1) = birthdayBlock (wSync w)"
      using SetSyncedTo_ok [of stamp w] undo assms(4-6) by (auto simp: assms(10))
    let ?w = "if c \<le> bsHeight birthday \<and> theirs c \<noteq> bsHash birthday
      then w1\<lparr>wSync := SetBirthdayBlock stamp True (wSync w1)\<rparr> else w1"
    obtain s' where s': "Rollback isCB (wTxns w) (word_of_int (c + 1)) = Inr s'" "storeInv isCB T s'"
      "mdom s' = mdom (wTxns w) - detached (wTxns w) (word_of_int (c + 1))"
      using rollback_spec [OF assms(1,2), of "word_of_int (c + 1)"] unfolding Rollback_def by blast
    have "syncRollback isCB blockAt birthday w = Some (Inr (?w\<lparr>wTxns := s'\<rparr>))"
      using f undo(1) w1(1) s'(1) by (auto simp add: w1(5) syncRollback_def Let_def assms(10))
    then show ?thesis using undo w1 s'(2,3) by (auto simp: SetBirthdayBlock_def)
  qed
qed

lemma startup_rollback_correct_witness:
  "\<exists>w'. syncRollback demoCB (\<lambda>h. Some (if h = 2 then 99 else word_of_int h + 100, 0)) \<lparr>bsHeight = 0, bsHash = 100, bsTime = 0\<rparr> demoWallet =
       Some (Inr w') \<and> memSyncedTo w' = \<lparr>bsHeight = 1, bsHash = 101, bsTime = 0\<rparr>"
proof -
  let ?b = "\<lambda>h. Some (if h = 2 then 99 else word_of_int h + 100 :: hash, 0 :: 64 word)"
  have w: "storeInv demoCB demoT (wTxns demoWallet)" "2 = bsHeight (memSyncedTo demoWallet)"
    by (simp_all add: demoWallet_def demo_inv)
  have "{1..2} = {1, 2 :: int}" "{1<..2} = {2 :: int}" by auto
  then have h: "\<forall>h \<in> {1..2}. syncHashes (wSync demoWallet) h = Some (word_of_int h + 100) \<and>
      ?b h = Some (if h = 2 then 99 else word_of_int h + 100, 0)"
    "\<forall>h \<in> {1<..2}. (word_of_int h + 100 :: hash) \<noteq> (if h = 2 then 99 else word_of_int h + 100)"
    by (simp_all add: demoWallet_def)
  have z: "syncHashes (wSync demoWallet) 0 = Some 100" by (simp add: demoWallet_def)
  show ?thesis
    using startup_rollback_correct [OF demo_universe w _ _ _ h(1) _ h(2) refl, of "\<lparr>bsHeight = 0, bsHash = 100, bsTime = 0\<rparr>"]
    by (simp add: z) blast
qed

end
