(* ===== verification/Addr_Manager.thy ===== *)
theory Addr_Manager
  imports Addr_Db
begin

text \<open>
  The scoped key manager (\<^verbatim>\<open>waddrmgr/scoped_manager.go\<close>) and the parts of the root manager it
  rests on (\<^verbatim>\<open>waddrmgr/manager.go\<close>): accounts, the derivation and look-up of addresses, imports, and
  locking.  Extended keys, of type \<open>'k\<close>, and addresses, of type \<open>'a\<close>, are abstract; what the code
  asks of the cryptographic packages is the record \<open>keyFns\<close>.

  An operation is a state transformer that also returns a value or an error.  The database is
  part of the state; \<open>dbUpdate\<close> is a transaction around an operation: it undoes the database
  when the operation fails, and runs the \<open>OnCommit\<close> closures when it succeeds, while what
  the operation did to memory stays either way.
\<close>

section \<open>Keys and addresses\<close>

record ('k, 'a) keyFns =
  deriveNonStandard :: "'k \<Rightarrow> uint32 \<Rightarrow> 'k deriveResult"
  keyNeuter :: "'k \<Rightarrow> 'k option"
  keyIsPrivate :: "'k \<Rightarrow> bool"
  keyChildIndex :: "'k \<Rightarrow> uint32"
  keyAddress :: "'k \<Rightarrow> byte \<Rightarrow> 'a option"        \<comment> \<open>the address of a key for an address type\<close>
  scriptAddr :: "'a \<Rightarrow> bytes"                     \<comment> \<open>\<open>ScriptAddress()\<close>\<close>
  addrString :: "'a \<Rightarrow> string"
  toPubKeyHash :: "'a \<Rightarrow> 'a"                      \<comment> \<open>a public key address as its hash, others as they are\<close>
  sha256 :: "bytes \<Rightarrow> hash"
  encPub :: "'k \<Rightarrow> bytes option"                  \<comment> \<open>serialise and encrypt with the public crypto key\<close>
  decPub :: "bytes \<Rightarrow> 'k option"
  encPriv :: "'k \<Rightarrow> bytes option"
  decPriv :: "bytes \<Rightarrow> 'k option"
  sealPub :: "bytes \<Rightarrow> bytes option"              \<comment> \<open>encrypt bytes with the public crypto key\<close>
  sealPriv :: "bytes \<Rightarrow> bytes option"
  sealScript :: "bytes \<Rightarrow> bytes option"
  importedAddress :: "bytes \<Rightarrow> byte \<Rightarrow> 'a option" \<comment> \<open>of an encrypted public key\<close>
  pubKeyID :: "bytes \<Rightarrow> byte \<Rightarrow> bytes option"     \<comment> \<open>address id of a serialised public key\<close>
  pubKeyAddress :: "bytes \<Rightarrow> byte \<Rightarrow> 'a option"   \<comment> \<open>of a serialised public key\<close>
  scriptHashAddress :: "bytes \<Rightarrow> 'a option"       \<comment> \<open>of an encrypted script hash\<close>
  witnessAddress :: "byte \<Rightarrow> bytes \<Rightarrow> 'a option"
  plainScriptAddress :: "bytes \<Rightarrow> 'a option"      \<comment> \<open>of a script hash\<close>
  plainWitnessAddress :: "byte \<Rightarrow> bytes \<Rightarrow> 'a option"

record DerivationPath =
  InternalAccount :: uint32
  pathAccount :: uint32
  pathBranch :: uint32
  pathIndex :: uint32
  pathFingerprint :: uint32

datatype 'a ManagedAddress =
    PubKeyAddress (maAddress: 'a) (maPath: DerivationPath) (maImported: bool) (maInternal: bool) (maType: byte)
  | ScriptAddress (maAddress: 'a) (maAccount: uint32)

type_synonym 'a unlockDeriveInfo = "'a ManagedAddress \<times> uint32 \<times> uint32"

text \<open>\<open>aiGen\<close> tells the account objects apart that were loaded at different times: a closure holds on to
  the object it was made with.\<close>

record ('k, 'a) accountInfo =
  acctName :: bytes
  acctWatchOnly :: bool
  acctKeyEncrypted :: bytes
  acctKeyPriv :: "'k option"
  acctKeyPub :: 'k
  aiNextExternal :: uint32
  lastExternalAddr :: "'a ManagedAddress option"
  aiNextInternal :: uint32
  lastInternalAddr :: "'a ManagedAddress option"
  aiSchema :: "ScopeAddrSchema option"
  aiFingerprint :: uint32
  aiGen :: nat

text \<open>What the \<open>onCommit\<close> closure of \<open>nextAddresses\<close> captures.\<close>

record 'a commitNext =
  cnAccount :: uint32
  cnGen :: nat
  cnInternal :: bool
  cnInfos :: "'a unlockDeriveInfo list"
  cnNext :: uint32
  cnWatchOnly :: bool

text \<open>\<open>mLocked\<close> and \<open>mWatchOnly\<close> are the flags of the root manager.\<close>

record ('k, 'a) scopedManager =
  mSchema :: ScopeAddrSchema
  mLocked :: bool
  mWatchOnly :: bool
  mDb :: scopeNs
  mAddrs :: "bytes \<rightharpoonup> 'a ManagedAddress"
  mAcctInfo :: "uint32 \<rightharpoonup> ('k, 'a) accountInfo"
  mDeriveOnUnlock :: "'a unlockDeriveInfo list"
  mPending :: "'a commitNext list"
  mGen :: nat
  mStartBlock :: BlockStamp
  mDbStartBlock :: BlockStamp

type_synonym ('k, 'a, 'x) op = "('k, 'a) scopedManager \<Rightarrow> (mgr_error + 'x) \<times> ('k, 'a) scopedManager"

definition ret :: "'x \<Rightarrow> ('k, 'a, 'x) op" where "ret x m = (Inr x, m)"

definition raise :: "mgr_error \<Rightarrow> ('k, 'a, 'x) op" where "raise e m = (Inl e, m)"

definition bnd :: "('k, 'a, 'x) op \<Rightarrow> ('x \<Rightarrow> ('k, 'a, 'y) op) \<Rightarrow> ('k, 'a, 'y) op" where
  "bnd f g m = (case f m of (Inl e, m) \<Rightarrow> (Inl e, m) | (Inr x, m) \<Rightarrow> g x m)"

definition look :: "(('k, 'a) scopedManager \<Rightarrow> ('k, 'a, 'y) op) \<Rightarrow> ('k, 'a, 'y) op" where
  "look g m = g m m"

definition change :: "(('k, 'a) scopedManager \<Rightarrow> ('k, 'a) scopedManager) \<Rightarrow> ('k, 'a, unit) op" where
  "change f m = (Inr (), f m)"

definition onDb :: "(scopeNs \<Rightarrow> scopeNs) \<Rightarrow> ('k, 'a, unit) op" where
  "onDb f = change (\<lambda>m. m\<lparr>mDb := f (mDb m)\<rparr>)"

definition lift_sum :: "mgr_error + 'x \<Rightarrow> ('k, 'a, 'x) op" where "lift_sum r m = (r, m)"

definition orFail :: "'x option \<Rightarrow> mgr_error \<Rightarrow> ('k, 'a, 'x) op" where
  "orFail o1 e = (case o1 of None \<Rightarrow> raise e | Some x \<Rightarrow> ret x)"

fun forOps :: "('x \<Rightarrow> ('k, 'a, unit) op) \<Rightarrow> 'x list \<Rightarrow> ('k, 'a, unit) op" where
  "forOps f [] = ret ()"
| "forOps f (x # xs) = bnd (f x) (\<lambda>_. forOps f xs)"

section \<open>Constants and names\<close>

definition MaxAccountNum :: uint32 where "MaxAccountNum = 2147483646"
definition MaxAddressesPerAccount :: uint32 where "MaxAddressesPerAccount = 2147483647"
definition ImportedAddrAccount :: uint32 where "ImportedAddrAccount = 2147483647"

definition ValidateAccountName :: "bytes \<Rightarrow> mgr_error + unit" where
  "ValidateAccountName name =
     (if name = [] then Inl ErrInvalidAccount
      else if name = importedName then Inl ErrInvalidAccount
      else Inr ())"

section \<open>Deriving keys and managed addresses\<close>

definition deriveKey :: "('k, 'a) keyFns \<Rightarrow> ('k, 'a) accountInfo \<Rightarrow> uint32 \<Rightarrow> uint32 \<Rightarrow> bool \<Rightarrow> mgr_error + 'k" where
  "deriveKey K ai branch index private =
     (case (if private then acctKeyPriv ai else Some (acctKeyPub ai)) of
        None \<Rightarrow> Inl MgrPanic
      | Some acctKey \<Rightarrow>
          (case deriveNonStandard K acctKey branch of
             Derived branchKey \<Rightarrow>
               (case deriveNonStandard K branchKey index of
                  Derived addressKey \<Rightarrow> Inr addressKey
                | _ \<Rightarrow> Inl ErrKeyChain)
           | _ \<Rightarrow> Inl ErrKeyChain))"

definition accountAddrType :: "('k, 'a) scopedManager \<Rightarrow> ('k, 'a) accountInfo \<Rightarrow> bool \<Rightarrow> byte" where
  "accountAddrType m ai internal =
     (let schema = (case aiSchema ai of None \<Rightarrow> mSchema m | Some s \<Rightarrow> s)
      in if internal then InternalAddrType schema else ExternalAddrType schema)"

definition newManagedAddressFromExtKey ::
  "('k, 'a) keyFns \<Rightarrow> DerivationPath \<Rightarrow> 'k \<Rightarrow> byte \<Rightarrow> bool \<Rightarrow> mgr_error + 'a ManagedAddress" where
  "newManagedAddressFromExtKey K path key addrType internal =
     (case keyAddress K key addrType of
        None \<Rightarrow> Inl ErrCrypto
      | Some a \<Rightarrow> Inr (PubKeyAddress a path False internal addrType))"

definition keyToManaged ::
  "('k, 'a) keyFns \<Rightarrow> 'k \<Rightarrow> DerivationPath \<Rightarrow> ('k, 'a) accountInfo \<Rightarrow> ('k, 'a, 'a ManagedAddress) op" where
  "keyToManaged K key path ai =
     (let internal = (pathBranch path = InternalBranchNum) in
      look (\<lambda>m.
      bnd (lift_sum (newManagedAddressFromExtKey K path key (accountAddrType m ai internal) internal)) (\<lambda>ma.
      bnd (if keyIsPrivate K key then ret ()
           else change (\<lambda>m. m\<lparr>mDeriveOnUnlock := mDeriveOnUnlock m @ [(ma, pathBranch path, pathIndex path)]\<rparr>)) (\<lambda>_.
      ret ma))))"

definition lastAddress ::
  "('k, 'a) keyFns \<Rightarrow> ('k, 'a) accountInfo \<Rightarrow> uint32 \<Rightarrow> uint32 \<Rightarrow> uint32 \<Rightarrow> bool \<Rightarrow> ('k, 'a, 'a ManagedAddress) op" where
  "lastAddress K ai account branch nextIndex hasPrivateKey =
     (let index = (if nextIndex > 0 then nextIndex - 1 else nextIndex) in
      bnd (lift_sum (deriveKey K ai branch index hasPrivateKey)) (\<lambda>key.
        keyToManaged K key
          \<lparr>InternalAccount = account, pathAccount = keyChildIndex K (acctKeyPub ai), pathBranch = branch,
           pathIndex = index, pathFingerprint = aiFingerprint ai\<rparr> ai))"

text \<open>The account info of a row, before its last addresses are known.\<close>

definition rowAccount ::
  "('k, 'a) keyFns \<Rightarrow> acctRow \<Rightarrow> bool \<Rightarrow> nat \<Rightarrow> mgr_error + ('k, 'a) accountInfo" where
  "rowAccount K row hasPrivateKey gen =
     (case row of
        DefaultRow pub priv ext inn name \<Rightarrow>
          (case decPub K pub of
             None \<Rightarrow> Inl ErrCrypto
           | Some kpub \<Rightarrow>
               (case (if hasPrivateKey then map_option Some (decPriv K priv) else Some None) of
                  None \<Rightarrow> Inl ErrCrypto
                | Some kpriv \<Rightarrow>
                    Inr \<lparr>acctName = name, acctWatchOnly = False, acctKeyEncrypted = priv, acctKeyPriv = kpriv,
                      acctKeyPub = kpub, aiNextExternal = ext, lastExternalAddr = None, aiNextInternal = inn,
                      lastInternalAddr = None, aiSchema = None, aiFingerprint = 0, aiGen = gen\<rparr>))
      | WatchOnlyRow pub fp ext inn name schema \<Rightarrow>
          (case decPub K pub of
             None \<Rightarrow> Inl ErrCrypto
           | Some kpub \<Rightarrow>
               Inr \<lparr>acctName = name, acctWatchOnly = True, acctKeyEncrypted = [], acctKeyPriv = None,
                 acctKeyPub = kpub, aiNextExternal = ext, lastExternalAddr = None, aiNextInternal = inn,
                 lastInternalAddr = None, aiSchema = schema, aiFingerprint = fp, aiGen = gen\<rparr>))"

definition hasPriv :: "('k, 'a) scopedManager \<Rightarrow> bool" where
  "hasPriv m \<longleftrightarrow> \<not> mLocked m \<and> \<not> mWatchOnly m"

definition loadAccountInfo :: "('k, 'a) keyFns \<Rightarrow> uint32 \<Rightarrow> ('k, 'a, ('k, 'a) accountInfo) op" where
  "loadAccountInfo K account = look (\<lambda>m.
     case mAcctInfo m account of
       Some ai \<Rightarrow> ret ai
     | None \<Rightarrow>
         bnd (lift_sum (fetchAccountInfo (mDb m) account)) (\<lambda>row.
         bnd (lift_sum (rowAccount K row (hasPriv m) (mGen m))) (\<lambda>ai.
         let hasPrivateKey = (hasPriv m \<and> \<not> acctWatchOnly ai) in
         bnd (lastAddress K ai account ExternalBranchNum (aiNextExternal ai) hasPrivateKey) (\<lambda>ext.
         bnd (lastAddress K ai account InternalBranchNum (aiNextInternal ai) hasPrivateKey) (\<lambda>inn.
         let ai = ai\<lparr>lastExternalAddr := Some ext, lastInternalAddr := Some inn\<rparr> in
         bnd (change (\<lambda>m. m\<lparr>mAcctInfo := (mAcctInfo m)(account \<mapsto> ai), mGen := mGen m + 1\<rparr>)) (\<lambda>_.
         ret ai))))))"

definition deriveKeyFromPath ::
  "('k, 'a) keyFns \<Rightarrow> uint32 \<Rightarrow> uint32 \<Rightarrow> uint32 \<Rightarrow> bool \<Rightarrow> ('k, 'a, 'k \<times> 'k \<times> uint32) op" where
  "deriveKeyFromPath K account branch index private =
     bnd (loadAccountInfo K account) (\<lambda>ai.
     let private = (private \<and> acctKeyPriv ai \<noteq> None) in
     bnd (lift_sum (deriveKey K ai branch index private)) (\<lambda>key.
     ret (key, if private then the (acctKeyPriv ai) else acctKeyPub ai, aiFingerprint ai)))"

definition DeriveFromKeyPath :: "('k, 'a) keyFns \<Rightarrow> DerivationPath \<Rightarrow> ('k, 'a, 'a ManagedAddress) op" where
  "DeriveFromKeyPath K kp = look (\<lambda>m.
     bnd (deriveKeyFromPath K (InternalAccount kp) (pathBranch kp) (pathIndex kp) (hasPriv m)) (\<lambda>(key, _).
     bnd (loadAccountInfo K (InternalAccount kp)) (\<lambda>ai.
     keyToManaged K key kp ai)))"

record 'k AccountProperties =
  apName :: bytes
  ExternalKeyCount :: uint32
  InternalKeyCount :: uint32
  ImportedKeyCount :: uint32
  AccountPubKey :: "'k option"
  apFingerprint :: uint32
  IsWatchOnly :: bool
  apSchema :: "ScopeAddrSchema option"

text \<open>\<open>cloneKey\<close> exports the public key with the version of a default scope; it is \<open>None\<close> for other
  scopes.\<close>

definition AccountProperties ::
  "('k, 'a) keyFns \<Rightarrow> ('k \<Rightarrow> 'k option) option \<Rightarrow> uint32 \<Rightarrow> ('k, 'a, 'k AccountProperties) op" where
  "AccountProperties K cloneKey account = look (\<lambda>m.
     if account \<noteq> ImportedAddrAccount then
       bnd (loadAccountInfo K account) (\<lambda>ai.
       bnd (case cloneKey of
              Some clone \<Rightarrow> if acctWatchOnly ai then ret (acctKeyPub ai) else orFail (clone (acctKeyPub ai)) ErrKeyChain
            | None \<Rightarrow> ret (acctKeyPub ai)) (\<lambda>pub.
       ret \<lparr>apName = acctName ai, ExternalKeyCount = aiNextExternal ai, InternalKeyCount = aiNextInternal ai,
         ImportedKeyCount = 0, AccountPubKey = Some pub, apFingerprint = aiFingerprint ai,
         IsWatchOnly = (mWatchOnly m \<or> acctKeyPriv ai = None), apSchema = aiSchema ai\<rparr>))
     else
       bnd (lift_sum (forEachAccountAddress (mDb m) ImportedAddrAccount)) (\<lambda>rows.
       ret \<lparr>apName = importedName, ExternalKeyCount = 0, InternalKeyCount = 0,
         ImportedKeyCount = of_nat (length rows), AccountPubKey = None, apFingerprint = 0,
         IsWatchOnly = mWatchOnly m, apSchema = None\<rparr>))"

section \<open>Looking addresses up\<close>

definition chainAddressRowToManaged ::
  "('k, 'a) keyFns \<Rightarrow> uint32 \<Rightarrow> uint32 \<Rightarrow> uint32 \<Rightarrow> ('k, 'a, 'a ManagedAddress) op" where
  "chainAddressRowToManaged K account branch index = look (\<lambda>m.
     bnd (deriveKeyFromPath K account branch index (hasPriv m)) (\<lambda>(key, acctKey, fp).
     bnd (loadAccountInfo K account) (\<lambda>ai.
     keyToManaged K key
       \<lparr>InternalAccount = account, pathAccount = keyChildIndex K acctKey, pathBranch = branch, pathIndex = index,
        pathFingerprint = fp\<rparr> ai)))"

definition ImportedDerivationPath :: DerivationPath where
  "ImportedDerivationPath =
     \<lparr>InternalAccount = ImportedAddrAccount, pathAccount = ImportedAddrAccount, pathBranch = 0, pathIndex = 0,
      pathFingerprint = 0\<rparr>"

definition rowInterfaceToManaged :: "('k, 'a) keyFns \<Rightarrow> addrRow \<Rightarrow> ('k, 'a, 'a ManagedAddress) op" where
  "rowInterfaceToManaged K row =
     (case adData row of
        ChainAddr branch index \<Rightarrow> chainAddressRowToManaged K (adAccount row) branch index
      | ImportedAddr pub priv \<Rightarrow>
          look (\<lambda>m. let t = ExternalAddrType (mSchema m) in
          bnd (orFail (importedAddress K pub t) ErrCrypto) (\<lambda>a.
          ret (PubKeyAddress a ImportedDerivationPath True False t)))
      | ScriptAddr h s \<Rightarrow>
          bnd (orFail (scriptHashAddress K h) ErrCrypto) (\<lambda>a. ret (ScriptAddress a (adAccount row)))
      | WitnessScriptAddr ver secret h s \<Rightarrow>
          bnd (orFail (witnessAddress K ver h) ErrCrypto) (\<lambda>a. ret (ScriptAddress a (adAccount row))))"

definition addrHash :: "('k, 'a) keyFns \<Rightarrow> 'a \<Rightarrow> hash" where
  "addrHash K a = sha256 K (scriptAddr K a)"

definition loadAndCacheAddress :: "('k, 'a) keyFns \<Rightarrow> 'a \<Rightarrow> ('k, 'a, 'a ManagedAddress) op" where
  "loadAndCacheAddress K a = look (\<lambda>m.
     bnd (lift_sum (fetchAddressByHash (mDb m) (addrHash K a))) (\<lambda>row.
     bnd (rowInterfaceToManaged K row) (\<lambda>ma.
     bnd (change (\<lambda>m. m\<lparr>mAddrs := (mAddrs m)(scriptAddr K (maAddress ma) \<mapsto> ma)\<rparr>)) (\<lambda>_.
     ret ma))))"

definition existsAddress :: "('k, 'a) keyFns \<Rightarrow> ('k, 'a) scopedManager \<Rightarrow> bytes \<Rightarrow> bool" where
  "existsAddress K m addressID \<longleftrightarrow>
     mAddrs m addressID \<noteq> None \<or> existsAddressRow (mDb m) (sha256 K addressID)"

definition Address :: "('k, 'a) keyFns \<Rightarrow> 'a \<Rightarrow> ('k, 'a, 'a ManagedAddress) op" where
  "Address K a =
     (let a = toPubKeyHash K a in
      look (\<lambda>m. case mAddrs m (scriptAddr K a) of Some ma \<Rightarrow> ret ma | None \<Rightarrow> loadAndCacheAddress K a))"

definition AddrAccount :: "('k, 'a) keyFns \<Rightarrow> 'a \<Rightarrow> ('k, 'a, uint32) op" where
  "AddrAccount K a = look (\<lambda>m. lift_sum (fetchAddrAccount (mDb m) (addrHash K a)))"

definition MarkUsed :: "('k, 'a) keyFns \<Rightarrow> 'a \<Rightarrow> ('k, 'a, unit) op" where
  "MarkUsed K a =
     bnd (onDb (markAddressUsed (addrHash K a))) (\<lambda>_.
     change (\<lambda>m. m\<lparr>mAddrs := (mAddrs m)(scriptAddr K a := None)\<rparr>))"

definition fetchUsed :: "('k, 'a) keyFns \<Rightarrow> ('k, 'a) scopedManager \<Rightarrow> 'a \<Rightarrow> bool" where
  "fetchUsed K m a = fetchAddressUsed (mDb m) (addrHash K a)"

definition InvalidateAccountCache :: "uint32 \<Rightarrow> ('k, 'a, unit) op" where
  "InvalidateAccountCache account = change (\<lambda>m. m\<lparr>mAcctInfo := (mAcctInfo m)(account := None)\<rparr>)"

section \<open>New addresses\<close>

text \<open>The inner loop: the next valid child, and the index after it.  \<open>None\<close>: it does not end.\<close>

partial_function (option) nextValid ::
  "(uint32 \<Rightarrow> 'k deriveResult) \<Rightarrow> uint32 \<Rightarrow> (mgr_error + 'k \<times> uint32) option" where
  "nextValid derive i =
     (case derive i of
        Derived k \<Rightarrow> Some (Inr (k, i + 1))
      | InvalidChild \<Rightarrow> nextValid derive (i + 1)
      | DeriveError \<Rightarrow> Some (Inl ErrKeyChain))"

definition nextChild :: "(uint32 \<Rightarrow> 'k deriveResult) \<Rightarrow> uint32 \<Rightarrow> mgr_error + 'k \<times> uint32" where
  "nextChild derive i = (case nextValid derive i of None \<Rightarrow> Inl MgrHang | Some r \<Rightarrow> r)"

text \<open>\<open>n\<close> new addresses of a branch from the index \<open>i\<close> on, and the index after them.  \<open>mk\<close> makes the
  managed address of a child.\<close>

fun makeAddresses ::
  "(uint32 \<Rightarrow> 'k deriveResult) \<Rightarrow> ('k \<Rightarrow> uint32 \<Rightarrow> mgr_error + 'a ManagedAddress) \<Rightarrow> uint32 \<Rightarrow> nat \<Rightarrow> uint32 \<Rightarrow>
   mgr_error + 'a unlockDeriveInfo list \<times> uint32" where
  "makeAddresses derive mk branch 0 i = Inr ([], i)"
| "makeAddresses derive mk branch (Suc n) i =
     (case nextChild derive i of
        Inl e \<Rightarrow> Inl e
      | Inr (k, i) \<Rightarrow>
          (case mk k (i - 1) of
             Inl e \<Rightarrow> Inl e
           | Inr ma \<Rightarrow>
               (case makeAddresses derive mk branch n i of
                  Inl e \<Rightarrow> Inl e
                | Inr (infos, i') \<Rightarrow> Inr ((ma, branch, i - 1) # infos, i'))))"

text \<open>Writing an address to the database; \<open>now\<close> is the time of day.\<close>

definition storeAddress ::
  "('k, 'a) keyFns \<Rightarrow> 64 word \<Rightarrow> uint32 \<Rightarrow> 'a unlockDeriveInfo \<Rightarrow> ('k, 'a, unit) op" where
  "storeAddress K now account info =
     (case info of (ma, branch, index) \<Rightarrow>
        look (\<lambda>m. case putChainedAddress (addrHash K (maAddress ma)) account now 2 branch index (mDb m) of
                    Inl e \<Rightarrow> raise e
                  | Inr d \<Rightarrow> change (\<lambda>m. m\<lparr>mDb := d\<rparr>)))"

text \<open>\<open>nextAddresses\<close> reads every address back and compares.\<close>

definition storeAndCheck ::
  "('k, 'a) keyFns \<Rightarrow> 64 word \<Rightarrow> uint32 \<Rightarrow> 'a unlockDeriveInfo \<Rightarrow> ('k, 'a, unit) op" where
  "storeAndCheck K now account info =
     bnd (storeAddress K now account info) (\<lambda>_.
     bnd (loadAndCacheAddress K (maAddress (fst info))) (\<lambda>disk.
     if addrString K (maAddress (fst info)) \<noteq> addrString K (maAddress disk) then
       bnd (change (\<lambda>m. m\<lparr>mAddrs := (mAddrs m)(scriptAddr K (maAddress disk) := None)\<rparr>)) (\<lambda>_. raise ErrAddrMismatch)
     else ret ()))"

definition nextAddresses ::
  "('k, 'a) keyFns \<Rightarrow> 64 word \<Rightarrow> uint32 \<Rightarrow> uint32 \<Rightarrow> bool \<Rightarrow> ('k, 'a, 'a ManagedAddress list) op" where
  "nextAddresses K now account numAddresses internal =
     bnd (loadAccountInfo K account) (\<lambda>ai. look (\<lambda>m.
     let watchOnly = (mWatchOnly m \<or> acctKeyEncrypted ai = []);
         branchNum = (if internal then InternalBranchNum else ExternalBranchNum);
         nextIndex = (if internal then aiNextInternal ai else aiNextExternal ai);
         addrType = accountAddrType m ai internal
     in
     if numAddresses > MaxAddressesPerAccount \<or> nextIndex + numAddresses > MaxAddressesPerAccount
     then raise ErrTooManyAddresses
     else
       bnd (orFail (if \<not> mLocked m \<and> \<not> watchOnly then acctKeyPriv ai else Some (acctKeyPub ai)) MgrPanic) (\<lambda>acctKey.
       case deriveNonStandard K acctKey branchNum of
         Derived branchKey \<Rightarrow>
           bnd (lift_sum (makeAddresses (deriveNonStandard K branchKey)
             (\<lambda>k index. newManagedAddressFromExtKey K
               \<lparr>InternalAccount = account, pathAccount = keyChildIndex K acctKey, pathBranch = branchNum,
                pathIndex = index, pathFingerprint = aiFingerprint ai\<rparr> k addrType internal)
             branchNum (unat numAddresses) nextIndex)) (\<lambda>(infos, next).
           bnd (forOps (storeAndCheck K now account) infos) (\<lambda>_.
           bnd (change (\<lambda>m. m\<lparr>mPending := mPending m @
             [\<lparr>cnAccount = account, cnGen = aiGen ai, cnInternal = internal, cnInfos = infos, cnNext = next,
               cnWatchOnly = watchOnly\<rparr>]\<rparr>)) (\<lambda>_.
           ret (map fst infos))))
       | _ \<Rightarrow> raise ErrKeyChain)))"

definition setNext :: "bool \<Rightarrow> uint32 \<Rightarrow> 'a ManagedAddress \<Rightarrow> ('k, 'a) accountInfo \<Rightarrow> ('k, 'a) accountInfo" where
  "setNext internal next ma ai =
     (if internal then ai\<lparr>aiNextInternal := next, lastInternalAddr := Some ma\<rparr>
      else ai\<lparr>aiNextExternal := next, lastExternalAddr := Some ma\<rparr>)"

text \<open>The new addresses enter the cache, and the list of keys to derive on unlock.\<close>

definition cacheInfo :: "('k, 'a) keyFns \<Rightarrow> bool \<Rightarrow> 'a unlockDeriveInfo \<Rightarrow> ('k, 'a) scopedManager \<Rightarrow> ('k, 'a) scopedManager" where
  "cacheInfo K watchOnly info m =
     m\<lparr>mAddrs := (mAddrs m)(scriptAddr K (maAddress (fst info)) \<mapsto> fst info),
       mDeriveOnUnlock := (if mLocked m \<and> \<not> watchOnly then mDeriveOnUnlock m @ [info] else mDeriveOnUnlock m)\<rparr>"

definition onCommit :: "('k, 'a) keyFns \<Rightarrow> 'a commitNext \<Rightarrow> ('k, 'a, unit) op" where
  "onCommit K c =
     bnd (change (fold (cacheInfo K (cnWatchOnly c)) (cnInfos c))) (\<lambda>_.
     if cnInfos c = [] then raise MgrPanic
     else change (\<lambda>m. case mAcctInfo m (cnAccount c) of
            Some ai \<Rightarrow>
              if aiGen ai = cnGen c
              then m\<lparr>mAcctInfo := (mAcctInfo m)(cnAccount c \<mapsto> setNext (cnInternal c) (cnNext c) (fst (last (cnInfos c))) ai)\<rparr>
              else m
          | None \<Rightarrow> m))"

definition dbUpdate :: "('k, 'a) keyFns \<Rightarrow> ('k, 'a, 'x) op \<Rightarrow> ('k, 'a, 'x) op" where
  "dbUpdate K f m =
     (case f (m\<lparr>mPending := []\<rparr>) of
        (Inl e, m') \<Rightarrow> (Inl e, m'\<lparr>mDb := mDb m, mDbStartBlock := mDbStartBlock m, mPending := []\<rparr>)
      | (Inr x, m') \<Rightarrow>
          bnd (forOps (onCommit K) (mPending m')) (\<lambda>_. ret x) (m'\<lparr>mPending := []\<rparr>))"

section \<open>Extending a branch\<close>

partial_function (option) extendFrom ::
  "(uint32 \<Rightarrow> 'k deriveResult) \<Rightarrow> ('k \<Rightarrow> uint32 \<Rightarrow> mgr_error + 'a ManagedAddress) \<Rightarrow> uint32 \<Rightarrow> uint32 \<Rightarrow> uint32 \<Rightarrow>
   (mgr_error + 'a unlockDeriveInfo list \<times> uint32) option" where
  "extendFrom derive mk branch lastIndex i =
     (if i \<le> lastIndex then
        Option.bind (nextValid derive i) (\<lambda>r. case r of
          Inl e \<Rightarrow> Some (Inl e)
        | Inr (k, i) \<Rightarrow>
            (case mk k (i - 1) of
               Inl e \<Rightarrow> Some (Inl e)
             | Inr ma \<Rightarrow>
                 Option.bind (extendFrom derive mk branch lastIndex i)
                   (\<lambda>r. Some (map_sum id (\<lambda>(infos, i'). ((ma, branch, i - 1) # infos, i')) r))))
      else Some (Inr ([], i)))"

definition extendAddresses ::
  "('k, 'a) keyFns \<Rightarrow> 64 word \<Rightarrow> uint32 \<Rightarrow> uint32 \<Rightarrow> bool \<Rightarrow> ('k, 'a, unit) op" where
  "extendAddresses K now account lastIndex internal =
     bnd (loadAccountInfo K account) (\<lambda>ai. look (\<lambda>m.
     let watchOnly = (mWatchOnly m \<or> acctKeyPriv ai \<noteq> None);
         branchNum = (if internal then InternalBranchNum else ExternalBranchNum);
         nextIndex = (if internal then aiNextInternal ai else aiNextExternal ai);
         addrType = accountAddrType m ai internal
     in
     if lastIndex < nextIndex then ret ()
     else if lastIndex > MaxAddressesPerAccount then raise ErrTooManyAddresses
     else
       bnd (orFail (if \<not> mLocked m \<and> \<not> watchOnly then acctKeyPriv ai else Some (acctKeyPub ai)) MgrPanic) (\<lambda>acctKey.
       case deriveNonStandard K acctKey branchNum of
         Derived branchKey \<Rightarrow>
           bnd (lift_sum (case extendFrom (deriveNonStandard K branchKey)
             (\<lambda>k index. newManagedAddressFromExtKey K
               \<lparr>InternalAccount = account, pathAccount = keyChildIndex K (acctKeyPub ai), pathBranch = branchNum,
                pathIndex = index, pathFingerprint = 0\<rparr> k addrType internal)
             branchNum lastIndex nextIndex of None \<Rightarrow> Inl MgrHang | Some r \<Rightarrow> r)) (\<lambda>(infos, next).
           bnd (forOps (storeAddress K now account) infos) (\<lambda>_.
           bnd (change (fold (cacheInfo K watchOnly) infos)) (\<lambda>_.
           change (\<lambda>m. m\<lparr>mAcctInfo := (mAcctInfo m)(account \<mapsto> setNext internal next (fst (last infos)) ai)\<rparr>))))
       | _ \<Rightarrow> raise ErrKeyChain)))"

definition capAccount :: "uint32 \<Rightarrow> ('k, 'a, 'x) op \<Rightarrow> ('k, 'a, 'x) op" where
  "capAccount account f = (if account > MaxAccountNum then raise ErrAccountNumTooHigh else f)"

definition NextExternalAddresses where
  "NextExternalAddresses K now account n = capAccount account (nextAddresses K now account n False)"

definition NextInternalAddresses where
  "NextInternalAddresses K now account n = capAccount account (nextAddresses K now account n True)"

definition ExtendExternalAddresses where
  "ExtendExternalAddresses K now account lastIndex = capAccount account (extendAddresses K now account lastIndex False)"

definition ExtendInternalAddresses where
  "ExtendInternalAddresses K now account lastIndex = capAccount account (extendAddresses K now account lastIndex True)"

definition LastExternalAddress :: "('k, 'a) keyFns \<Rightarrow> uint32 \<Rightarrow> ('k, 'a, 'a ManagedAddress option) op" where
  "LastExternalAddress K account = capAccount account
     (bnd (loadAccountInfo K account) (\<lambda>ai.
      if aiNextExternal ai > 0 then ret (lastExternalAddr ai) else raise ErrAddressNotFound))"

definition LastInternalAddress :: "('k, 'a) keyFns \<Rightarrow> uint32 \<Rightarrow> ('k, 'a, 'a ManagedAddress option) op" where
  "LastInternalAddress K account = capAccount account
     (bnd (loadAccountInfo K account) (\<lambda>ai.
      if aiNextInternal ai > 0 then ret (lastInternalAddr ai) else raise ErrAddressNotFound))"

section \<open>New accounts\<close>

definition deriveAccountKey :: "('k, 'a) keyFns \<Rightarrow> 'k \<Rightarrow> uint32 \<Rightarrow> mgr_error + 'k" where
  "deriveAccountKey K coinTypeKey account =
     (if account > MaxAccountNum then Inl ErrAccountNumTooHigh
      else case deriveNonStandard K coinTypeKey (account + 0x80000000) of
             Derived k \<Rightarrow> Inr k
           | _ \<Rightarrow> Inl ErrKeyChain)"

definition checkName :: "bytes \<Rightarrow> ('k, 'a, unit) op" where
  "checkName name =
     bnd (lift_sum (ValidateAccountName name)) (\<lambda>_.
     look (\<lambda>m. case fetchAccountByName (mDb m) name of Inr a \<Rightarrow> raise ErrDuplicateAccount | Inl e \<Rightarrow> ret ()))"

definition newAccount :: "('k, 'a) keyFns \<Rightarrow> uint32 \<Rightarrow> bytes \<Rightarrow> ('k, 'a, unit) op" where
  "newAccount K account name =
     bnd (checkName name) (\<lambda>_. look (\<lambda>m.
     bnd (orFail (coinTypeKeys (mDb m)) ErrMgrDatabase) (\<lambda>(cpub, cpriv).
     bnd (orFail (decPriv K cpriv) ErrMgrLocked) (\<lambda>coinTypeKey.
     case deriveAccountKey K coinTypeKey account of
       Inl e \<Rightarrow> raise ErrKeyChain
     | Inr acctKey \<Rightarrow>
         bnd (orFail (keyNeuter K acctKey) ErrKeyChain) (\<lambda>pubKey.
         bnd (orFail (encPub K pubKey) ErrCrypto) (\<lambda>pubEnc.
         bnd (orFail (encPriv K acctKey) ErrCrypto) (\<lambda>privEnc.
         bnd (onDb (putDefaultAccountInfo account pubEnc privEnc 0 0 name)) (\<lambda>_.
         onDb (putLastAccount account)))))))))"

definition newAccountWatchingOnly ::
  "('k, 'a) keyFns \<Rightarrow> uint32 \<Rightarrow> bytes \<Rightarrow> 'k \<Rightarrow> uint32 \<Rightarrow> ScopeAddrSchema option \<Rightarrow> ('k, 'a, unit) op" where
  "newAccountWatchingOnly K account name pubKey fp schema =
     bnd (checkName name) (\<lambda>_.
     bnd (orFail (encPub K pubKey) ErrCrypto) (\<lambda>pubEnc.
     bnd (onDb (putWatchOnlyAccountInfo account pubEnc fp 0 0 name schema)) (\<lambda>_.
     onDb (putLastAccount account))))"

definition whenUnlocked :: "('k, 'a, 'x) op \<Rightarrow> ('k, 'a, 'x) op" where
  "whenUnlocked f = look (\<lambda>m. if mWatchOnly m then raise ErrWatchingOnly else if mLocked m then raise ErrMgrLocked else f)"

fun decimal :: "nat \<Rightarrow> bytes" where
  "decimal n = (if n < 10 then [of_nat (48 + n)] else decimal (n div 10) @ [of_nat (48 + n mod 10)])"

definition rawName :: "uint32 \<Rightarrow> bytes" where
  "rawName number = [0x61, 0x63, 0x74, 0x3A] @ decimal (unat number)"

definition NewRawAccount :: "('k, 'a) keyFns \<Rightarrow> uint32 \<Rightarrow> ('k, 'a, unit) op" where
  "NewRawAccount K number = whenUnlocked (newAccount K number (rawName number))"

definition NewRawAccountWatchingOnly ::
  "('k, 'a) keyFns \<Rightarrow> uint32 \<Rightarrow> 'k \<Rightarrow> uint32 \<Rightarrow> ScopeAddrSchema option \<Rightarrow> ('k, 'a, unit) op" where
  "NewRawAccountWatchingOnly K number pubKey fp schema =
     newAccountWatchingOnly K number (rawName number) pubKey fp schema"

definition NewAccount :: "('k, 'a) keyFns \<Rightarrow> bytes \<Rightarrow> ('k, 'a, uint32) op" where
  "NewAccount K name = whenUnlocked (look (\<lambda>m.
     let account = fetchLastAccount (mDb m) + 1 in
     bnd (newAccount K account name) (\<lambda>_. ret account)))"

definition NewAccountWatchingOnly ::
  "('k, 'a) keyFns \<Rightarrow> bytes \<Rightarrow> 'k \<Rightarrow> uint32 \<Rightarrow> ScopeAddrSchema option \<Rightarrow> ('k, 'a, uint32) op" where
  "NewAccountWatchingOnly K name pubKey fp schema = look (\<lambda>m.
     let account = fetchLastAccount (mDb m) + 1 in
     bnd (newAccountWatchingOnly K account name pubKey fp schema) (\<lambda>_. ret account))"

definition renamedRow :: "bytes \<Rightarrow> acctRow \<Rightarrow> acctRow" where
  "renamedRow name row =
     (case row of
        DefaultRow pub priv ext inn _ \<Rightarrow> DefaultRow pub priv ext inn name
      | WatchOnlyRow pub fp ext inn _ schema \<Rightarrow> WatchOnlyRow pub fp ext inn name schema)"

definition RenameAccount :: "uint32 \<Rightarrow> bytes \<Rightarrow> ('k, 'a, unit) op" where
  "RenameAccount account name = look (\<lambda>m.
     if account = ImportedAddrAccount then raise ErrInvalidAccount
     else case fetchAccountByName (mDb m) name of
            Inr a \<Rightarrow> raise ErrDuplicateAccount
          | Inl e \<Rightarrow>
              bnd (lift_sum (ValidateAccountName name)) (\<lambda>_.
              bnd (lift_sum (fetchAccountInfo (mDb m) account)) (\<lambda>row.
              bnd (onDb (deleteAccountIDIndex account)) (\<lambda>_.
              bnd (onDb (deleteAccountNameIndex (rowName row))) (\<lambda>_.
              bnd (onDb (putAccountInfo account (renamedRow name row) name)) (\<lambda>_.
              change (\<lambda>m. case mAcctInfo m account of
                Some ai \<Rightarrow> m\<lparr>mAcctInfo := (mAcctInfo m)(account \<mapsto> ai\<lparr>acctName := name\<rparr>)\<rparr>
              | None \<Rightarrow> m)))))))"

definition LookupAccount :: "bytes \<Rightarrow> ('k, 'a, uint32) op" where
  "LookupAccount name = look (\<lambda>m. lift_sum (fetchAccountByName (mDb m) name))"

definition IsWatchOnlyAccount :: "('k, 'a) keyFns \<Rightarrow> uint32 \<Rightarrow> ('k, 'a, bool) op" where
  "IsWatchOnlyAccount K account = bnd (loadAccountInfo K account) (\<lambda>ai. ret (acctKeyPriv ai = None))"

section \<open>Imports\<close>

text \<open>The start block moves back when an imported address is older; the database is written first.\<close>

definition updateStartBlock :: "BlockStamp \<Rightarrow> ('k, 'a, unit) op" where
  "updateStartBlock bs =
     bnd (change (\<lambda>m. m\<lparr>mDbStartBlock := bs\<rparr>)) (\<lambda>_. change (\<lambda>m. m\<lparr>mStartBlock := bs\<rparr>))"

definition importPublicKey ::
  "('k, 'a) keyFns \<Rightarrow> 64 word \<Rightarrow> bytes \<Rightarrow> bytes \<Rightarrow> byte \<Rightarrow> BlockStamp option \<Rightarrow> ('k, 'a, unit) op" where
  "importPublicKey K now pub encPrivKey addrType bs =
     bnd (orFail (pubKeyID K pub addrType) ErrCrypto) (\<lambda>addressID. look (\<lambda>m.
     if existsAddress K m addressID then raise ErrDuplicateAddress
     else
       bnd (orFail (sealPub K pub) ErrCrypto) (\<lambda>encPubKey.
       bnd (onDb (putImportedAddress (sha256 K addressID) ImportedAddrAccount now 0 encPubKey encPrivKey)) (\<lambda>_.
       case bs of
         Some b \<Rightarrow> if bsHeight b < bsHeight (mStartBlock m) then updateStartBlock b else ret ()
       | None \<Rightarrow> ret ()))))"

definition cacheImported :: "('k, 'a) keyFns \<Rightarrow> 'a ManagedAddress \<Rightarrow> ('k, 'a, 'a ManagedAddress) op" where
  "cacheImported K ma =
     bnd (change (\<lambda>m. m\<lparr>mAddrs := (mAddrs m)(scriptAddr K (maAddress ma) \<mapsto> ma)\<rparr>)) (\<lambda>_. ret ma)"

definition toImportedManagedAddress :: "('k, 'a) keyFns \<Rightarrow> bytes \<Rightarrow> ('k, 'a, 'a ManagedAddress) op" where
  "toImportedManagedAddress K pub = look (\<lambda>m.
     let t = ExternalAddrType (mSchema m) in
     bnd (orFail (pubKeyAddress K pub t) ErrCrypto) (\<lambda>a.
     cacheImported K (PubKeyAddress a ImportedDerivationPath True False t)))"

definition ImportPublicKey ::
  "('k, 'a) keyFns \<Rightarrow> 64 word \<Rightarrow> bytes \<Rightarrow> BlockStamp option \<Rightarrow> ('k, 'a, 'a ManagedAddress) op" where
  "ImportPublicKey K now pub bs = look (\<lambda>m.
     bnd (importPublicKey K now pub [] (ExternalAddrType (mSchema m)) bs) (\<lambda>_.
     toImportedManagedAddress K pub))"

text \<open>A private key in WIF: whether it is for this network, its bytes and its public key.\<close>

definition ImportPrivateKey ::
  "('k, 'a) keyFns \<Rightarrow> 64 word \<Rightarrow> bool \<Rightarrow> bytes \<Rightarrow> bytes \<Rightarrow> BlockStamp option \<Rightarrow> ('k, 'a, 'a ManagedAddress) op" where
  "ImportPrivateKey K now isForNet priv pub bs = look (\<lambda>m.
     if \<not> isForNet then raise ErrWrongNet
     else if mLocked m \<and> \<not> mWatchOnly m then raise ErrMgrLocked
     else
       bnd (if mWatchOnly m then ret [] else orFail (sealPriv K priv) ErrCrypto) (\<lambda>encPrivKey.
       bnd (importPublicKey K now pub encPrivKey (ExternalAddrType (mSchema m)) bs) (\<lambda>_.
       toImportedManagedAddress K pub)))"

definition importScriptAddress ::
  "('k, 'a) keyFns \<Rightarrow> 64 word \<Rightarrow> bytes \<Rightarrow> bytes \<Rightarrow> BlockStamp option \<Rightarrow> byte option \<Rightarrow> bool \<Rightarrow>
   ('k, 'a, 'a ManagedAddress) op" where
  "importScriptAddress K now ident scr bs witness isSecret = look (\<lambda>m.
     if isSecret \<and> mLocked m then raise ErrMgrLocked
     else if isSecret \<and> mWatchOnly m then raise ErrWatchingOnly
     else if existsAddress K m ident then raise ErrDuplicateAddress
     else
       bnd (orFail (sealPub K ident) ErrCrypto) (\<lambda>encHash.
       bnd (orFail (if isSecret then sealScript K scr else sealPub K scr) ErrCrypto) (\<lambda>encScript.
       bnd (orFail bs MgrPanic) (\<lambda>b.
       bnd (case witness of
              Some ver \<Rightarrow> onDb (putWitnessScriptAddress (sha256 K ident) ImportedAddrAccount now 0 ver isSecret encHash encScript)
            | None \<Rightarrow> onDb (putScriptAddress (sha256 K ident) ImportedAddrAccount now 0 encHash encScript)) (\<lambda>_.
       bnd (orFail (case witness of Some ver \<Rightarrow> plainWitnessAddress K ver ident | None \<Rightarrow> plainScriptAddress K ident) ErrCrypto) (\<lambda>a.
       let ma = ScriptAddress a ImportedAddrAccount; older = (bsHeight b < bsHeight (mStartBlock m)) in
       bnd (if older then change (\<lambda>m. m\<lparr>mDbStartBlock := b\<rparr>) else ret ()) (\<lambda>_.
       bnd (change (\<lambda>m. m\<lparr>mAddrs := (mAddrs m)(ident \<mapsto> ma)\<rparr>)) (\<lambda>_.
       bnd (if older then change (\<lambda>m. m\<lparr>mStartBlock := b\<rparr>) else ret ()) (\<lambda>_.
       ret ma)))))))))"

definition ImportScript where
  "ImportScript K scriptHash now scr bs = importScriptAddress K now (scriptHash scr) scr bs None True"

definition ImportWitnessScript where
  "ImportWitnessScript K witnessHash now scr bs ver isSecret =
     importScriptAddress K now (witnessHash scr) scr bs (Some ver) isSecret"

section \<open>Iteration\<close>

fun mapOps :: "('x \<Rightarrow> ('k, 'a, 'y) op) \<Rightarrow> 'x list \<Rightarrow> ('k, 'a, 'y list) op" where
  "mapOps f [] = ret []"
| "mapOps f (x # xs) = bnd (f x) (\<lambda>y. bnd (mapOps f xs) (\<lambda>ys. ret (y # ys)))"

definition ForEachAccountAddress :: "('k, 'a) keyFns \<Rightarrow> uint32 \<Rightarrow> ('k, 'a, 'a ManagedAddress list) op" where
  "ForEachAccountAddress K account = look (\<lambda>m.
     bnd (lift_sum (forEachAccountAddress (mDb m) account)) (mapOps (rowInterfaceToManaged K)))"

definition ForEachActiveAddress :: "('k, 'a) keyFns \<Rightarrow> ('k, 'a, 'a list) op" where
  "ForEachActiveAddress K = look (\<lambda>m.
     bnd (lift_sum (forEachActiveAddress (mDb m))) (\<lambda>rows.
     bnd (mapOps (rowInterfaceToManaged K) rows) (\<lambda>mas. ret (map maAddress mas))))"

definition isInternal :: "'a ManagedAddress \<Rightarrow> bool" where
  "isInternal ma = (case ma of PubKeyAddress _ _ _ internal _ \<Rightarrow> internal | ScriptAddress _ _ \<Rightarrow> False)"

definition ForEachInternalActiveAddress :: "('k, 'a) keyFns \<Rightarrow> ('k, 'a, 'a list) op" where
  "ForEachInternalActiveAddress K = look (\<lambda>m.
     bnd (lift_sum (forEachActiveAddress (mDb m))) (\<lambda>rows.
     bnd (mapOps (rowInterfaceToManaged K) rows) (\<lambda>mas. ret (map maAddress (filter isInternal mas)))))"

section \<open>Locking\<close>

definition lockScope :: "('k, 'a) scopedManager \<Rightarrow> ('k, 'a) scopedManager" where
  "lockScope m = m\<lparr>mAcctInfo := (\<lambda>a. map_option (\<lambda>ai. ai\<lparr>acctKeyPriv := None\<rparr>) (mAcctInfo m a)), mLocked := True\<rparr>"

definition Lock :: "('k, 'a, unit) op" where
  "Lock = whenUnlocked (change lockScope)"

definition managedAccount :: "'a ManagedAddress \<Rightarrow> uint32" where
  "managedAccount ma = (case ma of PubKeyAddress _ path _ _ _ \<Rightarrow> InternalAccount path | ScriptAddress _ account \<Rightarrow> account)"

text \<open>One account, and one key to derive, of \<open>Unlock\<close>.\<close>

definition unlockAccount :: "('k, 'a) keyFns \<Rightarrow> uint32 \<Rightarrow> ('k, 'a, unit) op" where
  "unlockAccount K account = look (\<lambda>m.
     case mAcctInfo m account of
       None \<Rightarrow> ret ()
     | Some ai \<Rightarrow>
         bnd (orFail (decPriv K (acctKeyEncrypted ai)) ErrCrypto) (\<lambda>k.
         change (\<lambda>m. m\<lparr>mAcctInfo := (mAcctInfo m)(account \<mapsto> ai\<lparr>acctKeyPriv := Some k\<rparr>)\<rparr>)))"

definition unlockDerive :: "('k, 'a) keyFns \<Rightarrow> ('k \<Rightarrow> bytes) \<Rightarrow> 'a unlockDeriveInfo \<Rightarrow> ('k, 'a, unit) op" where
  "unlockDerive K privBytes info =
     (case info of (ma, branch, index) \<Rightarrow>
        bnd (deriveKeyFromPath K (managedAccount ma) branch index True) (\<lambda>(key, _).
        if \<not> keyIsPrivate K key then raise MgrPanic
        else
          bnd (orFail (sealPriv K (privBytes key)) ErrCrypto) (\<lambda>_.
          change (\<lambda>m. m\<lparr>mDeriveOnUnlock := tl (mDeriveOnUnlock m)\<rparr>))))"

text \<open>\<open>passOk\<close> says whether the passphrase is right; \<open>accts\<close> lists the cached accounts in the order the
  map is visited.\<close>

definition Unlock :: "('k, 'a) keyFns \<Rightarrow> ('k \<Rightarrow> bytes) \<Rightarrow> bool \<Rightarrow> uint32 list \<Rightarrow> ('k, 'a, unit) op" where
  "Unlock K privBytes passOk accts m =
     (if mWatchOnly m then (Inl ErrWatchingOnly, m)
      else if \<not> mLocked m then
        if passOk then (Inr (), m) else (Inl ErrWrongPassphrase, lockScope m)
      else if \<not> passOk then (Inl ErrWrongPassphrase, lockScope m)
      else
        (case bnd (forOps (unlockAccount K) accts) (\<lambda>_. look (\<lambda>m.
                forOps (unlockDerive K privBytes) (mDeriveOnUnlock m))) m of
           (Inl e, m') \<Rightarrow> (Inl e, lockScope m')
         | (Inr _, m') \<Rightarrow> (Inr (), m'\<lparr>mLocked := False\<rparr>)))"

section \<open>Creating a scope\<close>

definition checkBranchKeys :: "('k, 'a) keyFns \<Rightarrow> 'k \<Rightarrow> bool" where
  "checkBranchKeys K acctKey =
     (case (deriveNonStandard K acctKey ExternalBranchNum, deriveNonStandard K acctKey InternalBranchNum) of
        (Derived _, Derived _) \<Rightarrow> True
      | _ \<Rightarrow> False)"

text \<open>The keys and the two first accounts of a scope, from its coin type key.\<close>

definition createManagerKeyScope :: "('k, 'a) keyFns \<Rightarrow> 'k \<Rightarrow> scopeNs \<Rightarrow> mgr_error + scopeNs" where
  "createManagerKeyScope K coinTypeKey d =
     (case deriveAccountKey K coinTypeKey 0 of
        Inl e \<Rightarrow> Inl ErrKeyChain
      | Inr acctKey \<Rightarrow>
          if \<not> checkBranchKeys K acctKey then Inl ErrKeyChain
          else
            (case (keyNeuter K acctKey, keyNeuter K coinTypeKey) of
               (Some pubKey, Some coinPub) \<Rightarrow>
                 (case (encPub K coinPub, encPriv K coinTypeKey, encPub K pubKey, encPriv K acctKey) of
                    (Some cpub, Some cpriv, Some apub, Some apriv) \<Rightarrow>
                      Inr (putDefaultAccountInfo ImportedAddrAccount [] [] 0 0 importedName
                        (putDefaultAccountInfo 0 apub apriv 0 0 defaultName (d\<lparr>coinTypeKeys := Some (cpub, cpriv)\<rparr>)))
                  | _ \<Rightarrow> Inl ErrCrypto)
             | _ \<Rightarrow> Inl ErrKeyChain))"

text \<open>A default scope gets its last account from \<open>createManagerNS\<close>; a scope that
  \<open>NewScopedKeyManager\<close> makes has none.\<close>

definition createDefaultScope :: "('k, 'a) keyFns \<Rightarrow> 'k \<Rightarrow> mgr_error + scopeNs" where
  "createDefaultScope K coinTypeKey = createManagerKeyScope K coinTypeKey (putLastAccount 0 emptyScope)"

definition NewScopedKeyManager :: "('k, 'a) keyFns \<Rightarrow> bool \<Rightarrow> bool \<Rightarrow> 'k option \<Rightarrow> mgr_error + scopeNs" where
  "NewScopedKeyManager K locked watchOnly coinTypeKey =
     (if watchOnly then Inr (putDefaultAccountInfo ImportedAddrAccount [] [] 0 0 importedName emptyScope)
      else if locked then Inl ErrMgrLocked
      else case coinTypeKey of
             None \<Rightarrow> Inl ErrWatchingOnly
           | Some k \<Rightarrow> createManagerKeyScope K k emptyScope)"

end
