(* ===== verification/Addr_Inv.thy ===== *)
theory Addr_Inv
  imports Addr_Manager
begin

text \<open>
  The invariant of a key scope: the account rows, the two account indexes, the addresses and
  their index agree, and a cached account is what loading its row again would give.  Most
  operations only read; \<open>quiet\<close> says so and composes.
\<close>

section \<open>Running operations\<close>

lemma op_run [simp]:
  "ret x m = (Inr x, m)" "raise e m = (Inl e, m)" "look g m = g m m" "change f m = (Inr (), f m)"
  "onDb h m = (Inr (), m\<lparr>mDb := h (mDb m)\<rparr>)" "lift_sum r m = (r, m)"
  "orFail None e m = (Inl e, m)" "orFail (Some x) e m = (Inr x, m)"
  by (simp_all add: ret_def raise_def look_def change_def onDb_def lift_sum_def orFail_def)

lemma bnd_run: "bnd f g m = (case f m of (Inl e, m') \<Rightarrow> (Inl e, m') | (Inr x, m') \<Rightarrow> g x m')"
  by (simp add: bnd_def)

lemma bnd_Inr: "f m = (Inr x, m') \<Longrightarrow> bnd f g m = g x m'" by (simp add: bnd_def)

lemma bnd_Inl: "f m = (Inl e, m') \<Longrightarrow> bnd f g m = (Inl e, m')" by (simp add: bnd_def)

lemma bnd_InrE:
  assumes "bnd f g m = (Inr y, m'')"
  obtains x m' where "f m = (Inr x, m')" "g x m' = (Inr y, m'')"
  using assms by (auto simp: bnd_def split: prod.splits sum.splits)

lemma bnd_cases:
  assumes "\<And>e m'. f m = (Inl e, m') \<Longrightarrow> P (Inl e, m')"
    and "\<And>x m'. f m = (Inr x, m') \<Longrightarrow> P (g x m')"
  shows "P (bnd f g m)"
  using assms by (auto simp: bnd_def split: prod.splits sum.splits)

section \<open>The invariant\<close>

lemma uint32ToBytes_inject [simp]: "uint32ToBytes a = uint32ToBytes b \<longleftrightarrow> a = b"
  unfolding uint32ToBytes_def by (metis get_put_le_Nil(1))

lemma stringToBytes_inject [simp]: "stringToBytes a = stringToBytes b \<longleftrightarrow> a = b"
proof
  assume "stringToBytes a = stringToBytes b"
  then have "drop 4 (stringToBytes a) = drop 4 (stringToBytes b)" by simp
  then show "a = b" by (simp add: stringToBytes_def putBlob_def)
qed simp

definition acctGet :: "scopeNs \<Rightarrow> uint32 \<Rightarrow> acctRow option" where
  "acctGet d a = Get (acctBucket d) (uint32ToBytes a)"

definition listed :: "scopeNs \<Rightarrow> uint32 \<Rightarrow> hash \<Rightarrow> bool" where
  "listed d a h \<longleftrightarrow> (case acctAddrs d a of None \<Rightarrow> False | Some b \<Rightarrow> Get b h \<noteq> None)"

text \<open>Accounts are numbered from 0 on without gaps, beside the imported one.  Every account has its
  name in both indexes; the indexes are inverse to each other.\<close>

definition acctInv :: "scopeNs \<Rightarrow> bool" where
  "acctInv d \<longleftrightarrow>
     (\<exists>l \<le> MaxAccountNum. lastAccount d = Some l \<and>
        (\<forall>a. acctGet d a \<noteq> None \<longleftrightarrow> a \<le> l \<or> a = ImportedAddrAccount)) \<and>
     (\<forall>a. Get (acctIDIdx d) (uint32ToBytes a) = map_option rowName (acctGet d a)) \<and>
     (\<forall>a n. Get (acctNameIdx d) (stringToBytes n) = Some a \<longleftrightarrow> map_option rowName (acctGet d a) = Some n)"

definition addrInv :: "scopeNs \<Rightarrow> bool" where
  "addrInv d \<longleftrightarrow>
     (\<forall>h. Get (addrAcctIdx d) h = map_option adAccount (Get (addrBucket d) h)) \<and>
     (\<forall>h r. Get (addrBucket d) h = Some r \<longrightarrow> listed d (adAccount r) h \<and> acctGet d (adAccount r) \<noteq> None) \<and>
     (\<forall>a h. listed d a h \<longrightarrow> Get (addrBucket d) h \<noteq> None)"

text \<open>Account public keys are public.\<close>

definition pubInv :: "('k, 'a) keyFns \<Rightarrow> scopeNs \<Rightarrow> bool" where
  "pubInv K d \<longleftrightarrow>
     (\<forall>a r k. acctGet d a = Some r \<longrightarrow> decPub K (pubKeyEncrypted r) = Some k \<longrightarrow> \<not> keyIsPrivate K k)"

definition dbInv :: "('k, 'a) keyFns \<Rightarrow> scopeNs \<Rightarrow> bool" where
  "dbInv K d \<longleftrightarrow> acctInv d \<and> addrInv d \<and> pubInv K d"

definition bare :: "('k, 'a) accountInfo \<Rightarrow> ('k, 'a) accountInfo" where
  "bare ai = ai\<lparr>lastExternalAddr := None, lastInternalAddr := None\<rparr>"

definition loaded :: "('k, 'a) keyFns \<Rightarrow> scopeNs \<Rightarrow> bool \<Rightarrow> uint32 \<Rightarrow> ('k, 'a) accountInfo \<Rightarrow> bool" where
  "loaded K d priv account ai \<longleftrightarrow>
     (\<exists>row. acctGet d account = Some row \<and> rowAccount K row priv (aiGen ai) = Inr (bare ai))"

definition memOk :: "('k, 'a) keyFns \<Rightarrow> scopeNs \<Rightarrow> ('k, 'a) scopedManager \<Rightarrow> bool" where
  "memOk K d m \<longleftrightarrow> (\<forall>account ai. mAcctInfo m account = Some ai \<longrightarrow> loaded K d (hasPriv m) account ai)"

definition mgrInv :: "('k, 'a) keyFns \<Rightarrow> ('k, 'a) scopedManager \<Rightarrow> bool" where
  "mgrInv K m \<longleftrightarrow> dbInv K (mDb m) \<and> memOk K (mDb m) m"

text \<open>What is asked of the cryptographic packages: decryption undoes encryption, nothing decrypts from
  no bytes, a neutered key is public and derivation keeps a key public or private.\<close>

definition keyLaws :: "('k, 'a) keyFns \<Rightarrow> bool" where
  "keyLaws K \<longleftrightarrow>
     (\<forall>k b. encPub K k = Some b \<longrightarrow> decPub K b = Some k) \<and>
     (\<forall>k b. encPriv K k = Some b \<longrightarrow> decPriv K b = Some k) \<and>
     decPub K [] = None \<and> decPriv K [] = None \<and>
     (\<forall>k k'. keyNeuter K k = Some k' \<longrightarrow> \<not> keyIsPrivate K k') \<and>
     (\<forall>k i k'. deriveNonStandard K k i = Derived k' \<longrightarrow> keyIsPrivate K k' = keyIsPrivate K k)"

lemma fetchAccountInfo_eq:
  "fetchAccountInfo d a = (case acctGet d a of None \<Rightarrow> Inl ErrAccountNotFound | Some r \<Rightarrow> Inr r)"
  by (simp add: fetchAccountInfo_def acctGet_def)

section \<open>Operations that only read\<close>

definition frame :: "('k, 'a) scopedManager \<Rightarrow> ('k, 'a) scopedManager \<Rightarrow> bool" where
  "frame m m' \<longleftrightarrow> mDb m' = mDb m \<and> mLocked m' = mLocked m \<and> mWatchOnly m' = mWatchOnly m \<and>
     mSchema m' = mSchema m \<and> mPending m' = mPending m \<and> mAcctInfo m \<subseteq>\<^sub>m mAcctInfo m' \<and>
     mDbStartBlock m' = mDbStartBlock m"

definition quiet :: "('k, 'a) keyFns \<Rightarrow> ('k, 'a, 'x) op \<Rightarrow> bool" where
  "quiet K f \<longleftrightarrow> (\<forall>m. frame m (snd (f m)) \<and> (memOk K (mDb m) m \<longrightarrow> memOk K (mDb m) (snd (f m))))"

named_theorems quiet_intros \<open>operations that only read\<close>

lemma frame_refl [simp]: "frame m m" by (simp add: frame_def)

lemma frame_trans: "frame m1 m2 \<Longrightarrow> frame m2 m3 \<Longrightarrow> frame m1 m3"
  by (auto simp: frame_def intro: map_le_trans)

lemma quiet_basic [quiet_intros]:
  "quiet K (ret x)" "quiet K (raise e)" "quiet K (lift_sum r)"
  by (simp_all add: quiet_def)

lemma quiet_orFail [quiet_intros]: "quiet K (orFail o1 e)"
  by (cases o1) (simp_all add: quiet_def)

lemma quiet_look [quiet_intros]: "(\<And>m. quiet K (g m)) \<Longrightarrow> quiet K (look g)"
  by (simp add: quiet_def)

lemma quiet_bnd [quiet_intros]: "quiet K f \<Longrightarrow> (\<And>x. quiet K (g x)) \<Longrightarrow> quiet K (bnd f g)"
  unfolding quiet_def by (auto simp: bnd_def split: prod.splits sum.splits)
    (metis frame_trans snd_conv frame_def)+

lemma quiet_if [quiet_intros]: "quiet K f \<Longrightarrow> quiet K g \<Longrightarrow> quiet K (if c then f else g)"
  by simp

lemma quiet_addrs [quiet_intros]:
  "quiet K (change (\<lambda>m. m\<lparr>mAddrs := f m\<rparr>))" "quiet K (change (\<lambda>m. m\<lparr>mDeriveOnUnlock := g m\<rparr>))"
  by (simp_all add: quiet_def frame_def memOk_def hasPriv_def)

lemma quiet_let [quiet_intros]: "(\<And>x. quiet K (f x)) \<Longrightarrow> quiet K (let x = v in f x)"
  by simp

lemma quiet_option [quiet_intros]:
  "quiet K f \<Longrightarrow> (\<And>x. quiet K (g x)) \<Longrightarrow> quiet K (case o1 of None \<Rightarrow> f | Some x \<Rightarrow> g x)"
  by (cases o1) simp_all

lemma quiet_prod [quiet_intros]: "(\<And>x y. quiet K (f x y)) \<Longrightarrow> quiet K (case p of (x, y) \<Rightarrow> f x y)"
  by (cases p) simp

lemma quiet_keyToManaged [quiet_intros]: "quiet K (keyToManaged K key path ai)"
  unfolding keyToManaged_def by (intro quiet_intros)

lemma quiet_lastAddress [quiet_intros]: "quiet K (lastAddress K ai account branch idx priv)"
  unfolding lastAddress_def by (intro quiet_intros)

lemma lastAddress_acctInfo: "lastAddress K ai account branch idx priv m = (r, m') \<Longrightarrow> mAcctInfo m' = mAcctInfo m"
  by (auto simp: lastAddress_def keyToManaged_def bnd_def Let_def split: sum.splits if_splits)

lemma rowAccount_gen:
  "rowAccount K row priv gen = Inr ai \<Longrightarrow> aiGen ai = gen \<and> bare ai = ai"
  by (auto simp: rowAccount_def bare_def split: acctRow.splits option.splits)

lemma loadAccountInfo_cached: "mAcctInfo m account = Some ai \<Longrightarrow> loadAccountInfo K account m = (Inr ai, m)"
  by (simp add: loadAccountInfo_def)

text \<open>An account that is not cached: the row is read, two addresses are derived, and the account enters
  the cache.\<close>

lemma quietD: "quiet K f \<Longrightarrow> f m = (r, m') \<Longrightarrow> frame m m' \<and> (memOk K (mDb m) m \<longrightarrow> memOk K (mDb m) m')"
  unfolding quiet_def by (metis snd_conv)

lemma loadAccountInfo_uncached:
  assumes "mAcctInfo m account = None" "loadAccountInfo K account m = (r, m')"
  shows "(\<exists>e. r = Inl e \<and> frame m m' \<and> (memOk K (mDb m) m \<longrightarrow> memOk K (mDb m) m') \<and> mAcctInfo m' = mAcctInfo m) \<or>
    (\<exists>row ai m2 ext inn. acctGet (mDb m) account = Some row \<and> rowAccount K row (hasPriv m) (mGen m) = Inr ai \<and>
       frame m m2 \<and> (memOk K (mDb m) m \<longrightarrow> memOk K (mDb m) m2) \<and> mAcctInfo m2 = mAcctInfo m \<and>
       r = Inr (ai\<lparr>lastExternalAddr := Some ext, lastInternalAddr := Some inn\<rparr>) \<and>
       m' = m2\<lparr>mAcctInfo := (mAcctInfo m2)(account \<mapsto> ai\<lparr>lastExternalAddr := Some ext, lastInternalAddr := Some inn\<rparr>),
               mGen := mGen m2 + 1\<rparr>)"
proof (cases "acctGet (mDb m) account")
  case None
  with assms show ?thesis by (auto simp: loadAccountInfo_def fetchAccountInfo_eq bnd_run)
next
  case row: (Some row)
  show ?thesis
  proof (cases "rowAccount K row (hasPriv m) (mGen m)")
    case (Inl e)
    with assms row have "r = Inl e \<and> m' = m" by (simp add: loadAccountInfo_def fetchAccountInfo_eq bnd_run)
    then show ?thesis by simp
  next
    case ai: (Inr ai)
    let ?p = "hasPriv m \<and> \<not> acctWatchOnly ai"
    define addrs where "addrs = bnd (lastAddress K ai account ExternalBranchNum (aiNextExternal ai) ?p) (\<lambda>ext.
      bnd (lastAddress K ai account InternalBranchNum (aiNextInternal ai) ?p) (\<lambda>inn. ret (ext, inn)))"
    have q: "quiet K addrs" unfolding addrs_def by (intro quiet_intros)
    have eq: "loadAccountInfo K account m = bnd addrs (\<lambda>(ext, inn).
        let ai = ai\<lparr>lastExternalAddr := Some ext, lastInternalAddr := Some inn\<rparr> in
        bnd (change (\<lambda>m. m\<lparr>mAcctInfo := (mAcctInfo m)(account \<mapsto> ai), mGen := mGen m + 1\<rparr>)) (\<lambda>_. ret ai)) m"
      using assms row ai
      by (simp add: addrs_def loadAccountInfo_def fetchAccountInfo_eq bnd_run Let_def split: prod.splits sum.splits)
    obtain r2 m2 where a: "addrs m = (r2, m2)" by (cases "addrs m")
    have "mAcctInfo m2 = mAcctInfo m"
      using a by (auto simp: addrs_def bnd_def dest!: lastAddress_acctInfo split: prod.splits sum.splits)
    note k = quietD [OF q a] this
    show ?thesis
    proof (cases r2)
      case (Inl e)
      with a eq assms(2) have "r = Inl e \<and> m' = m2" by (simp add: bnd_def)
      with k show ?thesis by simp
    next
      case (Inr p)
      obtain ext inn where p: "p = (ext, inn)" by (cases p)
      let ?ai = "ai\<lparr>lastExternalAddr := Some ext, lastInternalAddr := Some inn\<rparr>"
      from a eq assms(2) Inr p
      have "r = Inr ?ai \<and> m' = m2\<lparr>mAcctInfo := (mAcctInfo m2)(account \<mapsto> ?ai), mGen := mGen m2 + 1\<rparr>"
        by (simp add: bnd_def Let_def)
      with k row ai show ?thesis by blast
    qed
  qed
qed

lemma loaded_last [simp]:
  "loaded K d p account (ai\<lparr>lastExternalAddr := e, lastInternalAddr := i\<rparr>) = loaded K d p account ai"
  by (simp add: loaded_def bare_def)

lemma loadedI: "acctGet d account = Some row \<Longrightarrow> rowAccount K row p gen = Inr ai \<Longrightarrow> loaded K d p account ai"
  using rowAccount_gen [of K row p gen ai] by (auto simp: loaded_def)

lemma frame_hasPriv: "frame m m' \<Longrightarrow> hasPriv m' = hasPriv m" by (simp add: frame_def hasPriv_def)

lemma memOk_cache:
  assumes "memOk K d m" "loaded K d (hasPriv m) account ai"
  shows "memOk K d (m\<lparr>mAcctInfo := (mAcctInfo m)(account \<mapsto> ai), mGen := g\<rparr>)"
  using assms by (simp add: memOk_def hasPriv_def)

lemma quiet_loadAccountInfo [quiet_intros]: "quiet K (loadAccountInfo K account)"
  unfolding quiet_def
proof
  fix m
  obtain r m' where l: "loadAccountInfo K account m = (r, m')" by (cases "loadAccountInfo K account m")
  show "frame m (snd (loadAccountInfo K account m)) \<and>
      (memOk K (mDb m) m \<longrightarrow> memOk K (mDb m) (snd (loadAccountInfo K account m)))"
  proof (cases "mAcctInfo m account")
    case (Some ai)
    then show ?thesis by (simp add: loadAccountInfo_cached)
  next
    case None
    from loadAccountInfo_uncached [OF this l] show ?thesis
    proof (elim disjE exE conjE)
      fix row ai m2 ext inn
      assume a: "acctGet (mDb m) account = Some row" "rowAccount K row (hasPriv m) (mGen m) = Inr ai"
        and f: "frame m m2" and ok: "memOk K (mDb m) m \<longrightarrow> memOk K (mDb m) m2"
        and m': "m' = m2\<lparr>mAcctInfo := (mAcctInfo m2)(account \<mapsto> ai\<lparr>lastExternalAddr := Some ext, lastInternalAddr := Some inn\<rparr>),
          mGen := mGen m2 + 1\<rparr>"
      have "frame m m'" using f None m' by (auto simp: frame_def map_le_def)
      moreover have "memOk K (mDb m) m \<longrightarrow> memOk K (mDb m) m'"
        using ok loadedI [OF a] frame_hasPriv [OF f] unfolding m' by (auto intro!: memOk_cache)
      ultimately show ?thesis by (simp add: l)
    qed (simp add: l)
  qed
qed

text \<open>A loaded account is in the cache.\<close>

lemma loadAccountInfo_caches:
  assumes "loadAccountInfo K account m = (Inr ai, m')"
  shows "mAcctInfo m' account = Some ai"
proof (cases "mAcctInfo m account")
  case None
  from loadAccountInfo_uncached [OF this assms] show ?thesis by auto
qed (use assms in \<open>simp add: loadAccountInfo_cached\<close>)

lemma quiet_deriveKeyFromPath [quiet_intros]: "quiet K (deriveKeyFromPath K account branch index priv)"
  unfolding deriveKeyFromPath_def by (intro quiet_intros)

lemma quiet_rowInterfaceToManaged [quiet_intros]: "quiet K (rowInterfaceToManaged K row)"
  unfolding rowInterfaceToManaged_def chainAddressRowToManaged_def
  by (cases "adData row") (simp_all, (intro quiet_intros)+)

lemma quiet_mapOps [quiet_intros]: "(\<And>x. quiet K (f x)) \<Longrightarrow> quiet K (mapOps f xs)"
  by (induction xs) (auto intro!: quiet_intros)

lemma quiet_capAccount [quiet_intros]: "quiet K f \<Longrightarrow> quiet K (capAccount account f)"
  unfolding capAccount_def by (intro quiet_intros)

lemma quiet_readers [quiet_intros]:
  "quiet K (DeriveFromKeyPath K path)" "quiet K (AccountProperties K clone account)"
  "quiet K (loadAndCacheAddress K a)" "quiet K (Address K a)" "quiet K (AddrAccount K a)"
  "quiet K (LastExternalAddress K account)" "quiet K (LastInternalAddress K account)"
  "quiet K (LookupAccount name)" "quiet K (IsWatchOnlyAccount K account)"
  "quiet K (ForEachAccountAddress K account)" "quiet K (ForEachActiveAddress K)"
  "quiet K (ForEachInternalActiveAddress K)"
  unfolding DeriveFromKeyPath_def AccountProperties_def loadAndCacheAddress_def Address_def AddrAccount_def
    LastExternalAddress_def LastInternalAddress_def LookupAccount_def IsWatchOnlyAccount_def
    ForEachAccountAddress_def ForEachActiveAddress_def ForEachInternalActiveAddress_def
  by (intro quiet_intros)+

end
