(* ===== verification/Addr_Accounts.thy ===== *)
theory Addr_Accounts
  imports Addr_Inv
begin

text \<open>
  Every exported operation of the scoped key manager, run in a transaction of its own, keeps the
  invariant; the manager as a state machine.
\<close>

section \<open>Writes to the database\<close>

lemma lookups_put [simp]:
  "acctGet (putAccountInfo account row name d) = (acctGet d)(account \<mapsto> row)"
  "acctGet (putAccountRow account row d) = (acctGet d)(account \<mapsto> row)"
  "acctGet (putLastAccount l d) = acctGet d"
  "acctGet (deleteAccountIDIndex account d) = acctGet d"
  "acctGet (deleteAccountNameIndex name d) = acctGet d"
  "acctGet (putAddress h r d) = acctGet d"
  "acctGet (markAddressUsed h d) = acctGet d"
  by (auto simp: acctGet_def fun_eq_iff putAccountInfo_def putAccountNameIndex_def putAccountIDIndex_def
    putAccountRow_def putLastAccount_def deleteAccountIDIndex_def deleteAccountNameIndex_def putAddress_def
    putAddrAccountIndex_def markAddressUsed_def)

text \<open>What the address part of the invariant reads.\<close>

lemma addr_side [simp]:
  "addrBucket (putAccountInfo account row name d) = addrBucket d" "addrBucket (putLastAccount l d) = addrBucket d"
  "addrAcctIdx (putAccountInfo account row name d) = addrAcctIdx d" "addrAcctIdx (putLastAccount l d) = addrAcctIdx d"
  "acctAddrs (putAccountInfo account row name d) = acctAddrs d" "acctAddrs (putLastAccount l d) = acctAddrs d"
  "addrBucket (putAccountRow account row d) = addrBucket d" "addrAcctIdx (putAccountRow account row d) = addrAcctIdx d"
  "acctAddrs (putAccountRow account row d) = acctAddrs d"
  "addrBucket (deleteAccountIDIndex account d) = addrBucket d" "addrBucket (deleteAccountNameIndex name d) = addrBucket d"
  "addrAcctIdx (deleteAccountIDIndex account d) = addrAcctIdx d" "addrAcctIdx (deleteAccountNameIndex name d) = addrAcctIdx d"
  "acctAddrs (deleteAccountIDIndex account d) = acctAddrs d" "acctAddrs (deleteAccountNameIndex name d) = acctAddrs d"
  "addrBucket (markAddressUsed h d) = addrBucket d" "addrAcctIdx (markAddressUsed h d) = addrAcctIdx d"
  "acctAddrs (markAddressUsed h d) = acctAddrs d"
  by (simp_all add: putAccountInfo_def putAccountNameIndex_def putAccountIDIndex_def putAccountRow_def
    putLastAccount_def deleteAccountIDIndex_def deleteAccountNameIndex_def markAddressUsed_def)

lemma acct_side [simp]:
  "lastAccount (putAddress h r d) = lastAccount d" "acctIDIdx (putAddress h r d) = acctIDIdx d"
  "acctNameIdx (putAddress h r d) = acctNameIdx d"
  "lastAccount (putAccountRow a row d) = lastAccount d" "acctIDIdx (putAccountRow a row d) = acctIDIdx d"
  "acctNameIdx (putAccountRow a row d) = acctNameIdx d"
  "lastAccount (markAddressUsed h d) = lastAccount d" "acctIDIdx (markAddressUsed h d) = acctIDIdx d"
  "acctNameIdx (markAddressUsed h d) = acctNameIdx d"
  by (simp_all add: putAddress_def putAddrAccountIndex_def putAccountRow_def markAddressUsed_def)

lemma addrInv_mono:
  assumes "addrInv d" "addrBucket d' = addrBucket d" "addrAcctIdx d' = addrAcctIdx d" "acctAddrs d' = acctAddrs d"
    and "\<And>a. acctGet d a \<noteq> None \<Longrightarrow> acctGet d' a \<noteq> None"
  shows "addrInv d'"
  using assms unfolding addrInv_def listed_def by simp

lemma addrInv_putAddress:
  assumes "addrInv d" "acctGet d (adAccount r) \<noteq> None"
  shows "addrInv (putAddress h r d)"
proof -
  have l: "listed (putAddress h r d) a x \<longleftrightarrow> listed d a x \<or> a = adAccount r \<and> x = h" for a x
    by (auto simp: listed_def putAddress_def putAddrAccountIndex_def split: option.splits)
  have b: "Get (addrBucket (putAddress h r d)) = (Get (addrBucket d))(h \<mapsto> r)"
    "Get (addrAcctIdx (putAddress h r d)) = (Get (addrAcctIdx d))(h \<mapsto> adAccount r)"
    by (simp_all add: putAddress_def putAddrAccountIndex_def)
  show ?thesis using assms unfolding addrInv_def l b by auto
qed

lemma acctInvD:
  assumes "acctInv d"
  shows "lastAccount d = Some l \<Longrightarrow> acctGet d a \<noteq> None \<longleftrightarrow> a \<le> l \<or> a = ImportedAddrAccount"
    and "lastAccount d = Some l \<Longrightarrow> l \<le> MaxAccountNum"
    and "Get (acctIDIdx d) (uint32ToBytes a) = map_option rowName (acctGet d a)"
    and "Get (acctNameIdx d) (stringToBytes n) = Some a \<longleftrightarrow> map_option rowName (acctGet d a) = Some n"
    and "\<exists>l. lastAccount d = Some l"
  using assms unfolding acctInv_def by (simp_all, auto)

lemma acctInvI:
  assumes "lastAccount d = Some l" "l \<le> MaxAccountNum" "\<And>a. acctGet d a \<noteq> None \<longleftrightarrow> a \<le> l \<or> a = ImportedAddrAccount"
    and "\<And>a. Get (acctIDIdx d) (uint32ToBytes a) = map_option rowName (acctGet d a)"
    and "\<And>a n. Get (acctNameIdx d) (stringToBytes n) = Some a \<longleftrightarrow> map_option rowName (acctGet d a) = Some n"
  shows "acctInv d"
  unfolding acctInv_def using assms by blast

lemma acctInv_cong:
  assumes "acctInv d" "lastAccount d' = lastAccount d" "acctIDIdx d' = acctIDIdx d" "acctNameIdx d' = acctNameIdx d"
    and names: "\<And>a. map_option rowName (acctGet d' a) = map_option rowName (acctGet d a)"
  shows "acctInv d'"
proof -
  have "acctGet d' a \<noteq> None \<longleftrightarrow> acctGet d a \<noteq> None" for a
    using names [of a] by (metis option.map_disc_iff)
  moreover obtain l where "lastAccount d = Some l" using acctInvD(5) [OF assms(1)] by blast
  ultimately show ?thesis using assms(2-4) acctInvD(1-4) [OF assms(1)]
    by - (rule acctInvI [of _ l], simp_all only: names)
qed

text \<open>A row that keeps its name and public key.\<close>

lemma dbInv_row:
  assumes "dbInv K d" "acctGet d a = Some row" "rowName row' = rowName row" "pubKeyEncrypted row' = pubKeyEncrypted row"
  shows "dbInv K (putAccountRow a row' d)"
proof -
  have "acctInv (putAccountRow a row' d)"
    by (rule acctInv_cong [of d]) (use assms in \<open>simp_all add: dbInv_def\<close>)
  moreover have "addrInv (putAccountRow a row' d)"
    by (rule addrInv_mono [of d]) (use assms in \<open>auto simp: dbInv_def\<close>)
  moreover have "pubInv K (putAccountRow a row' d)"
    using assms by (auto simp: pubInv_def dbInv_def)
  ultimately show ?thesis by (simp add: dbInv_def)
qed

lemma dbInv_putAddress:
  assumes "dbInv K d" "acctGet d (adAccount r) \<noteq> None"
  shows "dbInv K (putAddress h r d)"
proof -
  have "acctInv (putAddress h r d)" by (rule acctInv_cong [of d]) (use assms(1) in \<open>simp_all add: dbInv_def\<close>)
  then show ?thesis using assms by (simp add: dbInv_def addrInv_putAddress pubInv_def)
qed

lemma withNextIndex_sel [simp]:
  "rowName (withNextIndex branch i row) = rowName row"
  "pubKeyEncrypted (withNextIndex branch i row) = pubKeyEncrypted row"
  by (cases row; simp add: withNextIndex_def)+

lemma dbInv_putChainedAddress:
  assumes "dbInv K d" "putChainedAddress h account now st branch i d = Inr d'"
  shows "dbInv K d'" "\<exists>row. acctGet d account = Some row \<and> acctGet d' = (acctGet d)(account \<mapsto> withNextIndex branch i row)"
    "Get (addrBucket d') = (Get (addrBucket d))(h \<mapsto>
       \<lparr>adAccount = account, adTime = now, adSync = st, adData = ChainAddr branch i\<rparr>)"
proof -
  let ?d = "putAddress h \<lparr>adAccount = account, adTime = now, adSync = st, adData = ChainAddr branch i\<rparr> d"
  have g: "Get (acctBucket ?d) (uint32ToBytes account) = acctGet d account"
    by (metis acctGet_def lookups_put(6))
  then obtain row where row: "acctGet d account = Some row"
    using assms(2) by (cases "acctGet d account") (simp_all add: putChainedAddress_def Let_def)
  then have d': "d' = putAccountRow account (withNextIndex branch i row) ?d"
    using assms(2) g by (simp add: putChainedAddress_def Let_def)
  show "dbInv K d'" unfolding d'
    by (rule dbInv_row [of K ?d _ row]) (use assms(1) row in \<open>simp_all add: dbInv_putAddress\<close>)
  show "\<exists>row. acctGet d account = Some row \<and> acctGet d' = (acctGet d)(account \<mapsto> withNextIndex branch i row)"
    using row by (auto simp: d')
  show "Get (addrBucket d') = (Get (addrBucket d))(h \<mapsto>
       \<lparr>adAccount = account, adTime = now, adSync = st, adData = ChainAddr branch i\<rparr>)"
    by (simp add: d', simp add: putAddress_def putAddrAccountIndex_def)
qed

text \<open>A new account takes the next number and a free name.\<close>

lemma nameFree: "acctInv d \<Longrightarrow> fetchAccountByName d name = Inl e \<Longrightarrow> acctGet d a = Some row \<Longrightarrow> rowName row \<noteq> name"
  using acctInvD(4) [of d name a] by (auto simp: fetchAccountByName_def split: option.splits)

lemma dbInv_newAccount:
  assumes "dbInv K d" "lastAccount d = Some l" "l < MaxAccountNum" "fetchAccountByName d name = Inl e" "rowName row = name"
    and pub: "\<And>k. decPub K (pubKeyEncrypted row) = Some k \<Longrightarrow> \<not> keyIsPrivate K k"
  shows "dbInv K (putLastAccount (l + 1) (putAccountInfo (l + 1) row name d))"
proof -
  let ?d = "putLastAccount (l + 1) (putAccountInfo (l + 1) row name d)"
  have l1: "unat (l + 1) = Suc (unat l)" "l + 1 \<le> MaxAccountNum" "MaxAccountNum < ImportedAddrAccount"
    using assms(3) by (simp_all add: MaxAccountNum_def ImportedAddrAccount_def unatSuc word_less_nat_alt word_le_nat_alt unat_word_ariths)
  have le: "a \<le> l + 1 \<longleftrightarrow> a \<le> l \<or> a = l + 1" for a
    using l1(1) by (auto simp: word_le_nat_alt word_unat_eq_iff)
  have inv: "acctInv d" using assms(1) by (simp add: dbInv_def)
  have fresh: "acctGet d (l + 1) = None"
    using acctInvD(1) [OF inv assms(2), of "l + 1"] l1 by (auto simp: word_le_nat_alt word_less_nat_alt)
  have dom: "acctGet ?d a \<noteq> None \<longleftrightarrow> a \<le> l + 1 \<or> a = ImportedAddrAccount" for a
    using acctInvD(1) [OF inv assms(2), of a] by (auto simp: le)
  have idx: "Get (acctIDIdx ?d) (uint32ToBytes a) = map_option rowName (acctGet ?d a)" for a
    using acctInvD(3) [OF inv] assms(5)
    by (simp add: putAccountInfo_def putAccountNameIndex_def putAccountIDIndex_def putAccountRow_def putLastAccount_def acctGet_def)
  have names: "Get (acctNameIdx ?d) (stringToBytes n) = Some a \<longleftrightarrow> map_option rowName (acctGet ?d a) = Some n" for a n
  proof -
    have "Get (acctNameIdx ?d) (stringToBytes n) = (if n = name then Some (l + 1) else Get (acctNameIdx d) (stringToBytes n))"
      by (simp add: putAccountInfo_def putAccountNameIndex_def putAccountIDIndex_def putAccountRow_def putLastAccount_def)
    moreover have "Get (acctNameIdx d) (stringToBytes n) = Some a \<longleftrightarrow> map_option rowName (acctGet d a) = Some n"
      by (rule acctInvD(4) [OF inv])
    ultimately show ?thesis using fresh assms(5) nameFree [OF inv assms(4), of a] by auto
  qed
  have "lastAccount ?d = Some (l + 1)" by (simp add: putLastAccount_def)
  then have "acctInv ?d" using l1(2) dom idx names by (rule acctInvI)
  moreover have "addrInv ?d" by (rule addrInv_mono [of d]) (use assms(1) in \<open>auto simp: dbInv_def\<close>)
  moreover have "pubInv K ?d" using assms(1) pub by (auto simp: dbInv_def pubInv_def)
  ultimately show ?thesis by (simp add: dbInv_def)
qed

lemma renamedRow_sel [simp]:
  "rowName (renamedRow name row) = name" "pubKeyEncrypted (renamedRow name row) = pubKeyEncrypted row"
  by (cases row; simp add: renamedRow_def)+

lemma dbInv_rename:
  assumes "dbInv K d" "acctGet d account = Some row" "fetchAccountByName d name = Inl e"
  shows "dbInv K (putAccountInfo account (renamedRow name row) name
    (deleteAccountNameIndex (rowName row) (deleteAccountIDIndex account d)))" (is "dbInv K ?d")
proof -
  have inv: "acctInv d" using assms(1) by (simp add: dbInv_def)
  obtain l where l: "lastAccount d = Some l" using acctInvD(5) [OF inv] by blast
  have side: "lastAccount ?d = Some l"
    "Get (acctIDIdx ?d) = (Get (acctIDIdx d))(uint32ToBytes account \<mapsto> name)"
    "Get (acctNameIdx ?d) = ((Get (acctNameIdx d))(stringToBytes (rowName row) := None))(stringToBytes name \<mapsto> account)"
    using l by (simp_all add: putAccountInfo_def putAccountNameIndex_def putAccountIDIndex_def putAccountRow_def
      deleteAccountIDIndex_def deleteAccountNameIndex_def)
  have names: "Get (acctNameIdx ?d) (stringToBytes n) = Some a \<longleftrightarrow> map_option rowName (acctGet ?d a) = Some n" for a n
    using acctInvD(4) [OF inv, of n a] acctInvD(4) [OF inv, of "rowName row" account] assms(2)
      nameFree [OF inv assms(3), of a] by (auto simp: side)
  have "acctInv ?d"
    using side(1) acctInvD(2) [OF inv l]
  proof (rule acctInvI)
    show "acctGet ?d a \<noteq> None \<longleftrightarrow> a \<le> l \<or> a = ImportedAddrAccount" for a
      using acctInvD(1) [OF inv l, of a] assms(2) by auto
    show "Get (acctIDIdx ?d) (uint32ToBytes a) = map_option rowName (acctGet ?d a)" for a
      using acctInvD(3) [OF inv, of a] by (simp add: side)
  qed (rule names)
  moreover have "addrInv ?d" by (rule addrInv_mono [of d]) (use assms in \<open>auto simp: dbInv_def\<close>)
  moreover have "pubInv K ?d" using assms(1,2) by (auto simp: dbInv_def pubInv_def)
  ultimately show ?thesis by (simp add: dbInv_def)
qed

section \<open>Operations that keep the invariant\<close>

text \<open>An operation may fail half way: then the database is undone, so memory has to fit the old one.\<close>

definition safe :: "('k, 'a) keyFns \<Rightarrow> ('k, 'a, 'x) op \<Rightarrow> bool" where
  "safe K f \<longleftrightarrow> (\<forall>m. mgrInv K m \<longrightarrow>
     (case f m of (Inl e, m') \<Rightarrow> memOk K (mDb m) m' | (Inr x, m') \<Rightarrow> mgrInv K m' \<and> mPending m' = mPending m))"

lemma safeI:
  assumes "\<And>m e m'. mgrInv K m \<Longrightarrow> f m = (Inl e, m') \<Longrightarrow> memOk K (mDb m) m'"
    and "\<And>m x m'. mgrInv K m \<Longrightarrow> f m = (Inr x, m') \<Longrightarrow> mgrInv K m' \<and> mPending m' = mPending m"
  shows "safe K f"
  unfolding safe_def
proof (intro allI impI)
  fix m assume "mgrInv K m"
  moreover obtain r m' where "f m = (r, m')" by (cases "f m")
  ultimately show "case f m of (Inl e, m') \<Rightarrow> memOk K (mDb m) m' | (Inr x, m') \<Rightarrow> mgrInv K m' \<and> mPending m' = mPending m"
    using assms(1) [of m] assms(2) [of m] by (cases r) simp_all
qed

lemma safeD:
  assumes "safe K f" "mgrInv K m"
  shows "f m = (Inl e, m') \<Longrightarrow> memOk K (mDb m) m'"
    and "f m = (Inr x, m') \<Longrightarrow> mgrInv K m' \<and> mPending m' = mPending m"
  using assms(1) [unfolded safe_def, rule_format, OF assms(2)] by simp_all

lemma memOk_cong: "acctGet d' = acctGet d \<Longrightarrow> memOk K d' m = memOk K d m"
  by (simp add: memOk_def loaded_def)

lemma memOk_mem: "mAcctInfo m' = mAcctInfo m \<Longrightarrow> hasPriv m' = hasPriv m \<Longrightarrow> memOk K d m' = memOk K d m"
  by (simp add: memOk_def)

lemma hasPriv_upd [simp]:
  "hasPriv (m\<lparr>mDb := d\<rparr>) = hasPriv m" "hasPriv (m\<lparr>mPending := p\<rparr>) = hasPriv m" "hasPriv (m\<lparr>mAcctInfo := f\<rparr>) = hasPriv m"
  "hasPriv (m\<lparr>mAddrs := g\<rparr>) = hasPriv m" "hasPriv (m\<lparr>mDeriveOnUnlock := q\<rparr>) = hasPriv m"
  "hasPriv (m\<lparr>mStartBlock := s\<rparr>) = hasPriv m" "hasPriv (m\<lparr>mDbStartBlock := s\<rparr>) = hasPriv m"
  by (simp_all add: hasPriv_def)

lemma safe_quiet: "quiet K f \<Longrightarrow> safe K f"
  by (rule safeI) (auto simp: mgrInv_def frame_def dest!: quietD)

lemma safe_bnd_quiet:
  assumes "quiet K f" "\<And>x. safe K (g x)"
  shows "safe K (bnd f g)"
proof (rule safeI)
  fix m e m'' assume inv: "mgrInv K m" and b: "bnd f g m = (Inl e, m'')"
  obtain r m1 where f: "f m = (r, m1)" by (cases "f m")
  from quietD [OF assms(1) f] inv have m1: "mgrInv K m1" "mDb m1 = mDb m" "memOk K (mDb m) m1"
    by (auto simp: mgrInv_def frame_def)
  show "memOk K (mDb m) m''"
    using b f m1 safeD(1) [OF assms(2) m1(1)] by (cases r) (auto simp: bnd_def)
next
  fix m x m'' assume inv: "mgrInv K m" and b: "bnd f g m = (Inr x, m'')"
  from b obtain y m1 where f: "f m = (Inr y, m1)" "g y m1 = (Inr x, m'')" by (rule bnd_InrE)
  from quietD [OF assms(1) f(1)] inv have "mgrInv K m1" "mPending m1 = mPending m"
    by (auto simp: mgrInv_def frame_def)
  with safeD(2) [OF assms(2) this(1) f(2)] show "mgrInv K m'' \<and> mPending m'' = mPending m" by simp
qed

lemma safe_look: "(\<And>m. mgrInv K m \<Longrightarrow> safe K (g m)) \<Longrightarrow> safe K (look g)"
  by (simp add: safe_def)

lemma mgrInv_db: "mgrInv K m \<Longrightarrow> dbInv K d \<Longrightarrow> acctGet d = acctGet (mDb m) \<Longrightarrow> mgrInv K (m\<lparr>mDb := d\<rparr>)"
  using memOk_cong [of d "mDb m" K] by (simp add: mgrInv_def memOk_def)

lemma safe_onDb:
  assumes "\<And>d. dbInv K d \<Longrightarrow> dbInv K (h d)" "\<And>d. acctGet (h d) = acctGet d"
  shows "safe K (onDb h)"
proof (rule safeI)
  fix m x m' assume "mgrInv K m" "onDb h m = (Inr x, m')"
  then show "mgrInv K m' \<and> mPending m' = mPending m"
    using assms mgrInv_db [of K m "h (mDb m)"] by (auto simp: mgrInv_def)
qed simp

lemma safe_MarkUsed: "safe K (MarkUsed K a)"
proof -
  have "dbInv K (markAddressUsed h d)" if "dbInv K d" for h d
  proof -
    have "acctInv (markAddressUsed h d)" by (rule acctInv_cong [of d]) (use that in \<open>simp_all add: dbInv_def\<close>)
    moreover have "addrInv (markAddressUsed h d)" by (rule addrInv_mono [of d]) (use that in \<open>simp_all add: dbInv_def\<close>)
    ultimately show ?thesis using that by (simp add: dbInv_def pubInv_def)
  qed
  then have "mgrInv K (m\<lparr>mDb := markAddressUsed h (mDb m)\<rparr>)" if "mgrInv K m" for h m
    using that by (intro mgrInv_db) (simp_all add: mgrInv_def)
  then show ?thesis by (simp add: safe_def MarkUsed_def bnd_def mgrInv_def memOk_def)
qed

lemma safe_InvalidateAccountCache: "safe K (InvalidateAccountCache account)"
  by (auto simp: safe_def InvalidateAccountCache_def mgrInv_def memOk_def)

lemma orFail_cases: "orFail o1 e m = (case o1 of None \<Rightarrow> (Inl e, m) | Some x \<Rightarrow> (Inr x, m))"
  by (cases o1) simp_all

lemma checkName_run: "checkName name m = (r, m') \<Longrightarrow> m' = m \<and>
    (r = Inr () \<longrightarrow> ValidateAccountName name = Inr () \<and> (\<exists>e. fetchAccountByName (mDb m) name = Inl e))"
  by (auto simp: checkName_def bnd_def split: sum.splits)

lemma newAccount_run:
  assumes "newAccount K account name m = (r, m')"
  shows "case r of Inl e \<Rightarrow> m' = m
    | Inr _ \<Rightarrow> \<exists>e coin acctKey pubKey pub priv cpub cpriv. ValidateAccountName name = Inr () \<and>
        fetchAccountByName (mDb m) name = Inl e \<and> coinTypeKeys (mDb m) = Some (cpub, cpriv) \<and> decPriv K cpriv = Some coin \<and>
        deriveAccountKey K coin account = Inr acctKey \<and> keyNeuter K acctKey = Some pubKey \<and>
        encPub K pubKey = Some pub \<and> encPriv K acctKey = Some priv \<and>
        m' = m\<lparr>mDb := putLastAccount account (putDefaultAccountInfo account pub priv 0 0 name (mDb m))\<rparr>"
proof -
  obtain r1 m1 where c: "checkName name m = (r1, m1)" by (cases "checkName name m")
  note k = checkName_run [OF c]
  show ?thesis
  proof (cases r1)
    case (Inl e)
    with assms c k show ?thesis by (auto simp: newAccount_def bnd_def)
  next
    case (Inr u)
    with assms c k show ?thesis
      by (auto simp: newAccount_def bnd_def orFail_cases split: option.splits sum.splits)
  qed
qed

lemma newAccountWatchingOnly_run:
  assumes "newAccountWatchingOnly K account name pubKey fp schema m = (r, m')"
  shows "case r of Inl e \<Rightarrow> m' = m
    | Inr _ \<Rightarrow> \<exists>e pub. ValidateAccountName name = Inr () \<and>
        fetchAccountByName (mDb m) name = Inl e \<and> encPub K pubKey = Some pub \<and>
        m' = m\<lparr>mDb := putLastAccount account (putWatchOnlyAccountInfo account pub fp 0 0 name schema (mDb m))\<rparr>"
proof -
  obtain r1 m1 where c: "checkName name m = (r1, m1)" by (cases "checkName name m")
  note k = checkName_run [OF c]
  show ?thesis
  proof (cases r1)
    case (Inl e)
    with assms c k show ?thesis by (auto simp: newAccountWatchingOnly_def bnd_def)
  next
    case (Inr u)
    with assms c k show ?thesis
      by (auto simp: newAccountWatchingOnly_def bnd_def orFail_cases split: option.splits sum.splits)
  qed
qed

lemma mgrInv_newAccount:
  assumes "mgrInv K m" "lastAccount (mDb m) = Some l" "l < MaxAccountNum" "fetchAccountByName (mDb m) name = Inl e"
    "rowName row = name" "\<And>k. decPub K (pubKeyEncrypted row) = Some k \<Longrightarrow> \<not> keyIsPrivate K k"
  shows "mgrInv K (m\<lparr>mDb := putLastAccount (l + 1) (putAccountInfo (l + 1) row name (mDb m))\<rparr>)"
proof -
  have inv: "dbInv K (mDb m)" "memOk K (mDb m) m" using assms(1) by (simp_all add: mgrInv_def)
  have "dbInv K (putLastAccount (l + 1) (putAccountInfo (l + 1) row name (mDb m)))"
    using inv(1) assms(2-6) by (rule dbInv_newAccount)
  moreover have "acctGet (mDb m) (l + 1) = None"
    using acctInvD(1) [of "mDb m" l "l + 1"] inv(1) assms(2,3)
    by (auto simp: dbInv_def MaxAccountNum_def ImportedAddrAccount_def word_less_nat_alt word_le_nat_alt unat_word_ariths)
  then have "memOk K (putLastAccount (l + 1) (putAccountInfo (l + 1) row name (mDb m))) m"
    using inv(2) by (fastforce simp: memOk_def loaded_def)
  ultimately show ?thesis by (simp add: mgrInv_def memOk_def)
qed

lemma deriveAccountKey_bound: "deriveAccountKey K coin account = Inr k \<Longrightarrow> account \<le> MaxAccountNum"
  by (auto simp: deriveAccountKey_def split: if_splits)

lemma safe_whenUnlocked: "safe K f \<Longrightarrow> safe K (whenUnlocked f)"
  unfolding whenUnlocked_def by (intro safe_look) (auto intro: safe_quiet quiet_intros)

lemma safe_NewAccount:
  assumes laws: "keyLaws K"
  shows "safe K (NewAccount K name)"
  unfolding NewAccount_def
proof (rule safe_whenUnlocked, rule safeI)
  fix m e m'
  assume a: "mgrInv K m" "look (\<lambda>m. let account = fetchLastAccount (mDb m) + 1 in
    bnd (newAccount K account name) (\<lambda>_. ret account)) m = (Inl e, m')"
  obtain r1 m1 where n: "newAccount K (fetchLastAccount (mDb m) + 1) name m = (r1, m1)"
    by (cases "newAccount K (fetchLastAccount (mDb m) + 1) name m")
  with a newAccount_run [OF n] have "m' = m" by (cases r1) (auto simp: Let_def bnd_def)
  with a show "memOk K (mDb m) m'" by (simp add: mgrInv_def)
next
  fix m x m'
  assume a: "mgrInv K m" "look (\<lambda>m. let account = fetchLastAccount (mDb m) + 1 in
    bnd (newAccount K account name) (\<lambda>_. ret account)) m = (Inr x, m')"
  obtain l where l: "lastAccount (mDb m) = Some l" using a(1) acctInvD(5) by (auto simp: mgrInv_def dbInv_def)
  then have last: "fetchLastAccount (mDb m) + 1 = l + 1" by (simp add: fetchLastAccount_def)
  obtain r1 m1 where n: "newAccount K (l + 1) name m = (r1, m1)" by (cases "newAccount K (l + 1) name m")
  then obtain u where n: "newAccount K (l + 1) name m = (Inr u, m')" using a(2) last by (cases r1) (auto simp: Let_def bnd_def)
  from newAccount_run [OF n] obtain e acctKey pubKey pub priv coin where
    k: "fetchAccountByName (mDb m) name = Inl e" "deriveAccountKey K coin (l + 1) = Inr acctKey"
      "keyNeuter K acctKey = Some pubKey" "encPub K pubKey = Some pub"
      "m' = m\<lparr>mDb := putLastAccount (l + 1) (putDefaultAccountInfo (l + 1) pub priv 0 0 name (mDb m))\<rparr>" by auto
  have "l \<le> MaxAccountNum" using acctInvD(2) l a(1) by (auto simp: mgrInv_def dbInv_def)
  moreover have "l + 1 \<noteq> ImportedAddrAccount" using deriveAccountKey_bound [OF k(2)] by (auto simp: MaxAccountNum_def ImportedAddrAccount_def)
  ultimately have lt: "l < MaxAccountNum"
    by (auto simp: MaxAccountNum_def ImportedAddrAccount_def word_less_nat_alt word_le_nat_alt unat_word_ariths word_unat_eq_iff)
  have "\<not> keyIsPrivate K key" if "decPub K pub = Some key" for key
    using that k(3,4) laws by (auto simp: keyLaws_def)
  then have "mgrInv K m'" unfolding k(5) putDefaultAccountInfo_def
    by (intro mgrInv_newAccount [OF a(1) l lt k(1)]) simp_all
  then show "mgrInv K m' \<and> mPending m' = mPending m" by (simp add: k(5))
qed

text \<open>A watch-only account may have any number: the code does not check it against the maximum.\<close>

lemma NewAccountWatchingOnly_inv:
  assumes inv: "mgrInv K m" and laws: "keyLaws K" and pub: "\<not> keyIsPrivate K pubKey"
    and last: "fetchLastAccount (mDb m) < MaxAccountNum"
  shows "case NewAccountWatchingOnly K name pubKey fp schema m of
      (Inl e, m') \<Rightarrow> m' = m | (Inr x, m') \<Rightarrow> mgrInv K m' \<and> mPending m' = mPending m"
proof -
  obtain l where l: "lastAccount (mDb m) = Some l" using inv acctInvD(5) by (auto simp: mgrInv_def dbInv_def)
  then have eq: "fetchLastAccount (mDb m) = l" by (simp add: fetchLastAccount_def)
  obtain r1 m1 where n: "newAccountWatchingOnly K (l + 1) name pubKey fp schema m = (r1, m1)"
    by (cases "newAccountWatchingOnly K (l + 1) name pubKey fp schema m")
  show ?thesis
  proof (cases r1)
    case (Inl e)
    with newAccountWatchingOnly_run [OF n] n eq show ?thesis by (simp add: NewAccountWatchingOnly_def bnd_def Let_def)
  next
    case (Inr u)
    with newAccountWatchingOnly_run [OF n] obtain e b where k: "fetchAccountByName (mDb m) name = Inl e" "encPub K pubKey = Some b"
      "m1 = m\<lparr>mDb := putLastAccount (l + 1) (putWatchOnlyAccountInfo (l + 1) b fp 0 0 name schema (mDb m))\<rparr>" by auto
    have "\<not> keyIsPrivate K key" if "decPub K b = Some key" for key
      using that k(2) pub laws by (auto simp: keyLaws_def)
    then have "mgrInv K m1" unfolding k(3) putWatchOnlyAccountInfo_def
      using last eq by (intro mgrInv_newAccount [OF inv l _ k(1)]) simp_all
    with Inr n eq k(3) show ?thesis by (simp add: NewAccountWatchingOnly_def bnd_def Let_def)
  qed
qed

lemma rowAccount_renamed:
  "rowAccount K row p gen = Inr ai \<Longrightarrow> rowAccount K (renamedRow name row) p gen = Inr (ai\<lparr>acctName := name\<rparr>)"
  by (auto simp: rowAccount_def renamedRow_def split: acctRow.splits option.splits)

lemma loaded_renamed:
  assumes "acctGet d account = Some row" "loaded K d p account ai"
    and "acctGet d' = (acctGet d)(account \<mapsto> renamedRow name row)"
  shows "loaded K d' p account (ai\<lparr>acctName := name\<rparr>)"
  using assms rowAccount_renamed [of K row p "aiGen ai" "bare ai" name] by (simp add: loaded_def bare_def)

lemma RenameAccount_run:
  assumes "RenameAccount account name m = (r, m')"
  shows "case r of Inl e \<Rightarrow> m' = m
    | Inr _ \<Rightarrow> \<exists>e row. account \<noteq> ImportedAddrAccount \<and> fetchAccountByName (mDb m) name = Inl e \<and>
        ValidateAccountName name = Inr () \<and> acctGet (mDb m) account = Some row \<and>
        m' = m\<lparr>mDb := putAccountInfo account (renamedRow name row) name
                 (deleteAccountNameIndex (rowName row) (deleteAccountIDIndex account (mDb m))),
               mAcctInfo := (mAcctInfo m)(account := map_option (\<lambda>ai. ai\<lparr>acctName := name\<rparr>) (mAcctInfo m account))\<rparr>"
  using assms
  by (auto simp: RenameAccount_def bnd_def fetchAccountInfo_eq fun_upd_idem split: if_splits sum.splits option.splits)

lemma safe_RenameAccount: "safe K (RenameAccount account name)"
proof (rule safeI)
  fix m e m' assume "mgrInv K m" "RenameAccount account name m = (Inl e, m')"
  with RenameAccount_run show "memOk K (mDb m) m'" by (fastforce simp: mgrInv_def)
next
  fix m x m' assume inv: "mgrInv K m" and r: "RenameAccount account name m = (Inr x, m')"
  let ?d = "\<lambda>row. putAccountInfo account (renamedRow name row) name
    (deleteAccountNameIndex (rowName row) (deleteAccountIDIndex account (mDb m)))"
  from RenameAccount_run [OF r] obtain e row where k: "fetchAccountByName (mDb m) name = Inl e"
    "acctGet (mDb m) account = Some row" "m' = m\<lparr>mDb := ?d row,
       mAcctInfo := (mAcctInfo m)(account := map_option (\<lambda>ai. ai\<lparr>acctName := name\<rparr>) (mAcctInfo m account))\<rparr>" by auto
  have "dbInv K (?d row)" using inv k by (intro dbInv_rename) (simp_all add: mgrInv_def)
  moreover have "memOk K (?d row) m'"
    unfolding memOk_def
  proof (intro allI impI)
    fix a ai assume c: "mAcctInfo m' a = Some ai"
    show "loaded K (?d row) (hasPriv m') a ai"
    proof (cases "a = account")
      case True
      with c obtain ai0 where "mAcctInfo m account = Some ai0" "ai = ai0\<lparr>acctName := name\<rparr>" by (auto simp: k(3))
      with inv True k show ?thesis by (auto simp: mgrInv_def memOk_def intro!: loaded_renamed [of "mDb m"])
    next
      case False
      with c inv show ?thesis by (auto simp: k(3) mgrInv_def memOk_def loaded_def)
    qed
  qed
  ultimately show "mgrInv K m' \<and> mPending m' = mPending m" by (simp add: k(3) mgrInv_def)
qed

text \<open>Imports add an address of the imported account.\<close>

lemma imported_exists: "mgrInv K m \<Longrightarrow> acctGet (mDb m) ImportedAddrAccount \<noteq> None"
  using acctInvD(1,5) [of "mDb m"] by (auto simp: mgrInv_def dbInv_def)

definition sameMem :: "('k, 'a) scopedManager \<Rightarrow> ('k, 'a) scopedManager \<Rightarrow> bool" where
  "sameMem m m' \<longleftrightarrow> mAcctInfo m' = mAcctInfo m \<and> hasPriv m' = hasPriv m \<and> mPending m' = mPending m"

definition importStep :: "scopeNs \<Rightarrow> scopeNs \<Rightarrow> bool" where
  "importStep d d' \<longleftrightarrow> d' = d \<or> (\<exists>h r. adAccount r = ImportedAddrAccount \<and> d' = putAddress h r d)"

lemma importStep_simps [simp]:
  "importStep d d" "adAccount r = ImportedAddrAccount \<Longrightarrow> importStep d (putAddress h r d)"
  by (auto simp: importStep_def)

lemma mgrInv_import:
  assumes "mgrInv K m" "importStep (mDb m) (mDb m')"
    "sameMem m m'"
  shows "mgrInv K m'" "memOk K (mDb m) m'"
proof -
  have "dbInv K (mDb m')" "acctGet (mDb m') = acctGet (mDb m)"
    using assms(1,2) imported_exists [OF assms(1)] by (auto simp: importStep_def mgrInv_def intro!: dbInv_putAddress)
  then show "mgrInv K m'" "memOk K (mDb m) m'"
    using assms(1,3) memOk_cong [of "mDb m'" "mDb m" K m] memOk_mem [of m' m K] by (auto simp: mgrInv_def sameMem_def)
qed

lemma safe_import:
  assumes "\<And>m r m'. f m = (r, m') \<Longrightarrow> sameMem m m' \<and> importStep (mDb m) (mDb m')"
  shows "safe K f"
proof (rule safeI)
  fix m e m' assume "mgrInv K m" "f m = (Inl e, m')"
  with assms [of m "Inl e" m'] show "memOk K (mDb m) m'" by (intro mgrInv_import(2)) simp_all
next
  fix m x m' assume "mgrInv K m" "f m = (Inr x, m')"
  with assms [of m "Inr x" m'] show "mgrInv K m' \<and> mPending m' = mPending m"
    using mgrInv_import(1) [of K m m'] by (simp add: sameMem_def)
qed

lemma safe_ImportPublicKey: "safe K (ImportPublicKey K now pub bs)"
  by (rule safe_import) (auto simp: ImportPublicKey_def importPublicKey_def toImportedManagedAddress_def cacheImported_def
    updateStartBlock_def putImportedAddress_def bnd_def orFail_cases sameMem_def Let_def split: if_splits option.splits)

lemma safe_ImportPrivateKey: "safe K (ImportPrivateKey K now net priv pub bs)"
  by (rule safe_import) (auto simp: ImportPrivateKey_def importPublicKey_def toImportedManagedAddress_def cacheImported_def
    updateStartBlock_def putImportedAddress_def bnd_def orFail_cases sameMem_def Let_def split: if_splits option.splits)

lemma safe_importScriptAddress: "safe K (importScriptAddress K now ident scr bs witness secret)"
  by (rule safe_import) (auto simp: importScriptAddress_def putScriptAddress_def putWitnessScriptAddress_def
    bnd_def orFail_cases sameMem_def Let_def split: if_splits option.splits)

section \<open>Locking and unlocking\<close>

text \<open>While \<open>Unlock\<close> runs some accounts have their private key and some do not.\<close>

definition memMid :: "('k, 'a) keyFns \<Rightarrow> scopeNs \<Rightarrow> ('k, 'a) scopedManager \<Rightarrow> bool" where
  "memMid K d m \<longleftrightarrow> (\<forall>account ai. mAcctInfo m account = Some ai \<longrightarrow> (\<exists>p. loaded K d p account ai))"

lemma memOk_memMid: "memOk K d m \<Longrightarrow> memMid K d m"
  by (auto simp: memOk_def memMid_def)

lemma rowAccount_locked:
  "rowAccount K row p gen = Inr ai \<Longrightarrow> rowAccount K row False gen = Inr (ai\<lparr>acctKeyPriv := None\<rparr>)"
  by (auto simp: rowAccount_def split: acctRow.splits option.splits)

lemma loaded_locked: "loaded K d p account ai \<Longrightarrow> loaded K d False account (ai\<lparr>acctKeyPriv := None\<rparr>)"
  unfolding loaded_def using rowAccount_locked [of K _ p "aiGen ai" "bare ai"] by (auto simp: bare_def)

lemma memOk_lockScope: "memMid K d m \<Longrightarrow> memOk K d (lockScope m)"
  by (auto simp: memOk_def memMid_def lockScope_def hasPriv_def intro: loaded_locked)

lemma rowAccount_unlocked:
  assumes "rowAccount K row p gen = Inr ai" "decPriv K (acctKeyEncrypted ai) = Some k" "decPriv K [] = None"
  shows "rowAccount K row True gen = Inr (ai\<lparr>acctKeyPriv := Some k\<rparr>)"
  using assms by (auto simp: rowAccount_def split: acctRow.splits option.splits)

lemma loaded_unlocked:
  assumes "loaded K d p account ai" "decPriv K (acctKeyEncrypted ai) = Some k" "decPriv K [] = None"
  shows "loaded K d True account (ai\<lparr>acctKeyPriv := Some k\<rparr>)"
  using assms rowAccount_unlocked [of K _ p "aiGen ai" "bare ai" k] by (auto simp: loaded_def bare_def)

text \<open>The accounts in \<open>S\<close> have their keys.\<close>

definition unlocking :: "('k, 'a) keyFns \<Rightarrow> ('k, 'a) scopedManager \<Rightarrow> uint32 set \<Rightarrow> ('k, 'a) scopedManager \<Rightarrow> bool" where
  "unlocking K m0 S m \<longleftrightarrow> mDb m = mDb m0 \<and> mLocked m = mLocked m0 \<and> mWatchOnly m = mWatchOnly m0 \<and> mPending m = mPending m0 \<and>
     (\<forall>a ai. mAcctInfo m a = Some ai \<longrightarrow> (\<exists>p. loaded K (mDb m0) p a ai) \<and> (a \<in> S \<longrightarrow> loaded K (mDb m0) True a ai))"

lemma unlocking_memMid: "unlocking K m0 S m \<Longrightarrow> memMid K (mDb m0) m"
  by (simp add: unlocking_def memMid_def)

lemma unlockAccount_run:
  assumes "unlocking K m0 S m" "decPriv K [] = None" "unlockAccount K account m = (r, m')"
  shows "unlocking K m0 S m' \<and> dom (mAcctInfo m') = dom (mAcctInfo m) \<and> (\<forall>x. r = Inr x \<longrightarrow> unlocking K m0 (insert account S) m')"
proof (cases "mAcctInfo m account")
  case None
  with assms show ?thesis by (auto simp: unlockAccount_def unlocking_def)
next
  case (Some ai)
  then obtain p where p: "loaded K (mDb m0) p account ai" using assms(1) by (auto simp: unlocking_def)
  show ?thesis
  proof (cases "decPriv K (acctKeyEncrypted ai)")
    case None
    with assms Some show ?thesis by (auto simp: unlockAccount_def bnd_def)
  next
    case k: (Some k)
    have "m' = m\<lparr>mAcctInfo := (mAcctInfo m)(account \<mapsto> ai\<lparr>acctKeyPriv := Some k\<rparr>)\<rparr>"
      using assms(3) Some k by (simp add: unlockAccount_def bnd_def)
    with assms(1) Some loaded_unlocked [OF p k assms(2)] show ?thesis by (auto simp: unlocking_def)
  qed
qed

lemma unlockAccounts_run:
  assumes "unlocking K m0 S m" "decPriv K [] = None" "forOps (unlockAccount K) accts m = (r, m')"
  shows "unlocking K m0 S m' \<and> dom (mAcctInfo m') = dom (mAcctInfo m) \<and> (\<forall>x. r = Inr x \<longrightarrow> unlocking K m0 (S \<union> set accts) m')"
  using assms(1,3)
proof (induction accts arbitrary: S m)
  case Nil
  then show ?case by simp
next
  case (Cons a accts)
  obtain r1 m1 where u: "unlockAccount K a m = (r1, m1)" by (cases "unlockAccount K a m")
  note k = unlockAccount_run [OF Cons.prems(1) assms(2) u]
  show ?case
  proof (cases r1)
    case (Inl e)
    with Cons.prems(2) u k show ?thesis by (auto simp: bnd_def)
  next
    case (Inr x)
    then have "forOps (unlockAccount K) accts m1 = (r, m')" using Cons.prems(2) u by (simp add: bnd_def)
    from Cons.IH [OF _ this, of "insert a S"] Cons.IH [OF _ this, of S] k Inr show ?thesis by simp
  qed
qed

lemma rowAccount_sel:
  assumes "rowAccount K row p gen = Inr ai"
  shows "decPub K (pubKeyEncrypted row) = Some (acctKeyPub ai)" "\<not> p \<Longrightarrow> acctKeyPriv ai = None"
    "acctName ai = rowName row" "aiNextExternal ai = nextExternalIndex row" "aiNextInternal ai = nextInternalIndex row"
  using assms by (auto simp: rowAccount_def split: acctRow.splits option.splits)

text \<open>The public key of a loaded account is public.\<close>

lemma loaded_public:
  assumes "pubInv K d" "loaded K d p account ai"
  shows "\<not> keyIsPrivate K (acctKeyPub ai)"
  using assms rowAccount_sel(1) [of K _ p "aiGen ai" "bare ai"] by (auto simp: loaded_def pubInv_def bare_def)

lemma deriveKey_private:
  assumes "keyLaws K" "deriveKey K ai branch i priv = Inr key"
  shows "keyIsPrivate K key = keyIsPrivate K (if priv then the (acctKeyPriv ai) else acctKeyPub ai)"
  using assms by (auto simp: deriveKey_def keyLaws_def split: option.splits deriveResult.splits if_splits)

text \<open>A key to derive whose account is not cached: the account is loaded without its private key, and the
  derivation fails.\<close>

lemma unlockDerive_run:
  assumes laws: "keyLaws K" and inv: "pubInv K (mDb m0)" and locked: "mLocked m0"
    and u: "unlocking K m0 UNIV m" and run: "unlockDerive K pb info m = (r, m')"
  shows "memMid K (mDb m0) m' \<and> (\<forall>x. r = Inr x \<longrightarrow> unlocking K m0 UNIV m')"
proof -
  obtain ma branch i where info: "info = (ma, branch, i)" by (cases info)
  let ?a = "managedAccount ma"
  have db: "mDb m = mDb m0" "\<not> hasPriv m" using u locked by (auto simp: unlocking_def hasPriv_def)
  obtain r1 m1 where l: "loadAccountInfo K ?a m = (r1, m1)" by (cases "loadAccountInfo K ?a m")
  show ?thesis
  proof (cases "mAcctInfo m ?a")
    case (Some ai)
    with run show ?thesis using u unlocking_memMid [OF u]
      by (auto simp: info unlockDerive_def deriveKeyFromPath_def loadAccountInfo_cached bnd_def Let_def orFail_cases
        memMid_def unlocking_def split: sum.splits if_splits option.splits)
  next
    case None
    from loadAccountInfo_uncached [OF None l] show ?thesis
    proof (elim disjE exE conjE)
      fix e assume "r1 = Inl e" "mAcctInfo m1 = mAcctInfo m"
      then show ?thesis using run l unlocking_memMid [OF u]
        by (auto simp: info unlockDerive_def deriveKeyFromPath_def bnd_def memMid_def)
    next
      fix row ai m2 ext inn
      assume row: "acctGet (mDb m) ?a = Some row" "rowAccount K row (hasPriv m) (mGen m) = Inr ai"
        and m2: "mAcctInfo m2 = mAcctInfo m"
        and r1: "r1 = Inr (ai\<lparr>lastExternalAddr := Some ext, lastInternalAddr := Some inn\<rparr>)"
        and m1: "m1 = m2\<lparr>mAcctInfo := (mAcctInfo m2)(?a \<mapsto> ai\<lparr>lastExternalAddr := Some ext, lastInternalAddr := Some inn\<rparr>),
          mGen := mGen m2 + 1\<rparr>"
      let ?ai = "ai\<lparr>lastExternalAddr := Some ext, lastInternalAddr := Some inn\<rparr>"
      have ld: "loaded K (mDb m0) (hasPriv m) ?a ?ai" using loadedI [OF row] db by simp
      have none: "acctKeyPriv ?ai = None" using rowAccount_sel(2) [OF row(2) db(2)] by simp
      have "\<not> keyIsPrivate K key" if "deriveKey K ?ai branch i False = Inr key" for key
        using deriveKey_private [OF laws that] loaded_public [OF inv ld] by simp
      then have "r \<noteq> Inr x \<and> m' = m1" for x
        using run l none by (auto simp: info unlockDerive_def deriveKeyFromPath_def bnd_def r1 split: sum.splits if_splits)
      moreover have "memMid K (mDb m0) m1"
        using ld unlocking_memMid [OF u] by (auto simp: memMid_def m1 m2)
      ultimately show ?thesis by blast
    qed
  qed
qed

lemma unlockDerives_run:
  assumes laws: "keyLaws K" and inv: "pubInv K (mDb m0)" and locked: "mLocked m0"
    and u: "unlocking K m0 UNIV m" and run: "forOps (unlockDerive K pb) infos m = (r, m')"
  shows "memMid K (mDb m0) m' \<and> (\<forall>x. r = Inr x \<longrightarrow> unlocking K m0 UNIV m')"
  using u run
proof (induction infos arbitrary: m)
  case Nil
  then show ?case using unlocking_memMid by auto
next
  case (Cons info infos)
  obtain r1 m1 where d: "unlockDerive K pb info m = (r1, m1)" by (cases "unlockDerive K pb info m")
  from unlockDerive_run [OF laws inv locked Cons.prems(1) d] Cons d show ?case
    by (cases r1) (auto simp: bnd_def)
qed

lemma unlocking_all: "unlocking K m0 S m \<Longrightarrow> dom (mAcctInfo m) \<subseteq> S \<Longrightarrow> unlocking K m0 UNIV m"
  unfolding unlocking_def by (meson domI subsetD)

lemma quiet_forOps [quiet_intros]: "(\<And>x. quiet K (f x)) \<Longrightarrow> quiet K (forOps f xs)"
  by (induction xs) (auto intro!: quiet_intros)

lemma quiet_unlockDerive [quiet_intros]: "quiet K (unlockDerive K pb info)"
  unfolding unlockDerive_def by (intro quiet_intros)

lemma Unlock_inv:
  assumes laws: "keyLaws K" and inv: "mgrInv K m" and accts: "dom (mAcctInfo m) \<subseteq> set accts"
    and run: "Unlock K pb ok accts m = (r, m')"
  shows "mgrInv K m' \<and> mDb m' = mDb m"
proof -
  let ?f = "bnd (forOps (unlockAccount K) accts) (\<lambda>_. look (\<lambda>m. forOps (unlockDerive K pb) (mDeriveOnUnlock m)))"
  have db: "dbInv K (mDb m)" "memOk K (mDb m) m" using inv by (simp_all add: mgrInv_def)
  have lock: "mgrInv K (lockScope m1) \<and> mDb (lockScope m1) = mDb m" if "memMid K (mDb m) m1" "mDb m1 = mDb m" for m1
    using memOk_lockScope [OF that(1)] db that(2) by (simp add: mgrInv_def lockScope_def)
  show ?thesis
  proof (cases "mWatchOnly m \<or> \<not> mLocked m \<or> \<not> ok")
    case True
    then show ?thesis using run inv lock [OF memOk_memMid [OF db(2)]] by (auto simp: Unlock_def split: if_splits)
  next
    case False
    have "unlocking K m {} m" using db(2) by (auto simp: unlocking_def memOk_def)
    moreover obtain r1 m1 where f1: "forOps (unlockAccount K) accts m = (r1, m1)" by (cases "forOps (unlockAccount K) accts m")
    ultimately have k: "unlocking K m {} m1" "dom (mAcctInfo m1) = dom (mAcctInfo m)" "\<And>x. r1 = Inr x \<Longrightarrow> unlocking K m (set accts) m1"
      using unlockAccounts_run [of K m "{}" m accts r1 m1] laws by (auto simp: keyLaws_def)
    have m1: "memMid K (mDb m) m1" "mDb m1 = mDb m" using unlocking_memMid [OF k(1)] k(1) by (simp_all add: unlocking_def)
    show ?thesis
    proof (cases r1)
      case (Inl e)
      then have "m' = lockScope m1" using run False f1 by (simp add: Unlock_def bnd_def)
      then show ?thesis using lock [OF m1] by simp
    next
      case (Inr x)
      have all: "unlocking K m UNIV m1" using k(3) [OF Inr] accts k(2) by (intro unlocking_all) simp_all
      obtain r2 m2 where f2: "forOps (unlockDerive K pb) (mDeriveOnUnlock m1) m1 = (r2, m2)"
        by (cases "forOps (unlockDerive K pb) (mDeriveOnUnlock m1) m1")
      have "quiet K (forOps (unlockDerive K pb) (mDeriveOnUnlock m1))" by (intro quiet_intros)
      from quietD [OF this f2] m1 have m2: "mDb m2 = mDb m" by (simp add: frame_def)
      have d: "memMid K (mDb m) m2" "\<And>x. r2 = Inr x \<Longrightarrow> unlocking K m UNIV m2"
        using unlockDerives_run [OF laws _ _ all f2] db(1) False by (auto simp: dbInv_def)
      have eq: "?f m = (r2, m2)" using f1 f2 Inr by (simp add: bnd_def)
      show ?thesis
      proof (cases r2)
        case (Inl e)
        then have "m' = lockScope m2" using run False eq by (simp add: Unlock_def)
        then show ?thesis using lock [OF d(1) m2] by simp
      next
        case (Inr y)
        then have m': "m' = m2\<lparr>mLocked := False\<rparr>" using run False eq by (simp add: Unlock_def)
        have "memOk K (mDb m) m'"
          using d(2) [OF Inr] False by (auto simp: m' memOk_def unlocking_def hasPriv_def)
        then show ?thesis using db(1) m2 by (simp add: mgrInv_def m')
      qed
    qed
  qed
qed

end
