(* ===== verification/Addr_Next.thy ===== *)
theory Addr_Next
  imports Addr_Accounts
begin

text \<open>
  New addresses: \<open>nextAddresses\<close> with its commit closure and \<open>extendAddresses\<close>.  Both write
  their addresses one by one; the locale \<open>address_writer\<close> is what such a writer promises, and the
  two that the code has are interpretations of it.
\<close>

section \<open>Writing addresses\<close>

definition sameCache :: "('k, 'a) scopedManager \<Rightarrow> ('k, 'a) scopedManager \<Rightarrow> bool" where
  "sameCache m m' \<longleftrightarrow> mAcctInfo m' = mAcctInfo m \<and> mLocked m' = mLocked m \<and> mWatchOnly m' = mWatchOnly m \<and>
     mSchema m' = mSchema m \<and> mPending m' = mPending m"

lemma sameCache_refl [simp]: "sameCache m m" by (simp add: sameCache_def)

lemma sameCache_trans: "sameCache m1 m2 \<Longrightarrow> sameCache m2 m3 \<Longrightarrow> sameCache m1 m3" by (simp add: sameCache_def)

lemma sameCache_upd [simp]:
  "sameCache m (m\<lparr>mDb := d\<rparr>)" "sameCache m (m\<lparr>mAddrs := f\<rparr>)" "sameCache m (m\<lparr>mDeriveOnUnlock := q\<rparr>)"
  by (simp_all add: sameCache_def)

definition chainRow :: "uint32 \<Rightarrow> 64 word \<Rightarrow> 'a unlockDeriveInfo \<Rightarrow> addrRow" where
  "chainRow account now info =
     \<lparr>adAccount = account, adTime = now, adSync = 2, adData = ChainAddr (fst (snd info)) (snd (snd info))\<rparr>"

definition writeAddress :: "('k, 'a) keyFns \<Rightarrow> 64 word \<Rightarrow> uint32 \<Rightarrow> 'a unlockDeriveInfo \<Rightarrow> scopeNs \<Rightarrow> mgr_error + scopeNs" where
  "writeAddress K now account info =
     putChainedAddress (addrHash K (maAddress (fst info))) account now 2 (fst (snd info)) (snd (snd info))"

definition addrRows ::
  "('k, 'a) keyFns \<Rightarrow> 64 word \<Rightarrow> uint32 \<Rightarrow> 'a unlockDeriveInfo list \<Rightarrow> (hash \<rightharpoonup> addrRow) \<Rightarrow> (hash \<rightharpoonup> addrRow)" where
  "addrRows K now account infos f =
     fold (\<lambda>info f. f(addrHash K (maAddress (fst info)) \<mapsto> chainRow account now info)) infos f"

lemma addrRows_simps [simp]:
  "addrRows K now account [] f = f"
  "addrRows K now account (info # infos) f =
     addrRows K now account infos (f(addrHash K (maAddress (fst info)) \<mapsto> chainRow account now info))"
  by (simp_all add: addrRows_def)

definition lastIdx :: "'a unlockDeriveInfo list \<Rightarrow> uint32" where
  "lastIdx infos = snd (snd (last infos))"

lemma withNextIndex_twice [simp]: "withNextIndex b j (withNextIndex b i row) = withNextIndex b j row"
  by (cases row) (simp_all add: withNextIndex_def)

locale address_writer =
  fixes K :: "('k, 'a) keyFns" and now :: "64 word" and account :: uint32 and ai :: "('k, 'a) accountInfo"
    and st :: "'a unlockDeriveInfo \<Rightarrow> ('k, 'a, unit) op"
  assumes writes: "mAcctInfo m account = Some ai \<Longrightarrow> st info m = (r, m') \<Longrightarrow>
    sameCache m m' \<and> (\<forall>x. r = Inr x \<longrightarrow> writeAddress K now account info (mDb m) = Inr (mDb m'))"
begin

lemma run:
  assumes "mAcctInfo m account = Some ai" "forOps st infos m = (r, m')"
  shows "sameCache m m'"
  using assms
proof (induction infos arbitrary: m)
  case (Cons info infos)
  obtain r1 m1 where s: "st info m = (r1, m1)" by (cases "st info m")
  from writes [OF Cons.prems(1) s] have c: "sameCache m m1" by blast
  with Cons.prems(1) have "mAcctInfo m1 account = Some ai" by (simp add: sameCache_def)
  with Cons s c show ?case by (cases r1) (auto simp: bnd_def intro: sameCache_trans)
qed simp

lemma run_ok:
  assumes "mAcctInfo m account = Some ai" "forOps st infos m = (Inr x, m')"
    and "dbInv K (mDb m)" "acctGet (mDb m) account = Some row" "\<forall>info \<in> set infos. fst (snd info) = branch"
  shows "dbInv K (mDb m') \<and>
    acctGet (mDb m') = (acctGet (mDb m))(account \<mapsto> (if infos = [] then row else withNextIndex branch (lastIdx infos) row)) \<and>
    Get (addrBucket (mDb m')) = addrRows K now account infos (Get (addrBucket (mDb m)))"
  using assms
proof (induction infos arbitrary: m row)
  case Nil
  then show ?case by (auto simp: fun_upd_idem)
next
  case (Cons info infos)
  obtain u m1 where s: "st info m = (Inr u, m1)" "forOps st infos m1 = (Inr x, m')"
    using Cons.prems(2) by (auto elim: bnd_InrE)
  let ?row = "withNextIndex branch (snd (snd info)) row"
  from writes [OF Cons.prems(1) s(1)] have w: "sameCache m m1" "writeAddress K now account info (mDb m) = Inr (mDb m1)" by simp_all
  note db = dbInv_putChainedAddress [OF Cons.prems(3) w(2) [unfolded writeAddress_def]]
  have a: "acctGet (mDb m1) = (acctGet (mDb m))(account \<mapsto> ?row)" using db(2) Cons.prems(4,5) by auto
  have "mAcctInfo m1 account = Some ai" "acctGet (mDb m1) account = Some ?row" "\<forall>info \<in> set infos. fst (snd info) = branch"
    using w(1) Cons.prems a by (auto simp: sameCache_def)
  note ih = Cons.IH [OF this(1) s(2) db(1) this(2,3)]
  have b: "Get (addrBucket (mDb m1)) = (Get (addrBucket (mDb m)))(addrHash K (maAddress (fst info)) \<mapsto> chainRow account now info)"
    unfolding chainRow_def by (rule db(3))
  have "acctGet (mDb m') = (acctGet (mDb m))(account \<mapsto>
      (if info # infos = [] then row else withNextIndex branch (lastIdx (info # infos)) row))"
    using ih a by (cases infos) (simp_all add: lastIdx_def fun_eq_iff)
  moreover have "Get (addrBucket (mDb m')) = addrRows K now account (info # infos) (Get (addrBucket (mDb m)))"
    unfolding addrRows_simps b [symmetric] using ih by blast
  ultimately show ?case using ih by blast
qed

end

interpretation plain: address_writer K now account ai "storeAddress K now account" for K now account ai
  by unfold_locales (auto simp: storeAddress_def writeAddress_def split: prod.splits sum.splits)

lemma chainAddress_cached:
  assumes "mAcctInfo m account = Some ai" "rowInterfaceToManaged K (chainRow account now info) m = (r, m')"
  shows "sameCache m m' \<and> mDb m' = mDb m"
  using assms
  by (auto simp: rowInterfaceToManaged_def chainRow_def chainAddressRowToManaged_def deriveKeyFromPath_def keyToManaged_def
    loadAccountInfo_cached bnd_def Let_def split: sum.splits if_splits)

lemma writeAddress_row:
  "writeAddress K now account info d = Inr d' \<Longrightarrow>
   fetchAddressByHash d' (addrHash K (maAddress (fst info))) = Inr (chainRow account now info)"
  by (auto simp: writeAddress_def putChainedAddress_def chainRow_def putAddress_def putAddrAccountIndex_def putAccountRow_def
    fetchAddressByHash_def Let_def split: option.splits)

lemma storeAddress_cases:
  assumes "storeAddress K now account info m = (r, m')"
  obtains e where "r = Inl e" "m' = m"
  | d where "r = Inr ()" "m' = m\<lparr>mDb := d\<rparr>" "writeAddress K now account info (mDb m) = Inr d"
  using assms that by (auto simp: storeAddress_def writeAddress_def split: prod.splits sum.splits)

lemma storeAndCheck_run:
  assumes "mAcctInfo m account = Some ai" "storeAndCheck K now account info m = (r, m')"
  shows "sameCache m m' \<and> (\<forall>x. r = Inr x \<longrightarrow> writeAddress K now account info (mDb m) = Inr (mDb m'))"
proof -
  obtain r1 m1 where s: "storeAddress K now account info m = (r1, m1)" by (cases "storeAddress K now account info m")
  then show ?thesis
  proof (cases rule: storeAddress_cases)
    case (1 e)
    with assms(2) s show ?thesis by (auto simp: storeAndCheck_def bnd_def)
  next
    case (2 d)
    obtain r2 m2 where row: "rowInterfaceToManaged K (chainRow account now info) m1 = (r2, m2)"
      by (cases "rowInterfaceToManaged K (chainRow account now info) m1")
    have k: "sameCache m m2 \<and> mDb m2 = d"
      using chainAddress_cached [of m1 account ai, OF _ row] assms(1) 2 by (auto simp: sameCache_def)
    then show ?thesis
      using assms(2) s 2 row writeAddress_row [OF 2(3)]
      by (cases r2) (auto simp: storeAndCheck_def loadAndCacheAddress_def bnd_def sameCache_def split: if_splits)
  qed
qed

interpretation checked: address_writer K now account ai "storeAndCheck K now account" for K now account ai
  by unfold_locales (rule storeAndCheck_run)

section \<open>Deriving the addresses\<close>

text \<open>The children \<open>derive\<close> from the index \<open>i\<close> on: \<open>is\<close> are the next valid ones, the ones between are invalid.\<close>

fun nextOnes :: "(uint32 \<Rightarrow> 'k deriveResult) \<Rightarrow> uint32 \<Rightarrow> (uint32 \<times> 'k) list \<Rightarrow> bool" where
  "nextOnes derive i [] \<longleftrightarrow> True"
| "nextOnes derive i ((j, k) # rest) \<longleftrightarrow>
     i \<le> j \<and> derive j = Derived k \<and> (\<forall>x. i \<le> x \<longrightarrow> x < j \<longrightarrow> derive x = InvalidChild) \<and> nextOnes derive (j + 1) rest"

lemma nextValid_step:
  assumes "i \<le> j" "derive j = Derived k" "\<And>x. i \<le> x \<Longrightarrow> x < j \<Longrightarrow> derive x = InvalidChild"
  shows "nextValid derive i = Some (Inr (k, j + 1))"
  using assms
proof (induction "unat (j - i)" arbitrary: i)
  case 0
  then have "i = j" by (simp add: unat_eq_0)
  with 0 show ?case by (simp add: nextValid.simps)
next
  case (Suc n)
  then have ne: "i \<noteq> j" by auto
  then have lt: "unat i < unat j" using Suc.prems(1) by (simp add: word_le_nat_alt word_unat_eq_iff)
  then have i1: "unat (i + 1) = Suc (unat i)" using unsigned_less [of j, where ?'a = nat] by (simp add: unat_word_ariths)
  have le: "i + 1 \<le> j" using lt by (simp add: word_le_nat_alt i1)
  have n: "n = unat (j - (i + 1))" using Suc.hyps(2) le Suc.prems(1) i1 by (simp add: unat_sub)
  have "derive x = InvalidChild" if "i + 1 \<le> x" "x < j" for x
    using Suc.prems(3) [of x] that i1 by (simp add: word_le_nat_alt)
  from Suc.hyps(1) [OF n le Suc.prems(2) this] have "nextValid derive (i + 1) = Some (Inr (k, j + 1))" .
  then show ?case using Suc.prems(3) [of i] lt by (subst nextValid.simps) (simp add: word_less_nat_alt)
qed

definition ofBranch :: "uint32 \<Rightarrow> 'a unlockDeriveInfo list \<Rightarrow> uint32 \<Rightarrow> uint32 \<Rightarrow> bool" where
  "ofBranch branch infos i next \<longleftrightarrow>
     (\<forall>info \<in> set infos. fst (snd info) = branch) \<and> next = (if infos = [] then i else lastIdx infos + 1)"

lemma ofBranch_Cons: "ofBranch branch infos (j + 1) nxt \<Longrightarrow> ofBranch branch ((ma, branch, j) # infos) i nxt"
  by (auto simp: ofBranch_def lastIdx_def)

lemma makeAddresses_shape:
  "makeAddresses derive mk branch n i = Inr (infos, nxt) \<Longrightarrow> ofBranch branch infos i nxt \<and> length infos = n"
proof (induction n arbitrary: i infos)
  case 0
  then show ?case by (simp add: ofBranch_def)
next
  case (Suc n)
  from Suc.prems obtain k j ma rest where s: "nextChild derive i = Inr (k, j)" "mk k (j - 1) = Inr ma"
    "makeAddresses derive mk branch n j = Inr (rest, nxt)" "infos = (ma, branch, j - 1) # rest"
    by (auto split: sum.splits)
  with Suc.IH [OF s(3)] ofBranch_Cons [of branch rest "j - 1" nxt ma i] show ?case by simp
qed

lemma makeAddresses_ones:
  assumes "nextOnes derive i ones" "\<forall>(j, k) \<in> set ones. mk k j = Inr (f k j)"
  shows "makeAddresses derive mk branch (length ones) i =
    Inr (map (\<lambda>(j, k). (f k j, branch, j)) ones, if ones = [] then i else fst (last ones) + 1)"
  using assms
proof (induction ones arbitrary: i)
  case (Cons p ones)
  obtain j k where p: "p = (j, k)" by (cases p)
  have "nextChild derive i = Inr (k, j + 1)" using Cons.prems(1) nextValid_step [of i j derive k] by (simp add: p nextChild_def)
  with Cons p show ?case by simp
qed simp

fun extendOk :: "uint32 \<Rightarrow> uint32 \<Rightarrow> uint32 \<Rightarrow> mgr_error + 'a unlockDeriveInfo list \<times> uint32 \<Rightarrow> bool" where
  "extendOk branch lastIndex i (Inl e) \<longleftrightarrow> True"
| "extendOk branch lastIndex i (Inr (infos, nxt)) \<longleftrightarrow> ofBranch branch infos i nxt \<and> (i \<le> lastIndex \<longrightarrow> infos \<noteq> [])"

lemma extendFrom_shape: "extendFrom derive mk branch lastIndex i = Some r \<Longrightarrow> extendOk branch lastIndex i r"
proof (erule extendFrom.raw_induct [where P = "\<lambda>derive mk branch lastIndex i r. extendOk branch lastIndex i r", rotated])
  fix ext derive mk branch lastIndex i and r :: "mgr_error + 'a unlockDeriveInfo list \<times> uint32"
  assume ih: "\<And>derive mk branch lastIndex i r. ext derive mk branch lastIndex i = Some r \<Longrightarrow> extendOk branch lastIndex i r"
    and body: "(if i \<le> lastIndex then Option.bind (nextValid derive i) (\<lambda>r. case r of Inl e \<Rightarrow> Some (Inl e)
        | Inr (k, i) \<Rightarrow> (case mk k (i - 1) of Inl e \<Rightarrow> Some (Inl e)
           | Inr ma \<Rightarrow> Option.bind (ext derive mk branch lastIndex i)
               (\<lambda>r. Some (map_sum id (\<lambda>(infos, i'). ((ma, branch, i - 1) # infos, i')) r))))
      else Some (Inr ([], i))) = Some r"
  show "extendOk branch lastIndex i r"
  proof (cases "i \<le> lastIndex")
    case False
    with body show ?thesis by (auto simp: ofBranch_def)
  next
    case True
    with body obtain r1 where r1: "nextValid derive i = Some r1" by (auto simp: bind_eq_Some_conv)
    show ?thesis
    proof (cases r1)
      case (Inl e)
      with body True r1 show ?thesis by auto
    next
      case (Inr p)
      obtain k j where p: "p = (k, j)" by (cases p)
      show ?thesis
      proof (cases "mk k (j - 1)")
        case (Inl e)
        with body True r1 Inr p show ?thesis by auto
      next
        case ma: (Inr ma)
        with body True r1 Inr p obtain r2 where r2: "ext derive mk branch lastIndex j = Some r2"
          "r = map_sum id (\<lambda>(infos, i'). ((ma, branch, j - 1) # infos, i')) r2" by (auto simp: bind_eq_Some_conv)
        from ih [OF r2(1)] r2(2) show ?thesis
          using ofBranch_Cons [of branch _ "j - 1" _ ma i] by (cases r2) auto
      qed
    qed
  qed
qed

section \<open>The invariant\<close>

definition branchOf :: "bool \<Rightarrow> uint32" where
  "branchOf internal = (if internal then InternalBranchNum else ExternalBranchNum)"

definition nextOf :: "bool \<Rightarrow> ('k, 'a) accountInfo \<Rightarrow> uint32" where
  "nextOf internal ai = (if internal then aiNextInternal ai else aiNextExternal ai)"

lemma extendAddresses_cases:
  assumes "mAcctInfo m account = Some ai" "extendAddresses K now account lastIndex internal m = (r, m')"
  obtains (same) "m' = m"
  | (store) infos e where "forOps (storeAddress K now account) infos m = (Inl e, m')" "r = Inl e"
  | (extended) infos nxt m1 w where "ofBranch (branchOf internal) infos (nextOf internal ai) nxt" "infos \<noteq> []"
      "forOps (storeAddress K now account) infos m = (Inr (), m1)" "r = Inr ()"
      "m' = (fold (cacheInfo K w) infos m1)\<lparr>mAcctInfo :=
         (mAcctInfo (fold (cacheInfo K w) infos m1))(account \<mapsto> setNext internal nxt (fst (last infos)) ai)\<rparr>"
proof -
  let ?w = "mWatchOnly m \<or> acctKeyPriv ai \<noteq> None"
  let ?acctKey = "if \<not> mLocked m \<and> \<not> ?w then acctKeyPriv ai else Some (acctKeyPub ai)"
  note unf = extendAddresses_def loadAccountInfo_cached [OF assms(1)] Let_def bnd_def
    branchOf_def [symmetric] nextOf_def [symmetric]
  show thesis
  proof (cases "lastIndex < nextOf internal ai \<or> lastIndex > MaxAddressesPerAccount \<or> ?acctKey = None")
    case True
    with assms(2) have "m' = m" by (auto simp: unf split: if_splits)
    then show ?thesis by (rule same)
  next
    case False
    then obtain acctKey where k: "?acctKey = Some acctKey" by blast
    show ?thesis
    proof (cases "deriveNonStandard K acctKey (branchOf internal)")
      case (Derived branchKey)
      let ?mk = "\<lambda>k index. newManagedAddressFromExtKey K
        \<lparr>InternalAccount = account, pathAccount = keyChildIndex K (acctKeyPub ai), pathBranch = branchOf internal,
         pathIndex = index, pathFingerprint = 0\<rparr> k (accountAddrType m ai internal) internal"
      let ?x = "extendFrom (deriveNonStandard K branchKey) ?mk (branchOf internal) lastIndex (nextOf internal ai)"
      obtain res where res: "(case ?x of None \<Rightarrow> Inl MgrHang | Some r \<Rightarrow> r) = res" by blast
      show ?thesis
      proof (cases res)
        case (Inl e)
        with assms(2) False k Derived res have "m' = m" by (simp add: unf)
        then show ?thesis by (rule same)
      next
        case (Inr p)
        obtain infos nxt where p: "p = (infos, nxt)" by (cases p)
        have x: "?x = Some (Inr (infos, nxt))" using res Inr p by (cases ?x) simp_all
        from extendFrom_shape [OF x] False
        have sh: "ofBranch (branchOf internal) infos (nextOf internal ai) nxt" "infos \<noteq> []" by auto
        obtain r1 m1 where f: "forOps (storeAddress K now account) infos m = (r1, m1)"
          by (cases "forOps (storeAddress K now account) infos m")
        show ?thesis
        proof (cases r1)
          case (Inl e)
          with assms(2) False k Derived x f have "m' = m1" "r = Inl e" by (simp_all add: unf)
          with f Inl show ?thesis by (intro store) simp_all
        next
          case (Inr u)
          with assms(2) False k Derived x f show ?thesis by (intro extended [OF sh, of m1 ?w]) (simp_all add: unf)
        qed
      qed
    qed (use assms(2) False k same in \<open>simp_all add: unf\<close>)
  qed
qed

text \<open>The managed address that \<open>nextAddresses\<close> makes of a child.\<close>

definition childAddress ::
  "('k, 'a) keyFns \<Rightarrow> ('k, 'a) scopedManager \<Rightarrow> uint32 \<Rightarrow> ('k, 'a) accountInfo \<Rightarrow> bool \<Rightarrow> 'k \<Rightarrow> 'k \<Rightarrow> uint32 \<Rightarrow>
   mgr_error + 'a ManagedAddress" where
  "childAddress K m account ai internal acctKey k index =
     newManagedAddressFromExtKey K
       \<lparr>InternalAccount = account, pathAccount = keyChildIndex K acctKey, pathBranch = branchOf internal,
        pathIndex = index, pathFingerprint = aiFingerprint ai\<rparr> k (accountAddrType m ai internal) internal"

definition watchOnlyOf :: "('k, 'a) scopedManager \<Rightarrow> ('k, 'a) accountInfo \<Rightarrow> bool" where
  "watchOnlyOf m ai \<longleftrightarrow> mWatchOnly m \<or> acctKeyEncrypted ai = []"

definition signingKey :: "('k, 'a) scopedManager \<Rightarrow> ('k, 'a) accountInfo \<Rightarrow> 'k option" where
  "signingKey m ai = (if \<not> mLocked m \<and> \<not> watchOnlyOf m ai then acctKeyPriv ai else Some (acctKeyPub ai))"

text \<open>\<open>nextAddresses\<close> once the account is cached.\<close>

lemma nextAddresses_cached:
  assumes "mAcctInfo m account = Some ai"
  shows "nextAddresses K now account n internal m =
    (if n > MaxAddressesPerAccount \<or> nextOf internal ai + n > MaxAddressesPerAccount then (Inl ErrTooManyAddresses, m)
     else case signingKey m ai of
       None \<Rightarrow> (Inl MgrPanic, m)
     | Some acctKey \<Rightarrow>
         (case deriveNonStandard K acctKey (branchOf internal) of
            Derived branchKey \<Rightarrow>
              (case makeAddresses (deriveNonStandard K branchKey) (childAddress K m account ai internal acctKey)
                 (branchOf internal) (unat n) (nextOf internal ai) of
                 Inl e \<Rightarrow> (Inl e, m)
               | Inr (infos, nxt) \<Rightarrow>
                   (case forOps (storeAndCheck K now account) infos m of
                      (Inl e, m1) \<Rightarrow> (Inl e, m1)
                    | (Inr u, m1) \<Rightarrow>
                        (Inr (map fst infos), m1\<lparr>mPending := mPending m1 @
                           [\<lparr>cnAccount = account, cnGen = aiGen ai, cnInternal = internal, cnInfos = infos, cnNext = nxt,
                             cnWatchOnly = watchOnlyOf m ai\<rparr>]\<rparr>)))
          | _ \<Rightarrow> (Inl ErrKeyChain, m)))"
proof -
  note unf = nextAddresses_def loadAccountInfo_cached [OF assms] Let_def bnd_def branchOf_def [symmetric] nextOf_def [symmetric]
    watchOnlyOf_def [symmetric] signingKey_def [symmetric] childAddress_def [abs_def]
  show ?thesis
  proof (cases "n > MaxAddressesPerAccount \<or> nextOf internal ai + n > MaxAddressesPerAccount")
    case True
    then show ?thesis by (auto simp: unf)
  next
    case g: False
    show ?thesis
    proof (cases "signingKey m ai")
      case None
      with g show ?thesis by (simp add: unf)
    next
      case k: (Some acctKey)
      show ?thesis
      proof (cases "deriveNonStandard K acctKey (branchOf internal)")
        case (Derived branchKey)
        with g k show ?thesis by (simp add: unf split: sum.split prod.split)
      qed (use g k in \<open>simp_all add: unf\<close>)
    qed
  qed
qed

lemma rowAccount_next:
  "rowAccount K row p gen = Inr ai \<Longrightarrow>
   rowAccount K (withNextIndex (branchOf internal) i row) p gen =
     Inr (if internal then ai\<lparr>aiNextInternal := i + 1\<rparr> else ai\<lparr>aiNextExternal := i + 1\<rparr>)"
  by (auto simp: rowAccount_def withNextIndex_def branchOf_def InternalBranchNum_def ExternalBranchNum_def
    split: acctRow.splits option.splits)

lemma loaded_setNext:
  assumes "loaded K d p account ai" "acctGet d account = Some row"
    and "acctGet d' account = Some (withNextIndex (branchOf internal) i row)"
  shows "loaded K d' p account (setNext internal (i + 1) ma ai)"
  using assms rowAccount_next [of K row p "aiGen ai" "bare ai" internal i]
  by (cases internal) (simp_all add: loaded_def bare_def setNext_def)

lemma fold_cacheInfo: "sameCache m (fold (cacheInfo K w) infos m) \<and> mDb (fold (cacheInfo K w) infos m) = mDb m"
proof (induction infos arbitrary: m)
  case (Cons info infos)
  have "sameCache m (cacheInfo K w info m) \<and> mDb (cacheInfo K w info m) = mDb m" by (simp add: cacheInfo_def sameCache_def)
  with Cons [of "cacheInfo K w info m"] show ?case by (auto intro: sameCache_trans)
qed simp

text \<open>Memory after the addresses are written and the account moved on.\<close>

lemma mgrInv_advance:
  assumes inv: "mgrInv K m" and c: "mAcctInfo m account = Some ai" and same: "sameCache m m1" "mAcctInfo m1 = mAcctInfo m"
    and db: "dbInv K (mDb m1)" and row: "acctGet (mDb m) account = Some row"
    and upd: "acctGet (mDb m1) = (acctGet (mDb m))(account \<mapsto> withNextIndex (branchOf internal) i row)"
  shows "mgrInv K (m1\<lparr>mAcctInfo := (mAcctInfo m1)(account \<mapsto> setNext internal (i + 1) ma ai)\<rparr>)"
proof -
  have hp: "hasPriv m1 = hasPriv m" using same(1) by (simp add: sameCache_def hasPriv_def)
  have old: "loaded K (mDb m) (hasPriv m) a x" if "mAcctInfo m a = Some x" for a x
    using that inv by (simp add: mgrInv_def memOk_def)
  have "loaded K (mDb m1) (hasPriv m) account (setNext internal (i + 1) ma ai)"
    by (rule loaded_setNext [OF old [OF c] row]) (simp add: upd)
  moreover have "loaded K (mDb m1) (hasPriv m) a x" if "a \<noteq> account" "mAcctInfo m a = Some x" for a x
    using old [OF that(2)] that(1) by (simp add: loaded_def upd)
  ultimately show ?thesis using db by (simp add: mgrInv_def memOk_def hp same(2))
qed

lemma memOk_sameCache: "sameCache m m' \<Longrightarrow> memOk K d m' = memOk K d m"
  by (rule memOk_mem) (simp_all add: sameCache_def hasPriv_def)

lemma cached_row: "mgrInv K m \<Longrightarrow> mAcctInfo m account = Some ai \<Longrightarrow> \<exists>row. acctGet (mDb m) account = Some row"
  by (auto simp: mgrInv_def memOk_def loaded_def)

lemma extendAddresses_safe_cached:
  assumes inv: "mgrInv K m" and c: "mAcctInfo m account = Some ai"
    and run: "extendAddresses K now account lastIndex internal m = (r, m')"
  shows "case r of Inl e \<Rightarrow> memOk K (mDb m) m' | Inr x \<Rightarrow> mgrInv K m' \<and> mPending m' = mPending m"
  using c run
proof (cases rule: extendAddresses_cases)
  case same
  with inv show ?thesis by (simp add: mgrInv_def split: sum.split)
next
  case (store infos e)
  from plain.run [OF c store(1)] inv store(2) show ?thesis by (simp add: memOk_sameCache mgrInv_def)
next
  case (extended infos nxt m1 w)
  let ?m = "fold (cacheInfo K w) infos m1"
  obtain row where row: "acctGet (mDb m) account = Some row" using cached_row [OF inv c] by blast
  have br: "\<forall>info\<in>set infos. fst (snd info) = branchOf internal" and nx: "nxt = lastIdx infos + 1"
    using extended(1,2) by (auto simp: ofBranch_def)
  have dbm: "dbInv K (mDb m)" using inv by (simp add: mgrInv_def)
  note ok = plain.run_ok [OF c extended(3) dbm row br]
  have sm: "sameCache m ?m" "mDb ?m = mDb m1"
    using plain.run [OF c extended(3)] fold_cacheInfo [of m1 K w infos] by (auto intro: sameCache_trans)
  have "mgrInv K m'" unfolding extended(5) nx
    by (rule mgrInv_advance [OF inv c]) (use sm ok row extended(2) in \<open>auto simp: sameCache_def\<close>)
  with sm show ?thesis by (simp add: extended(4,5) sameCache_def)
qed

lemma extendAddresses_loads:
  "extendAddresses K now account lastIndex internal =
   bnd (loadAccountInfo K account) (\<lambda>_. extendAddresses K now account lastIndex internal)"
proof
  fix m
  obtain r m1 where l: "loadAccountInfo K account m = (r, m1)" by (cases "loadAccountInfo K account m")
  show "extendAddresses K now account lastIndex internal m =
      bnd (loadAccountInfo K account) (\<lambda>_. extendAddresses K now account lastIndex internal) m"
  proof (cases r)
    case (Inr ai)
    from loadAccountInfo_cached [OF loadAccountInfo_caches [OF l [unfolded Inr]]] l Inr
    show ?thesis unfolding extendAddresses_def by (simp add: bnd_def)
  qed (use l in \<open>simp add: extendAddresses_def bnd_def\<close>)
qed

lemma nextAddresses_loads:
  "nextAddresses K now account n internal =
   bnd (loadAccountInfo K account) (\<lambda>_. nextAddresses K now account n internal)"
proof
  fix m
  obtain r m1 where l: "loadAccountInfo K account m = (r, m1)" by (cases "loadAccountInfo K account m")
  show "nextAddresses K now account n internal m =
      bnd (loadAccountInfo K account) (\<lambda>_. nextAddresses K now account n internal) m"
  proof (cases r)
    case (Inr ai)
    from loadAccountInfo_cached [OF loadAccountInfo_caches [OF l [unfolded Inr]]] l Inr
    show ?thesis unfolding nextAddresses_def by (simp add: bnd_def)
  qed (use l in \<open>simp add: nextAddresses_def bnd_def\<close>)
qed

lemma loads_inv:
  assumes "mgrInv K m" "loadAccountInfo K account m = (r, m1)"
  shows "mgrInv K m1" "mDb m1 = mDb m" "mPending m1 = mPending m" "memOk K (mDb m) m1"
  using quietD [OF quiet_loadAccountInfo assms(2)] assms(1) by (auto simp: mgrInv_def frame_def)

lemma safe_extendAddresses: "safe K (extendAddresses K now account lastIndex internal)"
proof (subst extendAddresses_loads, rule safeI)
  fix m e m'
  assume inv: "mgrInv K m"
    and run: "bnd (loadAccountInfo K account) (\<lambda>_. extendAddresses K now account lastIndex internal) m = (Inl e, m')"
  obtain r m1 where l: "loadAccountInfo K account m = (r, m1)" by (cases "loadAccountInfo K account m")
  note k = loads_inv [OF inv l]
  show "memOk K (mDb m) m'"
  proof (cases r)
    case (Inr ai)
    with run l have "extendAddresses K now account lastIndex internal m1 = (Inl e, m')" by (simp add: bnd_def)
    from extendAddresses_safe_cached [OF k(1) loadAccountInfo_caches [OF l [unfolded Inr]] this] k(2)
    show ?thesis by simp
  qed (use run l k in \<open>simp add: bnd_def\<close>)
next
  fix m x m'
  assume inv: "mgrInv K m"
    and run: "bnd (loadAccountInfo K account) (\<lambda>_. extendAddresses K now account lastIndex internal) m = (Inr x, m')"
  then obtain ai m1 where l: "loadAccountInfo K account m = (Inr ai, m1)"
    "extendAddresses K now account lastIndex internal m1 = (Inr x, m')" by (elim bnd_InrE)
  note k = loads_inv [OF inv l(1)]
  from extendAddresses_safe_cached [OF k(1) loadAccountInfo_caches [OF l(1)] l(2)] k(3)
  show "mgrInv K m' \<and> mPending m' = mPending m" by simp
qed

section \<open>Transactions\<close>

lemma mgrInv_pending [simp]: "mgrInv K (m\<lparr>mPending := p\<rparr>) = mgrInv K m"
  by (simp add: mgrInv_def memOk_def)

lemma mgrInv_restore: "dbInv K (mDb m) \<Longrightarrow> memOk K (mDb m) m' \<Longrightarrow>
    mgrInv K (m'\<lparr>mDb := mDb m, mDbStartBlock := s, mPending := p\<rparr>)"
  by (simp add: mgrInv_def memOk_def)

lemma dbUpdate_safe:
  assumes "safe K f" "mgrInv K m"
  shows "mgrInv K (snd (dbUpdate K f m))"
proof -
  let ?m = "m\<lparr>mPending := []\<rparr>"
  have inv: "mgrInv K ?m" using assms(2) by simp
  obtain r m1 where f: "f ?m = (r, m1)" by (cases "f ?m")
  show ?thesis
  proof (cases r)
    case (Inl e)
    with safeD(1) [OF assms(1) inv, of e m1] f assms(2) show ?thesis
      by (simp add: dbUpdate_def) (simp add: mgrInv_def memOk_def)
  next
    case (Inr x)
    with safeD(2) [OF assms(1) inv, of x m1] f show ?thesis by (simp add: dbUpdate_def bnd_def)
  qed
qed

definition nextClosure ::
  "uint32 \<Rightarrow> ('k, 'a) accountInfo \<Rightarrow> bool \<Rightarrow> 'a unlockDeriveInfo list \<Rightarrow> uint32 \<Rightarrow> bool \<Rightarrow> 'a commitNext" where
  "nextClosure account ai internal infos nxt w =
     \<lparr>cnAccount = account, cnGen = aiGen ai, cnInternal = internal, cnInfos = infos, cnNext = nxt, cnWatchOnly = w\<rparr>"

text \<open>The closure of \<open>nextAddresses\<close> finds its account in the cache.\<close>

lemma onCommit_run:
  assumes "mAcctInfo m account = Some ai" "infos \<noteq> []"
  shows "onCommit K (nextClosure account ai internal infos nxt w) m = (Inr (), (fold (cacheInfo K w) infos m)\<lparr>mAcctInfo :=
    (mAcctInfo m)(account \<mapsto> setNext internal nxt (fst (last infos)) ai)\<rparr>)"
  using assms fold_cacheInfo [of m K w infos] by (simp add: onCommit_def nextClosure_def bnd_def sameCache_def)

lemma nextAddresses_cases:
  assumes c: "mAcctInfo m account = Some ai" and run: "nextAddresses K now account n internal m = (r, m')"
  obtains (same) e where "r = Inl e" "m' = m"
  | (store) infos e where "forOps (storeAndCheck K now account) infos m = (Inl e, m')" "r = Inl e"
  | (stored) infos nxt m1 where "ofBranch (branchOf internal) infos (nextOf internal ai) nxt" "length infos = unat n"
      "forOps (storeAndCheck K now account) infos m = (Inr (), m1)" "r = Inr (map fst infos)"
      "m' = m1\<lparr>mPending := mPending m1 @ [nextClosure account ai internal infos nxt (watchOnlyOf m ai)]\<rparr>"
proof (cases "n > MaxAddressesPerAccount \<or> nextOf internal ai + n > MaxAddressesPerAccount \<or> signingKey m ai = None")
  case True
  with run have "(\<exists>e. r = Inl e) \<and> m' = m" by (auto simp: nextAddresses_cached [OF c] split: if_splits)
  then show ?thesis using same by blast
next
  case g: False
  then obtain acctKey where k: "signingKey m ai = Some acctKey" by blast
  show ?thesis
  proof (cases "deriveNonStandard K acctKey (branchOf internal)")
    case (Derived branchKey)
    let ?mk = "makeAddresses (deriveNonStandard K branchKey) (childAddress K m account ai internal acctKey)
       (branchOf internal) (unat n) (nextOf internal ai)"
    show ?thesis
    proof (cases ?mk)
      case (Inl e)
      with run g k Derived show ?thesis by (intro same) (auto simp: nextAddresses_cached [OF c])
    next
      case (Inr p)
      obtain infos nxt where p: "p = (infos, nxt)" by (cases p)
      note sh = makeAddresses_shape [OF Inr [unfolded p]]
      obtain r1 m1 where f: "forOps (storeAndCheck K now account) infos m = (r1, m1)"
        by (cases "forOps (storeAndCheck K now account) infos m")
      show ?thesis
      proof (cases r1)
        case e: (Inl e)
        with run g k Derived Inr p f show ?thesis by (intro store) (auto simp: nextAddresses_cached [OF c])
      next
        case u: (Inr u)
        with run g k Derived Inr p f sh show ?thesis
          by (intro stored [of infos nxt m1]) (simp_all add: nextAddresses_cached [OF c] nextClosure_def)
      qed
    qed
  qed (use run g k in \<open>intro same; auto simp: nextAddresses_cached [OF c]\<close>)+
qed

lemma forOps_Nil [simp]: "forOps f [] m = (Inr (), m)" by simp

text \<open>A whole transaction of \<open>nextAddresses\<close>, from the state where the account is loaded.\<close>

lemma nextAddresses_commit_cached:
  assumes inv: "mgrInv K m" and c: "mAcctInfo m account = Some ai" and p: "mPending m = []"
    and run: "nextAddresses K now account n internal m = (r, m1)"
  shows "case r of Inl e \<Rightarrow> memOk K (mDb m) m1
    | Inr x \<Rightarrow> mgrInv K (snd (forOps (onCommit K) (mPending m1) (m1\<lparr>mPending := []\<rparr>)))"
  using c run
proof (cases rule: nextAddresses_cases)
  case (same e)
  with inv show ?thesis by (simp add: mgrInv_def)
next
  case (store infos e)
  from checked.run [OF c store(1)] inv store(2) show ?thesis by (simp add: memOk_sameCache mgrInv_def)
next
  case (stored infos nxt m2)
  let ?c = "nextClosure account ai internal infos nxt (watchOnlyOf m ai)"
  have sm: "sameCache m m2" using checked.run [OF c stored(3)] .
  have pend: "mPending m1 = [?c]" "m1\<lparr>mPending := []\<rparr> = m2\<lparr>mPending := []\<rparr>"
    using stored(5) sm p by (simp_all add: sameCache_def)
  show ?thesis
  proof (cases "infos = []")
    case True
    then have "m2 = m" using stored(3) by simp
    with True inv show ?thesis by (simp add: stored(4) pend onCommit_def nextClosure_def bnd_def)
  next
    case False
    define m3 where "m3 = m2\<lparr>mPending := []\<rparr>"
    define m4 where "m4 = fold (cacheInfo K (watchOnlyOf m ai)) infos m3"
    obtain row where row: "acctGet (mDb m) account = Some row" using cached_row [OF inv c] by blast
    have br: "\<forall>info\<in>set infos. fst (snd info) = branchOf internal" and nx: "nxt = lastIdx infos + 1"
      using stored(1) False by (auto simp: ofBranch_def)
    note ok = checked.run_ok [OF c stored(3) _ row br]
    have m3: "sameCache m m3" using sm p by (simp add: m3_def sameCache_def)
    with fold_cacheInfo [of m3 K "watchOnlyOf m ai" infos] have m4: "sameCache m m4" "mDb m4 = mDb m2"
      unfolding m4_def [symmetric] by (auto intro: sameCache_trans simp: m3_def)
    then have ac: "mAcctInfo m3 = mAcctInfo m" "mAcctInfo m4 = mAcctInfo m" using m3 by (simp_all add: sameCache_def)
    have "onCommit K ?c m3 = (Inr (), m4\<lparr>mAcctInfo :=
        (mAcctInfo m4)(account \<mapsto> setNext internal (lastIdx infos + 1) (fst (last infos)) ai)\<rparr>)"
      using onCommit_run [OF c [folded ac(1)] False, where K = K and internal = internal and nxt = nxt and w = "watchOnlyOf m ai"] unfolding m4_def [symmetric] ac nx .
    moreover have "mgrInv K (m4\<lparr>mAcctInfo := (mAcctInfo m4)(account \<mapsto> setNext internal (lastIdx infos + 1) (fst (last infos)) ai)\<rparr>)"
      by (rule mgrInv_advance [OF inv c m4(1) ac(2)]) (use m4 ok row False inv in \<open>auto simp: mgrInv_def\<close>)
    ultimately show ?thesis by (simp add: stored(4) pend bnd_def m3_def)
  qed
qed

lemma dbUpdate_nextAddresses:
  assumes inv: "mgrInv K m"
  shows "mgrInv K (snd (dbUpdate K (nextAddresses K now account n internal) m))"
proof -
  let ?m = "m\<lparr>mPending := []\<rparr>"
  have inv0: "mgrInv K ?m" using inv by simp
  have db: "dbInv K (mDb m)" using inv by (simp add: mgrInv_def)
  obtain r0 m0 where l: "loadAccountInfo K account ?m = (r0, m0)" by (cases "loadAccountInfo K account ?m")
  note k = loads_inv [OF inv0 l]
  show ?thesis
  proof (cases r0)
    case (Inl e)
    then have "nextAddresses K now account n internal ?m = (Inl e, m0)"
      using l by (subst nextAddresses_loads) (simp add: bnd_def)
    then show ?thesis using mgrInv_restore [OF db, of m0] k(4) by (simp add: dbUpdate_def)
  next
    case (Inr ai)
    obtain r1 m1 where x: "nextAddresses K now account n internal m0 = (r1, m1)"
      by (cases "nextAddresses K now account n internal m0")
    have eq: "nextAddresses K now account n internal ?m = (r1, m1)"
      using l Inr x by (subst nextAddresses_loads) (simp add: bnd_def)
    have p: "mPending m0 = []" using k(3) by simp
    note c = nextAddresses_commit_cached [OF k(1) loadAccountInfo_caches [OF l [unfolded Inr]] p x]
    show ?thesis
    proof (cases r1)
      case e: (Inl e)
      then show ?thesis using eq c mgrInv_restore [OF db, of m1] k(2) by (simp add: dbUpdate_def)
    next
      case u: (Inr y)
      obtain r2 m2 where f: "forOps (onCommit K) (mPending m1) (m1\<lparr>mPending := []\<rparr>) = (r2, m2)"
        by (cases "forOps (onCommit K) (mPending m1) (m1\<lparr>mPending := []\<rparr>)")
      with c u eq show ?thesis by (cases r2) (simp_all add: dbUpdate_def bnd_def)
    qed
  qed
qed

section \<open>New addresses are the next valid children\<close>

definition pathKey :: "('k, 'a) scopedManager \<Rightarrow> ('k, 'a) accountInfo \<Rightarrow> 'k" where
  "pathKey m ai = (if hasPriv m \<and> acctKeyPriv ai \<noteq> None then the (acctKeyPriv ai) else acctKeyPub ai)"

lemma rowAccount_keys:
  assumes "rowAccount K row p gen = Inr ai"
  shows "\<not> p \<Longrightarrow> acctKeyPriv ai = None"
    and "p \<Longrightarrow> decPriv K [] = None \<Longrightarrow> acctKeyPriv ai = None \<longleftrightarrow> acctKeyEncrypted ai = []"
  using assms by (auto simp: rowAccount_def split: acctRow.splits option.splits)

lemma signingKey_eq:
  assumes "loaded K d (hasPriv m) account ai" "decPriv K [] = None"
  shows "signingKey m ai = Some (pathKey m ai)"
proof -
  from assms(1) obtain row where row: "rowAccount K row (hasPriv m) (aiGen ai) = Inr (bare ai)" by (auto simp: loaded_def)
  have "hasPriv m \<and> acctKeyPriv ai \<noteq> None \<longleftrightarrow> \<not> mLocked m \<and> \<not> watchOnlyOf m ai"
    using rowAccount_keys [OF row] assms(2) by (auto simp: hasPriv_def watchOnlyOf_def bare_def)
  then show ?thesis by (auto simp: signingKey_def pathKey_def)
qed

lemma accountAddrType_cong: "mSchema m' = mSchema m \<Longrightarrow> accountAddrType m' ai internal = accountAddrType m ai internal"
  by (simp add: accountAddrType_def split: option.split)

lemma storeAndCheck_ok:
  assumes c: "mAcctInfo m account = Some ai" and row: "acctGet (mDb m) account \<noteq> None"
    and d: "deriveNonStandard K (pathKey m ai) (branchOf internal) = Derived branchKey" "deriveNonStandard K branchKey j = Derived k"
    and a: "keyAddress K k (accountAddrType m ai internal) = Some (maAddress ma)"
  shows "\<exists>m'. storeAndCheck K now account (ma, branchOf internal, j) m = (Inr (), m')"
proof -
  let ?info = "(ma, branchOf internal, j)"
  obtain d' where w: "writeAddress K now account ?info (mDb m) = Inr d'"
    using row by (cases "acctGet (mDb m) account")
      (auto simp: writeAddress_def putChainedAddress_def Let_def acctGet_def [symmetric])
  let ?m = "m\<lparr>mDb := d'\<rparr>"
  have s: "storeAddress K now account ?info m = (Inr (), ?m)"
    using w by (simp add: storeAddress_def writeAddress_def)
  have int: "branchOf internal = InternalBranchNum \<longleftrightarrow> internal"
    by (simp add: branchOf_def InternalBranchNum_def ExternalBranchNum_def)
  have key: "deriveKey K ai (branchOf internal) j (hasPriv m \<and> acctKeyPriv ai \<noteq> None) = Inr k"
    using d by (auto simp: deriveKey_def pathKey_def split: option.splits if_splits)
  have "\<exists>dk m'. rowInterfaceToManaged K (chainRow account now ?info) ?m = (Inr dk, m') \<and> maAddress dk = maAddress ma"
    using c key a
    by (cases "keyIsPrivate K k") (auto simp: rowInterfaceToManaged_def chainRow_def chainAddressRowToManaged_def deriveKeyFromPath_def keyToManaged_def
      loadAccountInfo_cached bnd_def Let_def newManagedAddressFromExtKey_def int accountAddrType_cong [of "m\<lparr>mDb := d'\<rparr>" m])
  then show ?thesis using s writeAddress_row [OF w]
    by (auto simp: storeAndCheck_def loadAndCacheAddress_def bnd_def)
qed

lemma sameCache_pathKey: "sameCache m m' \<Longrightarrow> pathKey m' ai = pathKey m ai"
  by (simp add: sameCache_def pathKey_def hasPriv_def)

lemma writeAddress_acct: "writeAddress K now account info d = Inr d' \<Longrightarrow> acctGet d' account \<noteq> None"
  by (auto simp: writeAddress_def putChainedAddress_def Let_def split: option.splits)

text \<open>Writing a list of children that derive and have an address succeeds.\<close>

lemma storeAll_ok:
  assumes "mAcctInfo m account = Some ai" "acctGet (mDb m) account \<noteq> None"
    and "deriveNonStandard K (pathKey m ai) (branchOf internal) = Derived branchKey"
    and "\<forall>(ma, b, j) \<in> set infos. b = branchOf internal \<and> (\<exists>k. deriveNonStandard K branchKey j = Derived k \<and>
      keyAddress K k (accountAddrType m ai internal) = Some (maAddress ma))"
  shows "\<exists>m'. forOps (storeAndCheck K now account) infos m = (Inr (), m')"
  using assms
proof (induction infos arbitrary: m)
  case (Cons info infos)
  obtain ma j where info: "info = (ma, branchOf internal, j)" using Cons.prems(4) by (cases info) auto
  then obtain k where k: "deriveNonStandard K branchKey j = Derived k" "keyAddress K k (accountAddrType m ai internal) = Some (maAddress ma)"
    using Cons.prems(4) by auto
  obtain m1 where s: "storeAndCheck K now account info m = (Inr (), m1)"
    using storeAndCheck_ok [OF Cons.prems(1-3) k] info by blast
  from storeAndCheck_run [OF Cons.prems(1) s] have w: "sameCache m m1" "writeAddress K now account info (mDb m) = Inr (mDb m1)" by simp_all
  have "\<exists>m'. forOps (storeAndCheck K now account) infos m1 = (Inr (), m')"
  proof (rule Cons.IH)
    show "mAcctInfo m1 account = Some ai" using w(1) Cons.prems(1) by (simp add: sameCache_def)
    show "acctGet (mDb m1) account \<noteq> None" by (rule writeAddress_acct [OF w(2)])
    show "deriveNonStandard K (pathKey m1 ai) (branchOf internal) = Derived branchKey"
      using Cons.prems(3) by (simp add: sameCache_pathKey [OF w(1)])
    have "accountAddrType m1 ai internal = accountAddrType m ai internal"
      using w(1) by (intro accountAddrType_cong) (simp add: sameCache_def)
    then show "\<forall>(ma, b, j) \<in> set infos. b = branchOf internal \<and> (\<exists>k. deriveNonStandard K branchKey j = Derived k \<and>
        keyAddress K k (accountAddrType m1 ai internal) = Some (maAddress ma))" using Cons.prems(4) by simp
  qed
  then show ?case using s by (simp add: bnd_def)
qed simp

text \<open>Addresses with different hashes do not overwrite each other.\<close>

lemma addrRows_notin: "h \<notin> (\<lambda>info. addrHash K (maAddress (fst info))) ` set infos \<Longrightarrow> addrRows K now account infos f h = f h"
  by (induction infos arbitrary: f) auto

lemma addrRows_in:
  assumes "distinct (map (\<lambda>info. addrHash K (maAddress (fst info))) infos)" "info \<in> set infos"
  shows "addrRows K now account infos f (addrHash K (maAddress (fst info))) = Some (chainRow account now info)"
  using assms
proof (induction infos arbitrary: f)
  case (Cons x infos)
  show ?case
  proof (cases "info = x")
    case True
    then show ?thesis using Cons.prems(1) by (simp add: addrRows_notin)
  next
    case False
    with Cons show ?thesis by simp
  qed
qed simp

text \<open>The managed addresses of the children.\<close>

definition newInfos ::
  "('k, 'a) keyFns \<Rightarrow> ('k, 'a) scopedManager \<Rightarrow> uint32 \<Rightarrow> ('k, 'a) accountInfo \<Rightarrow> bool \<Rightarrow> (uint32 \<Rightarrow> 'a) \<Rightarrow>
   (uint32 \<times> 'k) list \<Rightarrow> 'a unlockDeriveInfo list" where
  "newInfos K m account ai internal addr ones = map (\<lambda>(j, k).
     (PubKeyAddress (addr j) \<lparr>InternalAccount = account, pathAccount = keyChildIndex K (pathKey m ai),
        pathBranch = branchOf internal, pathIndex = j, pathFingerprint = aiFingerprint ai\<rparr> False internal
        (accountAddrType m ai internal), branchOf internal, j)) ones"

lemma nextOnes_derived: "nextOnes derive i ones \<Longrightarrow> (j, k) \<in> set ones \<Longrightarrow> derive j = Derived k"
  by (induction derive i ones rule: nextOnes.induct) auto

lemma nextAddresses_ones:
  assumes inv: "mgrInv K m" and laws: "keyLaws K" and c: "mAcctInfo m account = Some ai"
    and bound: "unat (nextOf internal ai) + unat n \<le> unat MaxAddressesPerAccount"
    and br: "deriveNonStandard K (pathKey m ai) (branchOf internal) = Derived branchKey"
    and ones: "nextOnes (deriveNonStandard K branchKey) (nextOf internal ai) ones" "length ones = unat n" "ones \<noteq> []"
    and addr: "\<forall>(j, k) \<in> set ones. keyAddress K k (accountAddrType m ai internal) = Some (addr j)"
  shows "\<exists>m1. forOps (storeAndCheck K now account) (newInfos K m account ai internal addr ones) m = (Inr (), m1) \<and>
    nextAddresses K now account n internal m = (Inr (map fst (newInfos K m account ai internal addr ones)),
      m1\<lparr>mPending := mPending m1 @ [nextClosure account ai internal (newInfos K m account ai internal addr ones)
        (fst (last ones) + 1) (watchOnlyOf m ai)]\<rparr>)"
proof -
  let ?infos = "newInfos K m account ai internal addr ones"
  have ld: "loaded K (mDb m) (hasPriv m) account ai" using inv c by (simp add: mgrInv_def memOk_def)
  have key: "signingKey m ai = Some (pathKey m ai)" using signingKey_eq [OF ld] laws by (simp add: keyLaws_def)
  have guard: "\<not> (n > MaxAddressesPerAccount \<or> nextOf internal ai + n > MaxAddressesPerAccount)"
    using bound by (auto simp: word_less_nat_alt unat_word_ariths MaxAddressesPerAccount_def)
  let ?f = "\<lambda>k j. PubKeyAddress (addr j) \<lparr>InternalAccount = account, pathAccount = keyChildIndex K (pathKey m ai),
        pathBranch = branchOf internal, pathIndex = j, pathFingerprint = aiFingerprint ai\<rparr> False internal
        (accountAddrType m ai internal)"
  have mk: "\<forall>(j, k) \<in> set ones. childAddress K m account ai internal (pathKey m ai) k j = Inr (?f k j)"
    using addr by (auto simp: childAddress_def newManagedAddressFromExtKey_def)
  have make: "makeAddresses (deriveNonStandard K branchKey) (childAddress K m account ai internal (pathKey m ai))
      (branchOf internal) (unat n) (nextOf internal ai) = Inr (?infos, fst (last ones) + 1)"
    using makeAddresses_ones [OF ones(1) mk, of "branchOf internal"] ones(2,3) by (simp add: newInfos_def)
  have "acctGet (mDb m) account \<noteq> None" using cached_row [OF inv c] by auto
  from storeAll_ok [OF c this br, of ?infos now] addr nextOnes_derived [OF ones(1)]
  obtain m1 where m1: "forOps (storeAndCheck K now account) ?infos m = (Inr (), m1)"
    by (fastforce simp: newInfos_def)
  then show ?thesis using guard key br make by (simp add: nextAddresses_cached [OF c] nextClosure_def)
qed

text \<open>The transaction around it.\<close>

lemma dbUpdate_next:
  assumes p: "mPending m = []" and l: "loadAccountInfo K account m = (Inr ai, m0)"
    and run: "nextAddresses K now account n internal m0 = (Inr mas, m2\<lparr>mPending := [nextClosure account ai internal infos nxt w]\<rparr>)"
    and m2: "mAcctInfo m2 account = Some ai" and ne: "infos \<noteq> []"
  shows "\<exists>m'. dbUpdate K (nextAddresses K now account n internal) m = (Inr mas, m') \<and> mDb m' = mDb m2"
proof -
  have "m\<lparr>mPending := []\<rparr> = m" using p by simp
  moreover have "nextAddresses K now account n internal m = (Inr mas, m2\<lparr>mPending := [nextClosure account ai internal infos nxt w]\<rparr>)"
    using l run by (subst nextAddresses_loads) (simp add: bnd_def)
  moreover have "mAcctInfo (m2\<lparr>mPending := []\<rparr>) account = Some ai" using m2 by simp
  note onCommit_run [OF this ne, of K internal nxt w]
  ultimately show ?thesis using fold_cacheInfo [of "m2\<lparr>mPending := []\<rparr>" K w infos]
    by (simp add: dbUpdate_def bnd_def)
qed

end
