(* ===== verification/Addr_Props.thy ===== *)
theory Addr_Props
  imports Addr_Next Wtx_Machine
begin

text \<open>
  The key manager as a state machine and its properties.  Each exported operation is a step, in a
  transaction of its own; the machine starts with the scope that creating a wallet makes.
\<close>

section \<open>The machine\<close>

definition openScope :: "ScopeAddrSchema \<Rightarrow> scopeNs \<Rightarrow> ('k, 'a) scopedManager" where
  "openScope schema d =
     \<lparr>mSchema = schema, mLocked = True, mWatchOnly = False, mDb = d, mAddrs = Map.empty, mAcctInfo = Map.empty,
      mDeriveOnUnlock = [], mPending = [], mGen = 0,
      mStartBlock = \<lparr>bsHeight = 0, bsHash = 0, bsTime = 0\<rparr>, mDbStartBlock = \<lparr>bsHeight = 0, bsHash = 0, bsTime = 0\<rparr>\<rparr>"

definition firstOpen :: "('k, 'a) keyFns \<Rightarrow> 'k \<Rightarrow> ScopeAddrSchema \<Rightarrow> ('k, 'a) scopedManager" where
  "firstOpen K coin schema =
     openScope schema (case createDefaultScope K coin of Inl e \<Rightarrow> emptyScope | Inr d \<Rightarrow> d)"

inductive mgr_step :: "('k, 'a) keyFns \<Rightarrow> ('k, 'a) scopedManager \<Rightarrow> ('k, 'a) scopedManager \<Rightarrow> bool"
  for K :: "('k, 'a) keyFns" where
  new_account: "mgr_step K m (snd (dbUpdate K (NewAccount K name) m))"
| new_watch_only: "\<not> keyIsPrivate K pubKey \<Longrightarrow> fetchLastAccount (mDb m) < MaxAccountNum \<Longrightarrow>
    mgr_step K m (snd (dbUpdate K (NewAccountWatchingOnly K name pubKey fp schema) m))"
| rename: "mgr_step K m (snd (dbUpdate K (RenameAccount account name) m))"
| next_external: "mgr_step K m (snd (dbUpdate K (NextExternalAddresses K now account n) m))"
| next_internal: "mgr_step K m (snd (dbUpdate K (NextInternalAddresses K now account n) m))"
| extend_external: "mgr_step K m (snd (dbUpdate K (ExtendExternalAddresses K now account i) m))"
| extend_internal: "mgr_step K m (snd (dbUpdate K (ExtendInternalAddresses K now account i) m))"
| mark_used: "mgr_step K m (snd (dbUpdate K (MarkUsed K a) m))"
| import_public: "mgr_step K m (snd (dbUpdate K (ImportPublicKey K now pub bs) m))"
| import_private: "mgr_step K m (snd (dbUpdate K (ImportPrivateKey K now net priv pub bs) m))"
| import_script: "mgr_step K m (snd (dbUpdate K (ImportScript K scriptHash now scr bs) m))"
| import_witness: "mgr_step K m (snd (dbUpdate K (ImportWitnessScript K witnessHash now scr bs ver secret) m))"
| address: "mgr_step K m (snd (dbUpdate K (Address K a) m))"
| derive: "mgr_step K m (snd (dbUpdate K (DeriveFromKeyPath K path) m))"
| properties: "mgr_step K m (snd (dbUpdate K (AccountProperties K clone account) m))"
| active: "mgr_step K m (snd (dbUpdate K (ForEachActiveAddress K) m))"
| forget: "mgr_step K m (snd (dbUpdate K (InvalidateAccountCache account) m))"
| lock: "mgr_step K m (snd (Lock m))"
| unlock: "set accts = dom (mAcctInfo m) \<Longrightarrow> mgr_step K m (snd (Unlock K pb ok accts m))"

lemma safe_capAccount: "safe K f \<Longrightarrow> safe K (capAccount account f)"
  unfolding capAccount_def by (auto intro: safe_quiet quiet_intros)

lemma Lock_inv: "mgrInv K m \<Longrightarrow> mgrInv K (snd (Lock m))"
  using memOk_lockScope [OF memOk_memMid, of K "mDb m" m]
  by (auto simp: Lock_def whenUnlocked_def mgrInv_def lockScope_def)

lemma cap_next_inv: "mgrInv K m \<Longrightarrow> mgrInv K (snd (dbUpdate K (capAccount account (nextAddresses K now account n internal)) m))"
  by (simp add: capAccount_def dbUpdate_nextAddresses dbUpdate_safe [OF safe_quiet [OF quiet_basic(2)]])

lemma watch_only_inv:
  assumes "keyLaws K" "mgrInv K m" "\<not> keyIsPrivate K pubKey" "fetchLastAccount (mDb m) < MaxAccountNum"
  shows "mgrInv K (snd (dbUpdate K (NewAccountWatchingOnly K name pubKey fp schema) m))"
proof -
  let ?m = "m\<lparr>mPending := []\<rparr>"
  have inv: "mgrInv K ?m" "fetchLastAccount (mDb ?m) < MaxAccountNum" using assms by simp_all
  obtain r m1 where f: "NewAccountWatchingOnly K name pubKey fp schema ?m = (r, m1)"
    by (cases "NewAccountWatchingOnly K name pubKey fp schema ?m")
  from NewAccountWatchingOnly_inv [OF inv(1) assms(1,3) inv(2), of name fp schema] f assms(2) show ?thesis
    by (cases r) (auto simp: dbUpdate_def bnd_def mgrInv_def memOk_def)
qed

lemmas step_safe = safe_NewAccount safe_RenameAccount safe_capAccount [OF safe_extendAddresses] safe_MarkUsed
  safe_ImportPublicKey safe_ImportPrivateKey safe_importScriptAddress safe_InvalidateAccountCache
  safe_quiet [OF quiet_readers(1)] safe_quiet [OF quiet_readers(2)] safe_quiet [OF quiet_readers(4)] safe_quiet [OF quiet_readers(11)]

lemma mgr_step_inv:
  assumes "keyLaws K" "mgrInv K m" "mgr_step K m m'"
  shows "mgrInv K m'"
  using assms(3,1,2)
proof cases
  case (new_watch_only pubKey name fp schema)
  then show ?thesis using watch_only_inv [OF assms(1,2)] by simp
next
  case (unlock accts pb ok)
  obtain r m1 where "Unlock K pb ok accts m = (r, m1)" by (cases "Unlock K pb ok accts m")
  with Unlock_inv [OF assms(1,2) _ this] unlock show ?thesis by simp
qed (auto simp: NextExternalAddresses_def NextInternalAddresses_def ExtendExternalAddresses_def ExtendInternalAddresses_def
  ImportScript_def ImportWitnessScript_def intro!: dbUpdate_safe step_safe cap_next_inv Lock_inv)

lemma names_differ [simp]: "importedName \<noteq> defaultName" "defaultName \<noteq> importedName"
  by (simp_all add: importedName_def defaultName_def)

text \<open>The scope a wallet starts with: the default account and the one for imports.\<close>

lemma dbInv_first:
  assumes "keyLaws K" "encPub K pubKey = Some apub" "\<not> keyIsPrivate K pubKey"
  shows "dbInv K (putDefaultAccountInfo ImportedAddrAccount [] [] 0 0 importedName
    (putDefaultAccountInfo 0 apub apriv 0 0 defaultName ((putLastAccount 0 emptyScope)\<lparr>coinTypeKeys := c\<rparr>)))" (is "dbInv K ?d")
proof -
  have g: "acctGet ?d = [ImportedAddrAccount \<mapsto> DefaultRow [] [] 0 0 importedName, 0 \<mapsto> DefaultRow apub apriv 0 0 defaultName]"
    by (auto simp: putDefaultAccountInfo_def fun_eq_iff ImportedAddrAccount_def)
      (auto simp: acctGet_def putLastAccount_def emptyScope_def)
  have i: "Get (acctIDIdx ?d) = [uint32ToBytes 0 \<mapsto> defaultName, uint32ToBytes ImportedAddrAccount \<mapsto> importedName]"
    "Get (acctNameIdx ?d) = [stringToBytes defaultName \<mapsto> 0, stringToBytes importedName \<mapsto> ImportedAddrAccount]"
    "lastAccount ?d = Some 0"
    "addrBucket ?d = bempty" "addrAcctIdx ?d = bempty" "acctAddrs ?d = Map.empty"
    by (simp_all add: putDefaultAccountInfo_def putAccountInfo_def putAccountNameIndex_def putAccountIDIndex_def
      putAccountRow_def putLastAccount_def emptyScope_def)
  define e where "e = ?d"
  note f = g [folded e_def] i [folded e_def]
  have "acctInv e" using f(4)
    by (rule acctInvI) (auto simp: f(1,2,3) ImportedAddrAccount_def split: if_splits)
  moreover have "addrInv e" by (simp add: addrInv_def f listed_def)
  moreover have "pubInv K e" using assms by (auto simp: pubInv_def f(1) keyLaws_def split: if_splits)
  ultimately show ?thesis by (simp add: dbInv_def e_def)
qed

lemma mgrInv_open:
  assumes "keyLaws K" "createDefaultScope K coin = Inr d"
  shows "mgrInv K (openScope schema d)"
proof -
  from assms(2) obtain acctKey pubKey apub apriv c where
    k: "keyNeuter K acctKey = Some pubKey" "encPub K pubKey = Some apub"
    and d: "d = putDefaultAccountInfo ImportedAddrAccount [] [] 0 0 importedName
      (putDefaultAccountInfo 0 apub apriv 0 0 defaultName ((putLastAccount 0 emptyScope)\<lparr>coinTypeKeys := c\<rparr>))"
    unfolding createDefaultScope_def createManagerKeyScope_def by (auto split: sum.splits if_splits option.splits)
  have "\<not> keyIsPrivate K pubKey" using k(1) assms(1) by (auto simp: keyLaws_def)
  from dbInv_first [OF assms(1) k(2) this] show ?thesis by (simp add: mgrInv_def memOk_def openScope_def d)
qed

interpretation mgr: safe_machine "firstOpen K coin schema" "mgr_step K"
  "\<lambda>m. keyLaws K \<longrightarrow> (\<forall>d. createDefaultScope K coin = Inr d \<longrightarrow> mgrInv K m)" for K coin schema
  by unfold_locales (auto simp: firstOpen_def intro: mgrInv_open mgr_step_inv)

lemma reachable_mgrInv:
  assumes "keyLaws K" "createDefaultScope K coin = Inr d" "(mgr_step K)\<^sup>*\<^sup>* (openScope schema d) m"
  shows "mgrInv K m"
  using mgr.reach_inv [of K coin schema m] assms by (simp add: firstOpen_def)

section \<open>An example\<close>

text \<open>Keys are a flag and a path, serialised as they are; the address of a key is its path.\<close>

definition demoKeys :: "(bool \<times> bytes, bytes) keyFns" where
  "demoKeys =
     \<lparr>deriveNonStandard = (\<lambda>(p, xs) i. Derived (p, xs @ put_u32 i)), keyNeuter = (\<lambda>(p, xs). Some (False, xs)),
      keyIsPrivate = fst, keyChildIndex = (\<lambda>_. 0), keyAddress = (\<lambda>(p, xs) t. Some xs), scriptAddr = id,
      addrString = map (\<lambda>b. char_of (unat b)), toPubKeyHash = id, sha256 = (\<lambda>bs. of_nat (be_dec bs)),
      encPub = (\<lambda>(p, xs). Some ((if p then 1 else 0) # xs)),
      decPub = (\<lambda>bs. case bs of [] \<Rightarrow> None | b # xs \<Rightarrow> Some (b = 1, xs)),
      encPriv = (\<lambda>(p, xs). Some ((if p then 1 else 0) # xs)),
      decPriv = (\<lambda>bs. case bs of [] \<Rightarrow> None | b # xs \<Rightarrow> Some (b = 1, xs)),
      sealPub = Some, sealPriv = Some, sealScript = Some, importedAddress = (\<lambda>bs t. Some bs),
      pubKeyID = (\<lambda>bs t. Some bs), pubKeyAddress = (\<lambda>bs t. Some bs), scriptHashAddress = Some,
      witnessAddress = (\<lambda>v bs. Some bs), plainScriptAddress = Some, plainWitnessAddress = (\<lambda>v bs. Some bs)\<rparr>"

definition demoSchema :: ScopeAddrSchema where
  "demoSchema = \<lparr>ExternalAddrType = 1, InternalAddrType = 1\<rparr>"

definition demoScope :: scopeNs where
  "demoScope = putDefaultAccountInfo ImportedAddrAccount [] [] 0 0 importedName
     (putDefaultAccountInfo 0 [0, 0x80, 0, 0, 0] [1, 0x80, 0, 0, 0] 0 0 defaultName
       ((putLastAccount 0 emptyScope)\<lparr>coinTypeKeys := Some ([0], [1])\<rparr>))"

lemma demo_laws: "keyLaws demoKeys"
  by (auto simp: keyLaws_def demoKeys_def)

lemma be_enc_4: "be_enc 4 x = [of_nat (x div 256 div 256 div 256 mod 256), of_nat (x div 256 div 256 mod 256),
    of_nat (x div 256 mod 256), of_nat (x mod 256)]"
proof -
  have "4 = Suc (Suc (Suc (Suc 0)))" by simp
  then show ?thesis by (simp only: be_enc.simps append.simps)
qed

lemma put_u32_demo: "put_u32 0x80000000 = [0x80, 0, 0, 0]" "put_u32 0 = [0, 0, 0, 0]" "put_u32 1 = [0, 0, 0, 1]"
  by (simp_all add: put_u32_def be_enc_4)

lemma demo_scope: "createDefaultScope demoKeys (True, []) = Inr demoScope"
  by (simp add: createDefaultScope_def createManagerKeyScope_def deriveAccountKey_def demoKeys_def checkBranchKeys_def
    MaxAccountNum_def put_u32_demo demoScope_def)

section \<open>The directory of accounts and addresses\<close>

lemma forEachAccountAddress_total:
  assumes "addrInv d"
  shows "\<exists>rows. forEachAccountAddress d a = Inr rows \<and> set rows = {r. \<exists>h. listed d a h \<and> Get (addrBucket d) h = Some r}"
proof (cases "acctAddrs d a")
  case None
  then show ?thesis by (simp add: forEachAccountAddress_def listed_def)
next
  case (Some b)
  have row: "\<exists>r. Get (addrBucket d) h = Some r" if "(h, u) \<in> set (ForEach b)" for h u
  proof -
    from that have "Get b h = Some u" by (simp add: bkt.forEach_iff)
    then have "listed d a h" by (simp add: listed_def Some)
    then show ?thesis using assms unfolding addrInv_def by blast
  qed
  let ?g = "\<lambda>(h, u :: unit). Get (addrBucket d) h"
  have "forEachAccountAddress d a = Inr (List.map_filter ?g (ForEach b))"
    unfolding forEachAccountAddress_def Some option.case
    by (rule collect_err_total) (use row in \<open>force simp: fetchAddressByHash_def\<close>)
  moreover have "set (List.map_filter ?g (ForEach b)) = {r. \<exists>h. listed d a h \<and> Get (addrBucket d) h = Some r}"
  proof -
    have "set (List.map_filter ?g xs) = {r. \<exists>h u. (h, u) \<in> set xs \<and> Get (addrBucket d) h = Some r}" for xs
      by (induction xs) (auto simp: List.map_filter_simps split: option.splits)
    then show ?thesis by (auto simp: listed_def Some bkt.forEach_iff)
  qed
  ultimately show ?thesis by blast
qed

lemma loaded_agrees:
  assumes "loaded K d p account ai"
  shows "\<exists>row. acctGet d account = Some row \<and> acctName ai = rowName row \<and> aiNextExternal ai = nextExternalIndex row \<and>
    aiNextInternal ai = nextInternalIndex row \<and> (acctKeyPriv ai \<noteq> None \<longrightarrow> p)"
proof -
  from assms obtain row where row: "acctGet d account = Some row" "rowAccount K row p (aiGen ai) = Inr (bare ai)"
    by (auto simp: loaded_def)
  from rowAccount_sel(3-5) [OF row(2)] rowAccount_sel(2) [OF row(2)] row(1) show ?thesis by (cases p) (auto simp: bare_def)
qed


lemma demo_acct: "acctGet demoScope = [ImportedAddrAccount \<mapsto> DefaultRow [] [] 0 0 importedName,
    0 \<mapsto> DefaultRow [0, 0x80, 0, 0, 0] [1, 0x80, 0, 0, 0] 0 0 defaultName]"
  by (auto simp: demoScope_def putDefaultAccountInfo_def fun_eq_iff ImportedAddrAccount_def)
    (auto simp: acctGet_def putLastAccount_def emptyScope_def)

definition demoUnlocked :: "(bool \<times> bytes, bytes) scopedManager" where
  "demoUnlocked = (openScope demoSchema demoScope)\<lparr>mLocked := False\<rparr>"

lemma demo_unlock: "mgr_step demoKeys (openScope demoSchema demoScope) demoUnlocked"
proof -
  let ?m = "openScope demoSchema demoScope :: (bool \<times> bytes, bytes) scopedManager"
  have "set [] = dom (mAcctInfo ?m)" by (simp add: openScope_def)
  from mgr_step.unlock [OF this, of demoKeys "\<lambda>_. []" True] show ?thesis
    by (simp add: Unlock_def openScope_def bnd_def demoUnlocked_def)
qed

lemma demo_new:
  "dbUpdate demoKeys (NewAccount demoKeys [0x61]) demoUnlocked =
     (Inr 1, demoUnlocked\<lparr>mDb := putLastAccount 1 (putDefaultAccountInfo 1 [0, 0x80, 0, 0, 1] [1, 0x80, 0, 0, 1] 0 0 [0x61] demoScope)\<rparr>)"
proof -
  have coin: "coinTypeKeys demoScope = Some ([0], [1])" "fetchLastAccount demoScope = 0" "fetchAccountByName demoScope [0x61] = Inl ErrAccountNotFound"
    by (simp_all add: demoScope_def putDefaultAccountInfo_def putAccountInfo_def putAccountNameIndex_def putAccountIDIndex_def
      putAccountRow_def putLastAccount_def emptyScope_def fetchLastAccount_def fetchAccountByName_def importedName_def defaultName_def)
  have name: "ValidateAccountName [0x61] = Inr ()" by (simp add: ValidateAccountName_def importedName_def)
  have key: "deriveAccountKey demoKeys (True, []) 1 = Inr (True, [0x80, 0, 0, 1])"
    by (simp add: deriveAccountKey_def demoKeys_def MaxAccountNum_def put_u32_def be_enc_4)
  have fns: "decPriv demoKeys [1] = Some (True, [])" "keyNeuter demoKeys (True, x) = Some (False, x)"
    "encPub demoKeys (False, x) = Some (0 # x)" "encPriv demoKeys (True, x) = Some (1 # x)" for x
    by (simp_all add: demoKeys_def)
  have "newAccount demoKeys 1 [0x61] m = (Inr (), m\<lparr>mDb :=
      putLastAccount 1 (putDefaultAccountInfo 1 [0, 0x80, 0, 0, 1] [1, 0x80, 0, 0, 1] 0 0 [0x61] demoScope)\<rparr>)"
    if "mDb m = demoScope" for m
    using that by (simp add: newAccount_def checkName_def bnd_def name coin key fns)
  then show ?thesis
    by (simp add: dbUpdate_def NewAccount_def whenUnlocked_def demoUnlocked_def openScope_def Let_def bnd_def coin)
qed


section \<open>New addresses\<close>

lemma newInfos_map:
  "map (\<lambda>info. addrHash K (maAddress (fst info))) (newInfos K m account ai internal addr ones) = map (\<lambda>(j, k). addrHash K (addr j)) ones"
  "map (maAddress \<circ> fst) (newInfos K m account ai internal addr ones) = map (addr \<circ> fst) ones"
  "map ((\<lambda>ma. pathIndex (maPath ma)) \<circ> fst) (newInfos K m account ai internal addr ones) = map fst ones"
  "ones \<noteq> [] \<Longrightarrow> lastIdx (newInfos K m account ai internal addr ones) = fst (last ones)"
  by (auto simp: newInfos_def lastIdx_def last_map split: prod.splits)

lemma newInfos_rows:
  assumes "distinct (map (\<lambda>(j, k). addrHash K (addr j)) ones)" "(j, k) \<in> set ones"
  shows "addrRows K now account (newInfos K m account ai internal addr ones) f (addrHash K (addr j)) =
    Some \<lparr>adAccount = account, adTime = now, adSync = 2, adData = ChainAddr (branchOf internal) j\<rparr>"
proof -
  let ?infos = "newInfos K m account ai internal addr ones"
  from assms(2) obtain info where i: "info \<in> set ?infos" "maAddress (fst info) = addr j" "snd info = (branchOf internal, j)"
    by (force simp: newInfos_def)
  have "distinct (map (\<lambda>info. addrHash K (maAddress (fst info))) ?infos)" unfolding newInfos_map by (rule assms(1))
  from addrRows_in [OF this i(1), of now account f] i(2,3) show ?thesis by (simp add: chainRow_def)
qed

text \<open>C32.  Asking for new addresses of an account, in a transaction: when the branch key derives and the next
  children, skipping invalid ones, have addresses with different hashes, the call returns exactly
  these children in order, stores a row for each and touches no other address, moves the next index of
  the account past the last one, and the cache agrees with the database afterwards.\<close>

theorem next_addresses_correct:
  assumes "keyLaws K" "mgrInv K m" "mPending m = []" "account \<le> MaxAccountNum"
    and "loadAccountInfo K account m = (Inr ai, m0)"
    and "0 < n" "unat (nextOf internal ai) + unat n \<le> unat MaxAddressesPerAccount"
    and "deriveNonStandard K (pathKey m ai) (branchOf internal) = Derived branchKey"
    and "nextOnes (deriveNonStandard K branchKey) (nextOf internal ai) ones" "length ones = unat n"
    and "\<forall>(j, k) \<in> set ones. keyAddress K k (accountAddrType m ai internal) = Some (addr j)"
    and "distinct (map (\<lambda>(j, k). addrHash K (addr j)) ones)"
  shows "\<exists>mas m'. dbUpdate K ((if internal then NextInternalAddresses else NextExternalAddresses) K now account n) m = (Inr mas, m') \<and>
    map maAddress mas = map (addr \<circ> fst) ones \<and> map (\<lambda>ma. pathIndex (maPath ma)) mas = map fst ones \<and>
    (\<forall>(j, k) \<in> set ones. fetchAddressByHash (mDb m') (addrHash K (addr j)) =
       Inr \<lparr>adAccount = account, adTime = now, adSync = 2, adData = ChainAddr (branchOf internal) j\<rparr>) \<and>
    (\<forall>h. h \<notin> (\<lambda>(j, k). addrHash K (addr j)) ` set ones \<longrightarrow> fetchAddressByHash (mDb m') h = fetchAddressByHash (mDb m) h) \<and>
    (\<exists>row. fetchAccountInfo (mDb m) account = Inr row \<and>
       fetchAccountInfo (mDb m') account = Inr (withNextIndex (branchOf internal) (fst (last ones)) row)) \<and>
    mgrInv K m'"
proof -
  have fr: "frame m m0" using quietD [OF quiet_loadAccountInfo assms(5)] by blast
  note k0 = loads_inv [OF assms(2,5)]
  have c: "mAcctInfo m0 account = Some ai" using assms(5) by (rule loadAccountInfo_caches)
  have same: "pathKey m0 ai = pathKey m ai" "accountAddrType m0 ai internal = accountAddrType m ai internal"
    using fr accountAddrType_cong [of m0 m] by (simp_all add: pathKey_def hasPriv_def frame_def)
  have ne: "ones \<noteq> []" using assms(6,10) by (auto simp: word_less_nat_alt)
  let ?infos = "newInfos K m0 account ai internal addr ones"
  from nextAddresses_ones [OF k0(1) assms(1) c assms(7) assms(8) [folded same(1)] assms(9,10) ne assms(11) [folded same(2)], of now]
  obtain m1 where m1: "forOps (storeAndCheck K now account) ?infos m0 = (Inr (), m1)"
    "nextAddresses K now account n internal m0 = (Inr (map fst ?infos), m1\<lparr>mPending := mPending m1 @
       [nextClosure account ai internal ?infos (fst (last ones) + 1) (watchOnlyOf m0 ai)]\<rparr>)" by blast
  have sm: "sameCache m0 m1" by (rule checked.run [OF c m1(1)])
  have p1: "mPending m1 = []" "mAcctInfo m1 account = Some ai" using sm k0(3) assms(3) c by (simp_all add: sameCache_def)
  have "?infos \<noteq> []" using ne by (simp add: newInfos_def)
  from dbUpdate_next [OF assms(3,5) m1(2) [unfolded p1(1) append_Nil] p1(2) this]
  obtain m' where m': "dbUpdate K (nextAddresses K now account n internal) m = (Inr (map fst ?infos), m')" "mDb m' = mDb m1" by blast
  have op: "(if internal then NextInternalAddresses else NextExternalAddresses) K now account n = nextAddresses K now account n internal"
    using leD [OF assms(4)] by (simp add: NextInternalAddresses_def NextExternalAddresses_def capAccount_def)
  obtain row where row: "acctGet (mDb m0) account = Some row" using cached_row [OF k0(1) c] by blast
  have "\<forall>info\<in>set ?infos. fst (snd info) = branchOf internal" by (auto simp: newInfos_def)
  note ok = checked.run_ok [OF c m1(1) _ row this]
  have g: "acctGet (mDb m') account = Some (withNextIndex (branchOf internal) (fst (last ones)) row)"
    "Get (addrBucket (mDb m')) = addrRows K now account ?infos (Get (addrBucket (mDb m)))"
    using ok k0(1,2) ne \<open>?infos \<noteq> []\<close> newInfos_map(4) [OF ne, of K m0 account ai internal addr] by (auto simp: m'(2) mgrInv_def)
  have "mgrInv K m'" using dbUpdate_nextAddresses [OF assms(2), of now account n internal] m'(1) by simp
  moreover have "fetchAddressByHash (mDb m') h = fetchAddressByHash (mDb m) h"
    if "h \<notin> (\<lambda>(j, k). addrHash K (addr j)) ` set ones" for h
    using that addrRows_notin [of h K ?infos] newInfos_map(1) [of K m0 account ai internal addr ones]
    by (simp add: fetchAddressByHash_def g(2) flip: set_map)
  ultimately show ?thesis
    using m'(1) g(1) row k0(2) newInfos_rows [OF assms(12)] unfolding op
    by (intro exI [of _ "map fst ?infos"] exI [of _ m'])
      (auto simp: newInfos_map(2,3) fetchAccountInfo_eq fetchAddressByHash_def g(2))
qed

lemma demo_last: "\<exists>ma m'. lastAddress demoKeys ai account br idx False m = (Inr ma, m')"
  by (auto simp: lastAddress_def deriveKey_def keyToManaged_def newManagedAddressFromExtKey_def demoKeys_def bnd_def Let_def
    split: prod.splits)

lemma demo_load:
  "\<exists>ai m0. loadAccountInfo demoKeys 0 (openScope demoSchema demoScope) = (Inr ai, m0) \<and> nextOf False ai = 0 \<and>
     acctKeyPriv ai = None \<and> acctKeyPub ai = (False, [0x80, 0, 0, 0]) \<and> aiSchema ai = None"
proof -
  let ?m = "openScope demoSchema demoScope :: (bool \<times> bytes, bytes) scopedManager"
  let ?row = "DefaultRow [0, 0x80, 0, 0, 0] [1, 0x80, 0, 0, 0] 0 0 defaultName"
  have row: "acctGet (mDb ?m) 0 = Some ?row" by (simp add: openScope_def demo_acct)
  obtain ai0 where ai0: "rowAccount demoKeys ?row (hasPriv ?m) (mGen ?m) = Inr ai0" "aiNextExternal ai0 = 0" "acctKeyPriv ai0 = None"
    "acctKeyPub ai0 = (False, [0x80, 0, 0, 0])" "aiSchema ai0 = None"
    by (simp add: rowAccount_def openScope_def hasPriv_def demoKeys_def)
  obtain e m1 where l1: "lastAddress demoKeys ai0 0 ExternalBranchNum (aiNextExternal ai0) False ?m = (Inr e, m1)" using demo_last by blast
  obtain i m2 where l2: "lastAddress demoKeys ai0 0 InternalBranchNum (aiNextInternal ai0) False m1 = (Inr i, m2)" using demo_last by blast
  have "\<exists>m0. loadAccountInfo demoKeys 0 ?m = (Inr (ai0\<lparr>lastExternalAddr := Some e, lastInternalAddr := Some i\<rparr>), m0)"
    using row ai0(1) l1 l2 by (simp add: loadAccountInfo_def fetchAccountInfo_eq bnd_def Let_def hasPriv_def openScope_def)
  then show ?thesis using ai0 by (fastforce simp: nextOf_def)
qed

theorem next_addresses_correct_witness:
  "\<exists>mas m'. dbUpdate demoKeys (NextExternalAddresses demoKeys 7 0 2) (openScope demoSchema demoScope) = (Inr mas, m') \<and>
     map (\<lambda>ma. pathIndex (maPath ma)) mas = [0, 1] \<and> mgrInv demoKeys m'"
proof -
  let ?m = "openScope demoSchema demoScope :: (bool \<times> bytes, bytes) scopedManager"
  obtain ai m0 where ai: "loadAccountInfo demoKeys 0 ?m = (Inr ai, m0)" "nextOf False ai = 0"
    "acctKeyPriv ai = None" "acctKeyPub ai = (False, [0x80, 0, 0, 0])" "aiSchema ai = None" using demo_load by blast
  let ?b = "[0x80, 0, 0, 0, 0, 0, 0, 0] :: bytes"
  let ?ones = "[(0, False, ?b @ put_u32 0), (1, False, ?b @ put_u32 1)] :: (uint32 \<times> bool \<times> bytes) list"
  have key: "pathKey ?m ai = (False, [0x80, 0, 0, 0])" by (simp add: pathKey_def ai)
  have br: "deriveNonStandard demoKeys (pathKey ?m ai) (branchOf False) = Derived (False, ?b)"
    by (simp add: key demoKeys_def branchOf_def ExternalBranchNum_def put_u32_demo)
  have ones: "nextOnes (deriveNonStandard demoKeys (False, ?b)) (nextOf False ai) ?ones" "length ?ones = unat (2 :: uint32)"
    by (auto simp: ai(2) demoKeys_def dest!: leD)
  have addr: "\<forall>(j, k) \<in> set ?ones. keyAddress demoKeys k (accountAddrType ?m ai False) = Some (?b @ put_u32 j)"
    by (simp add: demoKeys_def)
  have dist: "distinct (map (\<lambda>(j, k). addrHash demoKeys (?b @ put_u32 j)) ?ones)"
    by (simp add: addrHash_def demoKeys_def put_u32_demo be_dec_def)
  have start: "mPending ?m = []" "(0 :: uint32) \<le> MaxAccountNum" "(0 :: uint32) < 2"
    "unat (nextOf False ai) + unat (2 :: uint32) \<le> unat MaxAddressesPerAccount"
    by (simp_all add: openScope_def MaxAddressesPerAccount_def ai(2))
  from next_addresses_correct [OF demo_laws mgrInv_open [OF demo_laws demo_scope] start(1,2) ai(1) start(3,4) br ones addr dist, of 7]
  obtain mas m' where "dbUpdate demoKeys (NextExternalAddresses demoKeys 7 0 2) ?m = (Inr mas, m')"
    "map (\<lambda>ma. pathIndex (maPath ma)) mas = map fst ?ones" "mgrInv demoKeys m'" unfolding if_False by blast
  then show ?thesis by auto
qed

section \<open>A scope without a last account\<close>

text \<open>C33.  A scope made by \<open>NewScopedKeyManager\<close> has its default account 0 but no record of a last account.  As long
  as there is none, \<open>NewAccount\<close> returns account 0 again and overwrites its row: the next indexes
  start over and the number gets the new name, while the name \<open>default\<close> still leads to it.\<close>

theorem new_scope_loses_default:
  assumes "NewScopedKeyManager K False False (Some coin) = Inr d"
  shows "lastAccount d = None \<and> (\<exists>row. fetchAccountInfo d 0 = Inr row) \<and> fetchAccountByName d defaultName = Inr 0 \<and>
    (\<forall>m name a m'. lastAccount (mDb m) = None \<longrightarrow> fetchAccountByName (mDb m) defaultName = Inr 0 \<longrightarrow>
       NewAccount K name m = (Inr a, m') \<longrightarrow>
       a = 0 \<and> name \<noteq> defaultName \<and> (\<exists>pub priv. fetchAccountInfo (mDb m') 0 = Inr (DefaultRow pub priv 0 0 name)) \<and>
       fetchAccountName (mDb m') 0 = Inr name \<and> fetchAccountByName (mDb m') defaultName = Inr 0)"
proof (intro conjI allI impI)
  from assms obtain apub apriv c where d: "d = putDefaultAccountInfo ImportedAddrAccount [] [] 0 0 importedName
      (putDefaultAccountInfo 0 apub apriv 0 0 defaultName (emptyScope\<lparr>coinTypeKeys := c\<rparr>))"
    unfolding NewScopedKeyManager_def createManagerKeyScope_def by (auto split: sum.splits if_splits option.splits)
  have side: "lastAccount d = None \<and> fetchAccountByName d defaultName = Inr 0"
    by (simp add: d putDefaultAccountInfo_def putAccountInfo_def putAccountNameIndex_def putAccountIDIndex_def putAccountRow_def
      emptyScope_def fetchAccountByName_def)
  then show "lastAccount d = None" "fetchAccountByName d defaultName = Inr 0" by simp_all
  show "\<exists>row. fetchAccountInfo d 0 = Inr row"
    by (simp add: fetchAccountInfo_eq d putDefaultAccountInfo_def ImportedAddrAccount_def)
next
  fix m name a m'
  assume none: "lastAccount (mDb m) = None" and dflt: "fetchAccountByName (mDb m) defaultName = Inr 0"
    and run: "NewAccount K name m = (Inr a, m')"
  have last: "fetchLastAccount (mDb m) + 1 = 0" using none by (simp add: fetchLastAccount_def)
  obtain r m1 where n: "newAccount K 0 name m = (r, m1)" by (cases "newAccount K 0 name m")
  have ok: "r = Inr () \<and> m1 = m' \<and> a = 0"
    using run n last by (cases r) (auto simp: NewAccount_def whenUnlocked_def Let_def bnd_def split: if_splits)
  then obtain e pub priv where k: "fetchAccountByName (mDb m) name = Inl e"
    "m' = m\<lparr>mDb := putLastAccount 0 (putDefaultAccountInfo 0 pub priv 0 0 name (mDb m))\<rparr>"
    using newAccount_run [OF n] by auto
  have ne: "name \<noteq> defaultName" using k(1) dflt by auto
  show "a = 0" "name \<noteq> defaultName" using ok ne by simp_all
  show "\<exists>pub priv. fetchAccountInfo (mDb m') 0 = Inr (DefaultRow pub priv 0 0 name)"
    by (simp add: k(2) fetchAccountInfo_eq putDefaultAccountInfo_def)
  show "fetchAccountName (mDb m') 0 = Inr name" "fetchAccountByName (mDb m') defaultName = Inr 0"
    using ne dflt by (auto simp: k(2) fetchAccountName_def fetchAccountByName_def putDefaultAccountInfo_def putAccountInfo_def
      putAccountNameIndex_def putAccountIDIndex_def putAccountRow_def putLastAccount_def split: option.splits)
qed

definition demoNewScope :: scopeNs where
  "demoNewScope = putDefaultAccountInfo ImportedAddrAccount [] [] 0 0 importedName
     (putDefaultAccountInfo 0 [0, 0x80, 0, 0, 0] [1, 0x80, 0, 0, 0] 0 0 defaultName (emptyScope\<lparr>coinTypeKeys := Some ([0], [1])\<rparr>))"

theorem new_scope_loses_default_witness:
  "\<exists>m'. NewAccount demoKeys [0x61] (demoUnlocked\<lparr>mDb := demoNewScope\<rparr>) = (Inr 0, m') \<and>
     fetchAccountName (mDb m') 0 = Inr [0x61] \<and> fetchAccountByName (mDb m') defaultName = Inr 0"
proof -
  have scope: "NewScopedKeyManager demoKeys False False (Some (True, [])) = Inr demoNewScope"
    by (simp add: NewScopedKeyManager_def createManagerKeyScope_def deriveAccountKey_def demoKeys_def checkBranchKeys_def
      MaxAccountNum_def put_u32_demo demoNewScope_def)
  let ?m = "demoUnlocked\<lparr>mDb := demoNewScope\<rparr>"
  have coin: "coinTypeKeys demoNewScope = Some ([0], [1])" "lastAccount demoNewScope = None"
    "fetchAccountByName demoNewScope [0x61] = Inl ErrAccountNotFound" "fetchAccountByName demoNewScope defaultName = Inr 0"
    by (simp_all add: demoNewScope_def putDefaultAccountInfo_def putAccountInfo_def putAccountNameIndex_def putAccountIDIndex_def
      putAccountRow_def emptyScope_def fetchAccountByName_def importedName_def defaultName_def)
  have name: "ValidateAccountName [0x61] = Inr ()" by (simp add: ValidateAccountName_def importedName_def)
  have fns: "decPriv demoKeys [1] = Some (True, [])" "deriveAccountKey demoKeys (True, []) 0 = Inr (True, [0x80, 0, 0, 0])"
    "keyNeuter demoKeys (True, x) = Some (False, x)" "encPub demoKeys (False, x) = Some (0 # x)" "encPriv demoKeys (True, x) = Some (1 # x)" for x
    by (simp_all add: demoKeys_def deriveAccountKey_def MaxAccountNum_def put_u32_demo)
  have "\<exists>a m'. NewAccount demoKeys [0x61] ?m = (Inr a, m')"
    by (simp add: NewAccount_def whenUnlocked_def demoUnlocked_def openScope_def fetchLastAccount_def newAccount_def checkName_def
      bnd_def Let_def coin name fns)
  then obtain a m' where n: "NewAccount demoKeys [0x61] ?m = (Inr a, m')" by blast
  have "lastAccount (mDb ?m) = None" "fetchAccountByName (mDb ?m) defaultName = Inr 0" using coin by simp_all
  with new_scope_loses_default [OF scope] n
  have "a = 0 \<and> fetchAccountName (mDb m') 0 = Inr [0x61] \<and> fetchAccountByName (mDb m') defaultName = Inr 0" by blast
  with n show ?thesis by blast
qed

section \<open>Watch-only accounts and unlocking\<close>

lemma rowAccount_watch: "rowAccount K (WatchOnlyRow pub fp ext inn name schema) p gen = Inr ai \<Longrightarrow> acctKeyEncrypted ai = []"
  by (auto simp: rowAccount_def split: option.splits)

lemma unlockAccount_other:
  assumes "unlockAccount K a m = (r, m')"
  shows "mWatchOnly m' = mWatchOnly m \<and> (case r of Inl e \<Rightarrow> e = ErrCrypto | Inr x \<Rightarrow> \<forall>b. b \<noteq> a \<longrightarrow> mAcctInfo m' b = mAcctInfo m b)"
  using assms by (auto simp: unlockAccount_def bnd_def orFail_cases split: option.splits)

lemma unlock_stops:
  assumes "decPriv K [] = None" "mAcctInfo m account = Some ai" "acctKeyEncrypted ai = []" "account \<in> set accts"
  shows "\<exists>m'. forOps (unlockAccount K) accts m = (Inl ErrCrypto, m')"
  using assms(2,4)
proof (induction accts arbitrary: m)
  case (Cons a accts)
  obtain r m1 where u: "unlockAccount K a m = (r, m1)" by (cases "unlockAccount K a m")
  note o1 = unlockAccount_other [OF u]
  show ?case
  proof (cases r)
    case (Inl e)
    with u o1 show ?thesis by (simp add: bnd_def)
  next
    case (Inr x)
    have "a \<noteq> account" using u Inr Cons.prems(1) assms(1,3) by (auto simp: unlockAccount_def bnd_def)
    then have "mAcctInfo m1 account = Some ai" "account \<in> set accts" using o1 Inr Cons.prems by auto
    with Cons.IH u Inr show ?thesis by (simp add: bnd_def)
  qed
qed simp

text \<open>C34.  While a watch-only account is in the cache of a consistent, locked manager, \<open>Unlock\<close> with the right
  passphrase fails with \<open>ErrCrypto\<close>, in whatever order the cached accounts are visited: the account
  has no encrypted private key to decrypt.  The manager stays locked and keeps no private key.\<close>

theorem watch_only_blocks_unlock:
  assumes "keyLaws K" "mgrInv K m" "mLocked m" "\<not> mWatchOnly m"
    and "fetchAccountInfo (mDb m) account = Inr (WatchOnlyRow pub fp ext inn name schema)"
    and "mAcctInfo m account = Some ai" "set accts = dom (mAcctInfo m)"
  shows "\<exists>m'. Unlock K pb True accts m = (Inl ErrCrypto, m') \<and> mLocked m' \<and> mDb m' = mDb m \<and>
    (\<forall>a ai'. mAcctInfo m' a = Some ai' \<longrightarrow> acctKeyPriv ai' = None)"
proof -
  have "loaded K (mDb m) (hasPriv m) account ai" using assms(2,6) by (simp add: mgrInv_def memOk_def)
  then have "rowAccount K (WatchOnlyRow pub fp ext inn name schema) (hasPriv m) (aiGen ai) = Inr (bare ai)"
    using assms(5) by (auto simp: loaded_def fetchAccountInfo_eq split: option.splits)
  then have "acctKeyEncrypted (bare ai) = []" by (rule rowAccount_watch)
  then have enc: "acctKeyEncrypted ai = []" by (simp add: bare_def)
  have "account \<in> set accts" using assms(6,7) by auto
  moreover have "decPriv K [] = None" using assms(1) by (simp add: keyLaws_def)
  ultimately obtain m1 where f: "forOps (unlockAccount K) accts m = (Inl ErrCrypto, m1)"
    using unlock_stops [OF _ assms(6) enc] by blast
  then have u: "Unlock K pb True accts m = (Inl ErrCrypto, lockScope m1)"
    using assms(3,4) by (simp add: Unlock_def bnd_def)
  moreover have "mDb (lockScope m1) = mDb m" using Unlock_inv [OF assms(1,2) _ u] assms(7) by simp
  ultimately show ?thesis by (auto simp: lockScope_def)
qed

text \<open>A wallet with a watch-only account that was looked at.\<close>

definition demoWatch :: "(bool \<times> bytes, bytes) scopedManager" where
  "demoWatch = snd (dbUpdate demoKeys (NewAccountWatchingOnly demoKeys [0x77] (False, [5]) 9 None) (openScope demoSchema demoScope))"

lemma demo_watch:
  "demoWatch = (openScope demoSchema demoScope)\<lparr>mDb :=
     putLastAccount 1 (putWatchOnlyAccountInfo 1 [0, 5] 9 0 0 [0x77] None demoScope)\<rparr>"
  "mgrInv demoKeys demoWatch"
proof -
  have coin: "fetchLastAccount demoScope = 0" "fetchAccountByName demoScope [0x77] = Inl ErrAccountNotFound"
    by (simp_all add: demoScope_def putDefaultAccountInfo_def putAccountInfo_def putAccountNameIndex_def putAccountIDIndex_def
      putAccountRow_def putLastAccount_def emptyScope_def fetchLastAccount_def fetchAccountByName_def importedName_def defaultName_def)
  have name: "ValidateAccountName [0x77] = Inr ()" by (simp add: ValidateAccountName_def importedName_def)
  have "encPub demoKeys (False, [5]) = Some [0, 5]" by (simp add: demoKeys_def)
  then show "demoWatch = (openScope demoSchema demoScope)\<lparr>mDb :=
     putLastAccount 1 (putWatchOnlyAccountInfo 1 [0, 5] 9 0 0 [0x77] None demoScope)\<rparr>"
    by (simp add: demoWatch_def dbUpdate_def NewAccountWatchingOnly_def newAccountWatchingOnly_def openScope_def
      checkName_def bnd_def Let_def coin name)
  show "mgrInv demoKeys demoWatch" unfolding demoWatch_def
    by (rule watch_only_inv [OF demo_laws mgrInv_open [OF demo_laws demo_scope]])
      (simp_all add: openScope_def coin MaxAccountNum_def demoKeys_def)
qed

theorem watch_only_blocks_unlock_witness:
  "\<exists>ai m m'. loadAccountInfo demoKeys 1 demoWatch = (Inr ai, m) \<and> Unlock demoKeys (\<lambda>_. []) True [1] m = (Inl ErrCrypto, m')"
proof -
  let ?row = "WatchOnlyRow [0, 5] 9 0 0 [0x77] None"
  have m: "mAcctInfo demoWatch = Map.empty" "mLocked demoWatch" "\<not> mWatchOnly demoWatch" "\<not> hasPriv demoWatch"
    "acctGet (mDb demoWatch) 1 = Some ?row"
    by (simp_all add: demo_watch(1) openScope_def hasPriv_def putWatchOnlyAccountInfo_def)
  obtain ai0 where ai0: "rowAccount demoKeys ?row (hasPriv demoWatch) (mGen demoWatch) = Inr ai0"
    by (simp add: rowAccount_def demoKeys_def)
  obtain e m1 where l1: "lastAddress demoKeys ai0 1 ExternalBranchNum (aiNextExternal ai0) False demoWatch = (Inr e, m1)" using demo_last by blast
  obtain i m2 where l2: "lastAddress demoKeys ai0 1 InternalBranchNum (aiNextInternal ai0) False m1 = (Inr i, m2)" using demo_last by blast
  obtain ai m0 where l: "loadAccountInfo demoKeys 1 demoWatch = (Inr ai, m0)"
    using m ai0 l1 l2 by (simp add: loadAccountInfo_def fetchAccountInfo_eq bnd_def Let_def)
  have c: "mAcctInfo m0 1 = Some ai" using l by (rule loadAccountInfo_caches)
  have fr: "frame demoWatch m0" using quietD [OF quiet_loadAccountInfo l] by blast
  have "dom (mAcctInfo m0) = {1}" using loadAccountInfo_uncached [of demoWatch 1, OF _ l] m(1) by (auto split: if_splits)
  moreover have "fetchAccountInfo (mDb m0) 1 = Inr ?row" using fr m(5) by (simp add: frame_def fetchAccountInfo_eq)
  moreover have "mLocked m0" "\<not> mWatchOnly m0" using fr m by (simp_all add: frame_def)
  ultimately obtain m' where "Unlock demoKeys (\<lambda>_. []) True [1] m0 = (Inl ErrCrypto, m')"
    using watch_only_blocks_unlock [OF demo_laws loads_inv(1) [OF demo_watch(2) l] _ _ _ c, of "[0, 5]" 9 0 0 "[0x77]" None "[1]" "\<lambda>_. []"] by auto
  with l show ?thesis by blast
qed

text \<open>\<open>extendAddresses\<close> takes an account with a private key for a watch-only one and the other way round: on an
  unlocked manager a watch-only account derives from a missing private key.\<close>

lemma extend_watch_only_panics:
  assumes "mAcctInfo m account = Some ai" "acctKeyPriv ai = None" "hasPriv m"
    "nextOf internal ai \<le> lastIndex" "lastIndex \<le> MaxAddressesPerAccount"
  shows "extendAddresses K now account lastIndex internal m = (Inl MgrPanic, m)"
  using assms by (auto simp: extendAddresses_def loadAccountInfo_cached bnd_def Let_def hasPriv_def nextOf_def not_less)

end
