(* ===== verification/Wallet_Credits.thy ===== *)
theory Wallet_Credits
  imports Chainsync Addr_Props
begin

text \<open>
  The root manager over its scopes (\<^verbatim>\<open>waddrmgr/manager.go\<close>) and the wallet's handler of relevant
  transactions on top of it: the transaction store, the sync state and the key manager together.
\<close>

section \<open>The root manager\<close>

text \<open>The scopes, each with whether it is a default scope.  The code keeps them in a map and visits them in no
  fixed order; the list is any one order, the same for the lookups of one transaction.\<close>

type_synonym ('k, 'a) rootManager = "(bool \<times> ('k, 'a) scopedManager) list"

text \<open>\<open>Address\<close>, \<open>MarkUsed\<close> and \<open>AddrAccount\<close> go on with the first scope that knows the address; any error of a
  scope counts as not knowing it.\<close>

fun withOwner ::
  "('k, 'a) keyFns \<Rightarrow> 'a \<Rightarrow> (bool \<Rightarrow> 'a ManagedAddress \<Rightarrow> ('k, 'a, 'x) op) \<Rightarrow> ('k, 'a) rootManager \<Rightarrow>
   (mgr_error + 'x) \<times> ('k, 'a) rootManager" where
  "withOwner K a f [] = (Inl ErrAddressNotFound, [])"
| "withOwner K a f ((d, m) # rest) =
     (case Address K a m of
        (Inl e, m) \<Rightarrow> (case withOwner K a f rest of (r, rest) \<Rightarrow> (r, (d, m) # rest))
      | (Inr ma, m) \<Rightarrow> (case f d ma m of (r, m) \<Rightarrow> (r, (d, m) # rest)))"

definition managerAddress :: "('k, 'a) keyFns \<Rightarrow> 'a \<Rightarrow> ('k, 'a) rootManager \<Rightarrow> (mgr_error + 'a ManagedAddress) \<times> ('k, 'a) rootManager" where
  "managerAddress K a = withOwner K a (\<lambda>d ma. ret ma)"

definition managerMarkUsed :: "('k, 'a) keyFns \<Rightarrow> 'a \<Rightarrow> ('k, 'a) rootManager \<Rightarrow> (mgr_error + unit) \<times> ('k, 'a) rootManager" where
  "managerMarkUsed K a = withOwner K a (\<lambda>d ma. MarkUsed K a)"

definition managerAddrAccount ::
  "('k, 'a) keyFns \<Rightarrow> 'a \<Rightarrow> ('k, 'a) rootManager \<Rightarrow> (mgr_error + bool \<times> uint32) \<times> ('k, 'a) rootManager" where
  "managerAddrAccount K a = withOwner K a (\<lambda>d ma. bnd (AddrAccount K a) (\<lambda>account. ret (d, account)))"

text \<open>A callback over the addresses of every scope; the first error ends it.\<close>

fun overScopes ::
  "(bool \<Rightarrow> ('k, 'a, 'x list) op) \<Rightarrow> ('k, 'a) rootManager \<Rightarrow> (mgr_error + 'x list) \<times> ('k, 'a) rootManager" where
  "overScopes f [] = (Inr [], [])"
| "overScopes f ((d, m) # rest) =
     (case f d m of
        (Inl e, m) \<Rightarrow> (Inl e, (d, m) # rest)
      | (Inr xs, m) \<Rightarrow>
          (case overScopes f rest of
             (Inl e, rest) \<Rightarrow> (Inl e, (d, m) # rest)
           | (Inr ys, rest) \<Rightarrow> (Inr (xs @ ys), (d, m) # rest)))"

definition managerForEachActiveAddress :: "('k, 'a) keyFns \<Rightarrow> ('k, 'a) rootManager \<Rightarrow> (mgr_error + 'a list) \<times> ('k, 'a) rootManager" where
  "managerForEachActiveAddress K = overScopes (\<lambda>d. ForEachActiveAddress K)"

definition ForEachRelevantActiveAddress :: "('k, 'a) keyFns \<Rightarrow> ('k, 'a) rootManager \<Rightarrow> (mgr_error + 'a list) \<times> ('k, 'a) rootManager" where
  "ForEachRelevantActiveAddress K =
     overScopes (\<lambda>isDefault. if isDefault then ForEachActiveAddress K else ForEachInternalActiveAddress K)"

definition managerForEachAccountAddress ::
  "('k, 'a) keyFns \<Rightarrow> uint32 \<Rightarrow> ('k, 'a) rootManager \<Rightarrow> (mgr_error + 'a ManagedAddress list) \<times> ('k, 'a) rootManager" where
  "managerForEachAccountAddress K account = overScopes (\<lambda>d. ForEachAccountAddress K account)"

text \<open>What the wallet's handler uses of the manager.  \<open>addrsOf\<close> stands for \<^verbatim>\<open>txscript.ExtractPkScriptAddrs\<close>.\<close>

definition undoScopes :: "('k, 'a) rootManager \<Rightarrow> ('k, 'a) rootManager \<Rightarrow> ('k, 'a) rootManager" where
  "undoScopes old new =
     map (\<lambda>((d, m), (d', m')). (d', m'\<lparr>mDb := mDb m, mDbStartBlock := mDbStartBlock m\<rparr>)) (zip old new)"

definition rootFns :: "('k, 'a) keyFns \<Rightarrow> (script \<Rightarrow> 'a list option) \<Rightarrow> ('a, ('k, 'a) rootManager) addrFns" where
  "rootFns K addrsOf =
     \<lparr>scriptAddrs = addrsOf,
      mgrAddress = (\<lambda>a root. case managerAddress K a root of (r, root) \<Rightarrow> (map_sum id isInternal r, root)),
      mgrAddrScope = (\<lambda>a root. case managerAddrAccount K a root of (r, root) \<Rightarrow> (map_sum id fst r, root)),
      mgrMarkUsed = managerMarkUsed K, mgrUndo = undoScopes\<rparr>"

section \<open>Looking up leaves the answers as they are\<close>

text \<open>Lookups and markings change the caches; a scope answers when, whatever was looked up before,
  exactly the stored addresses are found, with their account.\<close>

inductive touches :: "('k, 'a) keyFns \<Rightarrow> ('k, 'a) scopedManager \<Rightarrow> ('k, 'a) scopedManager \<Rightarrow> bool" for K where
  look_up: "touches K m (snd (Address K a m))"
| mark: "touches K m (snd (MarkUsed K a m))"

definition hasRow :: "('k, 'a) keyFns \<Rightarrow> 'a \<Rightarrow> ('k, 'a) scopedManager \<Rightarrow> bool" where
  "hasRow K a m \<longleftrightarrow> existsAddressRow (mDb m) (addrHash K a)"

definition answers :: "('k, 'a) keyFns \<Rightarrow> ('k, 'a) scopedManager \<Rightarrow> bool" where
  "answers K m \<longleftrightarrow> (\<forall>a. ((\<exists>ma. fst (Address K a m) = Inr ma) \<longleftrightarrow> hasRow K (toPubKeyHash K a) m) \<and>
     (hasRow K a m \<longrightarrow> (\<exists>account. fetchAddrAccount (mDb m) (addrHash K a) = Inr account)))"

definition scopeGood :: "('k, 'a) keyFns \<Rightarrow> ('k, 'a) scopedManager \<Rightarrow> bool" where
  "scopeGood K m \<longleftrightarrow> (\<forall>m'. (touches K)\<^sup>*\<^sup>* m m' \<longrightarrow> answers K m')"

definition rootGood :: "('k, 'a) keyFns \<Rightarrow> ('k, 'a) rootManager \<Rightarrow> bool" where
  "rootGood K root \<longleftrightarrow> (\<forall>(d, m) \<in> set root. scopeGood K m)"

definition rootOwner :: "('k, 'a) keyFns \<Rightarrow> ('k, 'a) rootManager \<Rightarrow> 'a \<Rightarrow> bool option" where
  "rootOwner K root a = map_option fst (find (\<lambda>(d, m). hasRow K a m) root)"

definition plainAddr :: "('k, 'a) keyFns \<Rightarrow> 'a \<Rightarrow> bool" where
  "plainAddr K a \<longleftrightarrow> toPubKeyHash K a = a"

lemma Address_db: "mDb (snd (Address K a m)) = mDb m"
  using quiet_readers(4) [of K a] by (simp add: quiet_def frame_def)

lemma MarkUsed_db [simp]: "addrBucket (mDb (snd (MarkUsed K a m))) = addrBucket (mDb m)"
  "addrAcctIdx (mDb (snd (MarkUsed K a m))) = addrAcctIdx (mDb m)" "fst (MarkUsed K a m) = Inr ()"
  by (simp_all add: MarkUsed_def bnd_def)

lemma touches_rows: "touches K m m' \<Longrightarrow> hasRow K a m' = hasRow K a m \<and> addrAcctIdx (mDb m') = addrAcctIdx (mDb m)"
  by (erule touches.cases) (simp_all add: hasRow_def existsAddressRow_def Address_db)

lemma scopeGood_touch: "scopeGood K m \<Longrightarrow> touches K m m' \<Longrightarrow> scopeGood K m'"
  unfolding scopeGood_def by (meson converse_rtranclp_into_rtranclp)

lemma scopeGood_answers: "scopeGood K m \<Longrightarrow> answers K m"
  unfolding scopeGood_def by blast

text \<open>Two root managers whose scopes have the same addresses.\<close>

definition sameScope :: "('k, 'a) keyFns \<Rightarrow> bool \<times> ('k, 'a) scopedManager \<Rightarrow> bool \<times> ('k, 'a) scopedManager \<Rightarrow> bool" where
  "sameScope K x y \<longleftrightarrow> fst y = fst x \<and> (\<forall>a. hasRow K a (snd y) = hasRow K a (snd x)) \<and>
     addrAcctIdx (mDb (snd y)) = addrAcctIdx (mDb (snd x)) \<and> (scopeGood K (snd x) \<longrightarrow> scopeGood K (snd y))"

lemma sameScope_touch: "touches K m m' \<Longrightarrow> sameScope K (d, m) (d, m')"
  using touches_rows [of K m m'] scopeGood_touch [of K m m'] by (auto simp: sameScope_def)

lemma sameScope_refl [simp]: "sameScope K x x" by (simp add: sameScope_def)

lemma sameScope_trans: "sameScope K x y \<Longrightarrow> sameScope K y z \<Longrightarrow> sameScope K x z" by (simp add: sameScope_def)

lemma sameRoot_owner: "list_all2 (sameScope K) root root' \<Longrightarrow> rootOwner K root' = rootOwner K root \<and> (rootGood K root \<longrightarrow> rootGood K root')"
proof (induction rule: list_all2_induct)
  case Nil
  then show ?case by simp
next
  case (Cons x xs y ys)
  then show ?case by (cases x; cases y) (auto simp: sameScope_def rootOwner_def rootGood_def fun_eq_iff)
qed

lemma sameRoot_scope:
  "list_all2 (sameScope K) root root' \<Longrightarrow> (d, m) \<in> set root' \<Longrightarrow> \<exists>m0. (d, m0) \<in> set root \<and> sameScope K (d, m0) (d, m)"
proof (induction rule: list_all2_induct)
  case (Cons x xs y ys)
  show ?case
  proof (cases "y = (d, m)")
    case True
    then have "x = (d, snd x)" using Cons.hyps(1) by (cases x) (simp add: sameScope_def)
    then show ?thesis using Cons.hyps(1) True by (metis list.set_intros(1))
  next
    case False
    then show ?thesis using Cons.IH Cons.prems by auto
  qed
qed simp

definition keepsRows :: "('k, 'a) keyFns \<Rightarrow> (bool \<Rightarrow> 'a ManagedAddress \<Rightarrow> ('k, 'a, 'x) op) \<Rightarrow> bool" where
  "keepsRows K f \<longleftrightarrow> (\<forall>d ma m. sameScope K (d, m) (d, snd (f d ma m)))"

text \<open>The first scope that has the address runs the operation.\<close>

lemma withOwner_run:
  assumes "rootGood K root" and f: "keepsRows K f"
    and "withOwner K a f root = (r, root')"
  shows "list_all2 (sameScope K) root root' \<and>
    (case rootOwner K root (toPubKeyHash K a) of
       None \<Rightarrow> r = Inl ErrAddressNotFound
     | Some d \<Rightarrow> \<exists>m0 m ma m'. (d, m0) \<in> set root \<and> sameScope K (d, m0) (d, m) \<and> hasRow K (toPubKeyHash K a) m \<and>
         scopeGood K m \<and> f d ma m = (r, m'))"
  using assms(1,3)
proof (induction root arbitrary: root')
  case Nil
  then show ?case by (simp add: rootOwner_def)
next
  case (Cons x root)
  obtain d m where x: "x = (d, m)" by (cases x)
  obtain r1 m1 where ad: "Address K a m = (r1, m1)" by (cases "Address K a m")
  have good: "scopeGood K m" "rootGood K root" using Cons.prems(1) x by (auto simp: rootGood_def)
  have touch: "touches K m m1" using touches.look_up [of K m a] ad by simp
  have same: "sameScope K (d, m) (d, m1)" by (rule sameScope_touch [OF touch])
  have found: "(\<exists>ma. r1 = Inr ma) \<longleftrightarrow> hasRow K (toPubKeyHash K a) m"
    using scopeGood_answers [OF good(1)] ad unfolding answers_def by (metis fst_conv)
  show ?case
  proof (cases r1)
    case (Inl e)
    then have no: "\<not> hasRow K (toPubKeyHash K a) m" using found by simp
    obtain r2 rest where w: "withOwner K a f root = (r2, rest)" by (cases "withOwner K a f root")
    have eq: "r = r2" "root' = (d, m1) # rest" using Cons.prems(2) x ad Inl w by simp_all
    have "rootOwner K (x # root) (toPubKeyHash K a) = rootOwner K root (toPubKeyHash K a)" using no x by (simp add: rootOwner_def)
    then show ?thesis using Cons.IH [OF good(2) w [folded eq(1)]] same x eq by (fastforce split: option.splits)
  next
    case (Inr ma)
    then have yes: "hasRow K (toPubKeyHash K a) m" using found by blast
    obtain r2 m2 where w: "f d ma m1 = (r2, m2)" by (cases "f d ma m1")
    have eq: "r = r2" "root' = (d, m2) # root" using Cons.prems(2) x ad Inr w by simp_all
    have "rootOwner K (x # root) (toPubKeyHash K a) = Some d" using yes x by (simp add: rootOwner_def)
    moreover have "list_all2 (sameScope K) (x # root) root'"
      using sameScope_trans [OF same, of "(d, m2)"] f w x eq(2) by (auto simp: list_all2_refl keepsRows_def) (metis snd_conv)
    moreover have "hasRow K (toPubKeyHash K a) m1" "scopeGood K m1" using same yes good by (simp_all add: sameScope_def)
    then have "(d, m) \<in> set (x # root) \<and> sameScope K (d, m) (d, m1) \<and> hasRow K (toPubKeyHash K a) m1 \<and> scopeGood K m1 \<and>
        f d ma m1 = (r, m2)" using x same w eq(1) by simp
    ultimately show ?thesis unfolding option.case by (simp only: option.case) blast
  qed
qed

lemma keepsRows_ops:
  "keepsRows K (\<lambda>d ma. ret ma)" "keepsRows K (\<lambda>d ma. MarkUsed K a)"
  "keepsRows K (\<lambda>d ma. bnd (AddrAccount K a) (\<lambda>account. ret (d, account)))"
proof -
  show "keepsRows K (\<lambda>d ma. MarkUsed K a)" using touches.mark [of K _ a] by (auto simp: keepsRows_def intro: sameScope_touch)
qed (auto simp: keepsRows_def bnd_def AddrAccount_def split: sum.splits)

text \<open>The root manager keeps the handler's contract for addresses that are their own public key hash.\<close>

interpretation root: address_book "rootFns K addrsOf" "rootGood K" "rootOwner K" "plainAddr K" for K addrsOf
proof unfold_locales
  fix m m' :: "('a, 'b) rootManager" and a r
  assume g: "rootGood K m" and p: "plainAddr K a" and run: "mgrAddress (rootFns K addrsOf) a m = (r, m')"
  obtain r1 where w: "withOwner K a (\<lambda>d ma. ret ma) m = (r1, m')" "r = map_sum id isInternal r1"
    using run by (auto simp: rootFns_def managerAddress_def split: prod.splits)
  from withOwner_run [OF g keepsRows_ops(1) w(1)] p w(2) sameRoot_owner [of K m m'] g
  show "rootGood K m' \<and> rootOwner K m' = rootOwner K m \<and>
      (case rootOwner K m a of None \<Rightarrow> r = Inl ErrAddressNotFound | Some d \<Rightarrow> \<exists>i. r = Inr i)"
    by (auto simp: plainAddr_def split: option.splits)
next
  fix m m' :: "('a, 'b) rootManager" and a d r
  assume g: "rootGood K m" and p: "plainAddr K a" and o: "rootOwner K m a = Some d"
    and run: "mgrAddrScope (rootFns K addrsOf) a m = (r, m')"
  obtain r1 where w: "withOwner K a (\<lambda>d ma. bnd (AddrAccount K a) (\<lambda>account. ret (d, account))) m = (r1, m')" "r = map_sum id fst r1"
    using run by (auto simp: rootFns_def managerAddrAccount_def split: prod.splits)
  note k = withOwner_run [OF g keepsRows_ops(3) w(1)]
  from k p o obtain m0 m1 where m1: "hasRow K a m0" "scopeGood K m0" "bnd (AddrAccount K a) (\<lambda>account. ret (d, account)) m0 = (r1, m1)"
    by (auto simp: plainAddr_def)
  then obtain account where "fetchAddrAccount (mDb m0) (addrHash K a) = Inr account"
    using scopeGood_answers [OF m1(2)] by (auto simp: answers_def)
  then have "r1 = Inr (d, account)" using m1(3) by (simp add: AddrAccount_def bnd_def)
  then show "rootGood K m' \<and> rootOwner K m' = rootOwner K m \<and> r = Inr d"
    using k sameRoot_owner [of K m m'] g w(2) by simp
next
  fix m m' :: "('a, 'b) rootManager" and a u
  assume g: "rootGood K m" and p: "plainAddr K a" and o: "rootOwner K m a = Some True"
    and run: "mgrMarkUsed (rootFns K addrsOf) a m = (u, m')"
  then have w: "withOwner K a (\<lambda>d ma. MarkUsed K a) m = (u, m')" by (simp add: rootFns_def managerMarkUsed_def)
  note k = withOwner_run [OF g keepsRows_ops(2) w]
  from k p o obtain m0 m1 where "MarkUsed K a m0 = (u, m1)" by (auto simp: plainAddr_def)
  then have "u = Inr ()" using MarkUsed_db(3) [of K a m0] by simp
  then show "rootGood K m' \<and> rootOwner K m' = rootOwner K m \<and> u = Inr ()"
    using k sameRoot_owner [of K m m'] g by simp
qed

section \<open>An example\<close>

text \<open>A wallet with one imported key, whose public key address is \<open>[33]\<close> and whose hash is \<open>[5]\<close>.\<close>

definition demoKeyring :: "(bool \<times> bytes, bytes) keyFns" where
  "demoKeyring = demoKeys\<lparr>toPubKeyHash := (\<lambda>a. if a = [33] then [5] else a)\<rparr>"

definition demoImported :: scopeNs where
  "demoImported = putImportedAddress 5 ImportedAddrAccount 0 0 [5] [] demoScope"

definition demoRoot :: "(bool \<times> bytes, bytes) rootManager" where
  "demoRoot = [(True, openScope demoSchema demoImported)]"

definition onlyImported :: "(bool \<times> bytes, bytes) scopedManager \<Rightarrow> bool" where
  "onlyImported m \<longleftrightarrow> addrBucket (mDb m) = addrBucket demoImported \<and> addrAcctIdx (mDb m) = addrAcctIdx demoImported \<and>
     dom (mAddrs m) \<subseteq> {[5]}"

lemma demo_imported:
  "Get (addrBucket demoImported) h =
     (if h = 5 then Some \<lparr>adAccount = ImportedAddrAccount, adTime = 0, adSync = 0, adData = ImportedAddr [5] []\<rparr> else None)"
  "Get (addrAcctIdx demoImported) h = (if h = 5 then Some ImportedAddrAccount else None)"
  by (simp_all add: demoImported_def putImportedAddress_def putAddress_def putAddrAccountIndex_def demoScope_def
    putDefaultAccountInfo_def putAccountInfo_def putAccountNameIndex_def putAccountIDIndex_def putAccountRow_def
    putLastAccount_def emptyScope_def)

lemma demo_keyring:
  "scriptAddr demoKeyring a = a" "toPubKeyHash demoKeyring a = (if a = [33] then [5] else a)"
  "addrHash demoKeyring a = of_nat (be_dec a)" "importedAddress demoKeyring bs t = Some bs"
  by (simp_all add: demoKeyring_def demoKeys_def addrHash_def)

lemma demo_dec: "be_dec [b] = unat b" by (simp add: be_dec_def)

lemma only_imported_address:
  assumes "onlyImported m"
  shows "onlyImported (snd (Address demoKeyring a m)) \<and>
    ((\<exists>ma. fst (Address demoKeyring a m) = Inr ma) \<longleftrightarrow> hasRow demoKeyring (toPubKeyHash demoKeyring a) m)"
proof -
  define b where "b = toPubKeyHash demoKeyring a"
  have row: "fetchAddressByHash (mDb m) h =
      (if h = 5 then Inr \<lparr>adAccount = ImportedAddrAccount, adTime = 0, adSync = 0, adData = ImportedAddr [5] []\<rparr>
       else Inl ErrAddressNotFound)" "hasRow demoKeyring b m \<longleftrightarrow> of_nat (be_dec b) = (5 :: hash)" for h
    using assms by (simp_all add: onlyImported_def fetchAddressByHash_def hasRow_def existsAddressRow_def demo_imported demo_keyring)
  have cached: "b = [5]" if "mAddrs m b \<noteq> None" using that assms by (auto simp: onlyImported_def)
  show ?thesis
  proof (cases "mAddrs m b")
    case None
    then have "Address demoKeyring a m = loadAndCacheAddress demoKeyring b m"
      by (simp add: Address_def look_def b_def [symmetric] demo_keyring(1) Let_def)
    then show ?thesis using assms row
      by (auto simp: b_def [symmetric] loadAndCacheAddress_def look_def bnd_def lift_sum_def ret_def raise_def change_def orFail_def
        rowInterfaceToManaged_def onlyImported_def demo_keyring(1,3,4) Let_def)
  next
    case (Some ma)
    then have "Address demoKeyring a m = (Inr ma, m)"
      by (simp add: Address_def look_def ret_def b_def [symmetric] demo_keyring(1) Let_def)
    moreover have "hasRow demoKeyring b m" using cached Some row(2) by (simp add: demo_dec)
    ultimately show ?thesis using assms by (simp add: b_def)
  qed
qed

lemma only_imported_good:
  assumes "onlyImported m"
  shows "scopeGood demoKeyring m"
proof -
  have keeps: "onlyImported m'" if "(touches demoKeyring)\<^sup>*\<^sup>* m m'" for m'
    using that
  proof (induction rule: rtranclp_induct)
    case (step y z)
    from step.hyps(2) show ?case
    proof cases
      case look_up
      then show ?thesis using only_imported_address step.IH by blast
    next
      case (mark a)
      have "mAddrs z = (mAddrs y)(scriptAddr demoKeyring a := None)" using mark by (simp add: MarkUsed_def bnd_def)
      then show ?thesis using step.IH mark by (auto simp: onlyImported_def)
    qed
  qed (rule assms)
  have "answers demoKeyring m'" if "onlyImported m'" for m'
    using only_imported_address [OF that] that
    by (auto simp: answers_def hasRow_def existsAddressRow_def fetchAddrAccount_def onlyImported_def demo_imported split: if_splits)
  then show ?thesis using keeps by (simp add: scopeGood_def)
qed

lemma demo_root: "rootGood demoKeyring demoRoot" "rootOwner demoKeyring demoRoot [5] = Some True"
proof -
  show "rootGood demoKeyring demoRoot"
    using only_imported_good by (simp add: rootGood_def demoRoot_def onlyImported_def openScope_def)
  show "rootOwner demoKeyring demoRoot [5] = Some True"
    by (simp add: rootOwner_def demoRoot_def openScope_def hasRow_def existsAddressRow_def demo_imported demo_keyring demo_dec)
qed

definition demoChain :: "(bool \<times> bytes, bytes) rootManager chainWallet" where
  "demoChain = \<lparr>wSync = wSync demoWallet, wTxns = demo4, wMgr = demoRoot, memSyncedTo = memSyncedTo demoWallet,
     memStartBlock = memStartBlock demoWallet, wChainSynced = True\<rparr>"

section \<open>Relevant transactions\<close>



text \<open>C39.  A new transaction whose first output pays to a bare public key of the wallet is not recorded: \<open>Address\<close>
  finds the key by its hash, but \<open>AddrAccount\<close> looks for the public key itself and fails, so the handler
  returns an error and the transaction is rolled back.\<close>

theorem pay_to_pubkey_fails:
  assumes "rootGood K (wMgr w)" "toPubKeyHash K (toPubKeyHash K a) = toPubKeyHash K a"
    and "rootOwner K (wMgr w) (toPubKeyHash K a) \<noteq> None"
    and "\<forall>(d, m) \<in> set (wMgr w). fetchAddrAccount (mDb m) (addrHash K a) = Inl ErrAddressNotFound"
    and "InsertTxCheckIfExists (wTxns w) rec obm = Inr (False, s)"
    and "TxOut (msgTx rec) = out # outs" "addrsOf (PkScript out) = Some (a # addrs)"
  shows "\<exists>w'. handleNotification isCB B (rootFns K addrsOf) (RelevantTx rec obm) w = (Some MgrError, w') \<and>
    wTxns w' = wTxns w \<and> wSync w' = wSync w \<and> memSyncedTo w' = memSyncedTo w"
proof -
  let ?F = "rootFns K addrsOf" and ?f = "\<lambda>d ma. bnd (AddrAccount K a) (\<lambda>account. ret (d, account))"
  obtain r1 m1 where w1: "withOwner K a (\<lambda>d ma. ret ma) (wMgr w) = (r1, m1)" by (cases "withOwner K a (\<lambda>d ma. ret ma) (wMgr w)")
  note k1 = withOwner_run [OF assms(1) keepsRows_ops(1) w1]
  then have found: "\<exists>ma. r1 = Inr ma" using assms(3) by (auto split: option.splits)
  obtain r2 m2 where w2: "withOwner K a ?f m1 = (r2, m2)" by (cases "withOwner K a ?f m1")
  have g1: "rootGood K m1" "rootOwner K m1 = rootOwner K (wMgr w)" using k1 sameRoot_owner [of K "wMgr w" m1] assms(1) by simp_all
  have none: "fetchAddrAccount (mDb m) (addrHash K a) = Inl ErrAddressNotFound" if "(d, m) \<in> set m1" for d m
  proof -
    from sameRoot_scope [OF conjunct1 [OF k1] that] obtain m0 where "(d, m0) \<in> set (wMgr w)" "sameScope K (d, m0) (d, m)"
      by blast
    then show ?thesis using assms(4) by (auto simp: sameScope_def fetchAddrAccount_def)
  qed
  have "r2 = Inl ErrAddressNotFound"
  proof -
    from withOwner_run [OF g1(1) keepsRows_ops(3) w2] assms(3) g1(2)
    obtain d m0 m ma m' where "(d, m0) \<in> set m1" "sameScope K (d, m0) (d, m)" "?f d ma m = (r2, m')"
      by (auto split: option.splits)
    moreover have "fetchAddrAccount (mDb m) (addrHash K a) = Inl ErrAddressNotFound"
      using none calculation(1,2) by (auto simp: sameScope_def fetchAddrAccount_def)
    ultimately show ?thesis by (simp add: AddrAccount_def bnd_def)
  qed
  then have "creditAddr ?F rec obm 0 a (w\<lparr>wTxns := s\<rparr>) = failed (w\<lparr>wTxns := s, wMgr := m2\<rparr>) MgrError"
    using w1 found w2 by (auto simp: creditAddr_def rootFns_def managerAddress_def managerAddrAccount_def)
  moreover have "zip (idxs (out # outs)) (out # outs) = (0, out) # zip (map of_nat [1..<Suc (length outs)]) outs"
    by (simp add: idxs_def upt_rec)
  ultimately have "addRelevantTx ?F rec obm w = failed (w\<lparr>wTxns := s, wMgr := m2\<rparr>) MgrError"
    using assms(5-7) by (simp add: addRelevantTx_def creditOutput_def failed_def) (simp add: rootFns_def)
  then show ?thesis by (simp add: handleNotification_def walletUpdate_def failed_def)
qed

theorem pay_to_pubkey_fails_witness:
  "\<exists>w'. handleNotification demoCB \<lparr>backBlockAt = (\<lambda>h. None), headerTime = (\<lambda>h. None)\<rparr> (rootFns demoKeyring (\<lambda>_. Some [[33]])) (RelevantTx (demoRec 2) (Some (demoBlock 2))) demoChain =
     (Some MgrError, w') \<and> wTxns w' = demo4"
proof -
  have w: "rootGood demoKeyring (wMgr demoChain)" "rootOwner demoKeyring (wMgr demoChain) (toPubKeyHash demoKeyring [33]) \<noteq> None"
    "toPubKeyHash demoKeyring (toPubKeyHash demoKeyring [33]) = toPubKeyHash demoKeyring [33]" "wTxns demoChain = demo4"
    "\<forall>(d, m) \<in> set (wMgr demoChain). fetchAddrAccount (mDb m) (addrHash demoKeyring [33]) = Inl ErrAddressNotFound"
    using demo_root by (simp_all add: demoChain_def demo_keyring demoRoot_def openScope_def fetchAddrAccount_def demo_imported demo_dec)
  have "\<exists>s. InsertTxCheckIfExists demo4 (demoRec 2) (Some (demoBlock 2)) = Inr (False, s)"
    using addRelevantTx_insert [OF demo_universe demo_inv, of "demoRec 2" "Some (demoBlock 2)"] demo_mineable2 demoRec by auto
  then obtain s where s: "InsertTxCheckIfExists (wTxns demoChain) (demoRec 2) (Some (demoBlock 2)) = Inr (False, s)"
    using w(4) by auto
  have o: "TxOut (msgTx (demoRec 2)) = demoOut 30 # [demoOut 15]" by (simp add: demoRec_def demoT_def)
  show ?thesis using pay_to_pubkey_fails [OF w(1,3,2,5) s o, of "\<lambda>_. Some [[33]]" "[]" demoCB "\<lparr>backBlockAt = (\<lambda>h. None), headerTime = (\<lambda>h. None)\<rparr>"] w(4) by auto
qed

end
