(* ===== verification/Spec2Isabelle.thy ===== *)
theory Spec2Isabelle
  imports Wtx_Balance Wtx_Refine Wtx_Query Autorenew Txauthor Recovery Wallet_Credits
begin

text \<open>
  A verification development for obtcwallet, a Bitcoin wallet written in Go whose outputs expire.  Source
  paths below are relative to \<^verbatim>\<open>src/\<close>.

  \<^bold>\<open>The program.\<close>  A wallet is a database (\<^verbatim>\<open>walletdb\<close>) that two stores share: \<^verbatim>\<open>wtxmgr\<close> keeps the transactions, their
  credits and debits and the leases on outputs, \<^verbatim>\<open>waddrmgr\<close> the keys, accounts, addresses and the sync state.
  \<^verbatim>\<open>wallet\<close> sits on both: it follows the chain (\<^verbatim>\<open>wallet/chainntfns.go\<close>), recovers addresses from
  the seed (\<^verbatim>\<open>wallet/recovery.go\<close>), lists what can be spent (\<^verbatim>\<open>wallet/utxos.go\<close>), builds transactions
  (\<^verbatim>\<open>wallet/createtx.go\<close>, \<^verbatim>\<open>wallet/txauthor\<close>) and renews outputs that are about to expire (\<^verbatim>\<open>wallet/expiry.go\<close>,
  \<^verbatim>\<open>wallet/autorenew.go\<close>).  \<^verbatim>\<open>chain\<close> talks to the node.

  \<^bold>\<open>Shared vocabulary.\<close>  \<open>Prelude\<close>: Go's integer types as words, or as integers wrapped by \<open>int32\<close> and \<open>int64\<close> where the
  code computes with signed numbers; big-endian bytes; folds that stop at an error.  \<open>Walletdb\<close>: a bucket with its
  cursor, the locale \<open>bucket_spec\<close>, interpreted for the ordered trees the model uses.

  \<^bold>\<open>The transaction store\<close> (\<^verbatim>\<open>wtxmgr\<close>).  \<open>Wtx_Types\<close>, \<open>Wtx_Codec\<close> and \<open>Wtx_Db\<close> are \<^verbatim>\<open>tx.go\<close>'s structs and the layers of \<^verbatim>\<open>db.go\<close>: every
  key and value encoding on bytes, and the helpers on typed buckets.  \<open>Wtx_Refine\<close> shows that the byte level
  refines the typed one, so that the handlers can be written on typed buckets.  \<open>Wtx_Store\<close> has the handlers of \<^verbatim>\<open>tx.go\<close> and
  \<^verbatim>\<open>unconfirmed.go\<close> as the code composes them, \<open>Wtx_Locks\<close> the leases, \<open>Wtx_Kahn\<close> the dependency sort, \<open>Wtx_Query\<close> the queries,
  \<open>Wtx_Balance\<close> listings and balance.  \<open>Wtx_Conflicts\<close>, \<open>Wtx_Ledger\<close>, \<open>Wtx_Inv\<close>, \<open>Wtx_Insert\<close>, \<open>Wtx_Handlers\<close> and \<open>Wtx_Rollback\<close> prove that
  each handler succeeds on a consistent store and keeps it consistent; \<open>Wtx_Machine\<close> makes the handlers steps of a
  machine (locale \<open>safe_machine\<close>), and \<open>Wtx_Props\<close>, \<open>Wtx_Props2\<close> state what follows.  The ghosts \<open>T\<close> (what transaction a
  hash stands for) and \<open>rk\<close> (a transaction spends earlier ones) occur in no operation.

  \<^bold>\<open>Expiry, outputs, spending\<close> (\<^verbatim>\<open>wallet\<close>).  \<open>Expiry\<close> and \<open>Autorenew\<close> have the expiry rules and the renewal loop at the widths of
  the code, \<open>Wallet_Utxos\<close> balances and eligible outputs, \<open>Txauthor\<close> sizes, fees, coin selection and
  \<open>NewUnsignedTransaction\<close> over the contract \<open>input_source\<close>.

  \<^bold>\<open>Keys\<close> (\<^verbatim>\<open>waddrmgr\<close>).  \<open>Addr_Codec\<close> and \<open>Addr_Db\<close> are the rows and buckets of a key scope, \<open>Addr_Manager\<close> the scoped key manager: an
  operation changes caches and database, and \<open>dbUpdate\<close> is the transaction around it, which undoes the
  database but not the caches.  \<open>Addr_Inv\<close>, \<open>Addr_Accounts\<close> and \<open>Addr_Next\<close> prove that every operation keeps the invariant (rows,
  indexes, caches agree); \<open>Addr_Props\<close> is the machine and its properties.  Two ways of writing new addresses are
  interpretations of \<open>address_writer\<close>.

  \<^bold>\<open>Chain\<close>.  \<open>Blockfilter\<close> is the filter of \<^verbatim>\<open>chain/block_filterer.go\<close> and \<open>FilterBlocks\<close>; \<open>Recovery\<close> the look-ahead of
  \<^verbatim>\<open>wallet/recovery.go\<close> and the scan of a batch.  \<open>Chainsync\<close> has the sync state, the handlers of chain notifications, the
  birthday search and the rollback at start-up, with the manager behind the contract
  \<open>address_book\<close>; \<open>Wallet_Credits\<close> is the root manager over its scopes, interprets that contract, and so composes
  store, sync state and keys.

  \<^bold>\<open>What is shown.\<close>  For the store: consistency and the balance in every reachable state, the effect of each handler,
  listings and balance against their specification, termination, leases, queries.  For spending: bounds of expiry heights,
  agreement of the views of expiry, eligibility, budget and backoff of the renewal, conservation of value and
  termination of transaction building.  For keys: the invariant in every reachable state, new addresses, codecs.
  For the chain: exactness of the filter, completeness of recovery, safety of the birthday search,
  crediting, rollback.  Where the code misbehaves a theorem says exactly how (a clock race in \<open>Balance\<close>, a
  lost hash on disconnect, a scope that loses its default account, a watch-only account that blocks
  unlocking, outputs to bare public keys).

  \<^bold>\<open>Bounds and fuel.\<close>  \<open>removeConflict\<close> recurses along chains of unmined spenders and takes fuel; \<open>conflictFuel\<close> is the number of
  unmined transactions plus one, enough because a rank decreases along the chain, and the result is
  proved independent of any greater fuel.  Kahn's sort is a \<open>while_option\<close>, proved to end.  The loop of
  \<open>NewUnsignedTransaction\<close>, the searches of \<open>Chainsync\<close> and the recovery loop are partial functions into \<open>option\<close>, proved to
  return.  Amount sums are exact below \<open>amountCap\<close>, the number of satoshis the chain can hold;
  child indexes stay below \<open>maxChild\<close>.  A derivation loop that would run past every index is \<open>MgrHang\<close>.

  \<^bold>\<open>Parameters.\<close>  Code outside the repository is an argument: the transaction hash, coinbase test and serialised sizes of \<^verbatim>\<open>btcd\<close>,
  script parsing, key derivation and encryption (\<open>keyFns\<close>), the chain backend, the clock.  What is
  assumed of them is a named hypothesis (\<open>universe\<close>, \<open>keyLaws\<close>, and the like) with an instance in the witnesses.

  \<^bold>\<open>Not modelled.\<close>  Database transactions as such (a handler is all or nothing), goroutines, channels and locks around the
  handlers, network clients, signing and script execution, passphrases and encryption, database migrations,
  the legacy key store file, the RPC servers' decoding of requests, and command line tools: they are I/O, calls into
  cryptographic packages, or one-time conversions.
\<close>

end
